(* ===== verification/Prelude.thy ===== *)
theory Prelude
  imports Main "HOL-Library.Word" "HOL-Library.AList"
begin

text \<open>
  Shared ground of the development: the Rust integer operations the program uses, the
  \<open>?\<close> operator on results, byte strings, and the generic list lemmas several components
  need.

  Conventions.
  \<^item> An unsigned machine integer (\<open>u16\<close>, \<open>u32\<close>, \<open>u64\<close>, \<open>u128\<close>, \<open>usize\<close> on a 64-bit target)
    is a \<open>nat\<close> whose saturation or wrap-around is written out where the code has it;
    \<open>saturating_sub\<close> is exactly subtraction on \<open>nat\<close>.
  \<^item> A byte is an \<open>8 word\<close>; a Rust \<open>String\<close> is a \<open>string\<close> holding its UTF-8 bytes.
  \<^item> A \<open>Result<T, E>\<close> is \<open>'e + 't\<close>, with \<open>Inl\<close> the error.
\<close>

named_theorems sat_simps \<open>unfolding of the saturating operations\<close>
named_theorems result_simps \<open>evaluation of results\<close>

subsection \<open>Types\<close>

type_synonym u8 = "8 word"
type_synonym bytes = "u8 list"
type_synonym ('e, 'a) result = "'e + 'a"

subsection \<open>Saturating arithmetic\<close>

definition u64_max :: nat where
  "u64_max = 2 ^ 64 - 1"

definition u128_max :: nat where
  "u128_max = 2 ^ 128 - 1"

definition sat_add :: "nat \<Rightarrow> nat \<Rightarrow> nat" where
  "sat_add a b = min (a + b) u64_max"

definition sat_mul :: "nat \<Rightarrow> nat \<Rightarrow> nat" where
  "sat_mul a b = min (a * b) u64_max"

definition sat_add128 :: "nat \<Rightarrow> nat \<Rightarrow> nat" where
  "sat_add128 a b = min (a + b) u128_max"

definition sat_mul128 :: "nat \<Rightarrow> nat \<Rightarrow> nat" where
  "sat_mul128 a b = min (a * b) u128_max"

text \<open>\<open>iter().fold(0u64, u64::saturating_add)\<close> and its product counterpart.\<close>

definition sat_sum :: "nat list \<Rightarrow> nat" where
  "sat_sum xs = foldl sat_add 0 xs"

definition sat_prod :: "nat list \<Rightarrow> nat" where
  "sat_prod xs = foldl sat_mul 1 xs"

text \<open>\<open>iter().sum::<u64>()\<close> of a release build: the sum wraps.\<close>

definition wrapping_sum :: "nat list \<Rightarrow> nat" where
  "wrapping_sum xs = sum_list xs mod 2 ^ 64"

lemma sat_add_le_max [simp]: "sat_add a b \<le> u64_max"
  by (simp add: sat_add_def)

lemma sat_mul_le_max [simp]: "sat_mul a b \<le> u64_max"
  by (simp add: sat_mul_def)

lemma sat_add_mono: "a \<le> a' \<Longrightarrow> b \<le> b' \<Longrightarrow> sat_add a b \<le> sat_add a' b'"
  by (simp add: sat_add_def)

lemma sat_mul_mono: "a \<le> a' \<Longrightarrow> b \<le> b' \<Longrightarrow> sat_mul a b \<le> sat_mul a' b'"
  unfolding sat_mul_def by (rule min.mono) (auto intro: mult_le_mono)

lemma sat_add128_mono: "a \<le> a' \<Longrightarrow> b \<le> b' \<Longrightarrow> sat_add128 a b \<le> sat_add128 a' b'"
  by (simp add: sat_add128_def)

lemma sat_mul128_mono: "a \<le> a' \<Longrightarrow> b \<le> b' \<Longrightarrow> sat_mul128 a b \<le> sat_mul128 a' b'"
  unfolding sat_mul128_def by (rule min.mono) (auto intro: mult_le_mono)

lemma foldl_sat_add: "acc \<le> u64_max \<Longrightarrow> foldl sat_add acc xs = min (acc + sum_list xs) u64_max"
  by (induction xs arbitrary: acc) (auto simp: sat_add_def)

lemma sat_sum_eq: "sat_sum xs = min (sum_list xs) u64_max"
  by (simp add: sat_sum_def foldl_sat_add)

lemma sat_sum_le_sum: "sat_sum xs \<le> sum_list xs"
  by (simp add: sat_sum_eq)

lemma sat_sum_le_max [simp]: "sat_sum xs \<le> u64_max"
  by (simp add: sat_sum_eq)

lemma min_mul_absorb: "min (min (a::nat) m * b) m = min (a * b) m"
proof (cases "a \<le> m \<or> b = 0")
  case True
  then show ?thesis by (auto simp: min_def)
next
  case False
  then have m: "m \<le> m * b" and "m * b \<le> a * b"
    by (auto intro: mult_le_mono1)
  then have "m \<le> a * b" by (rule le_trans)
  with False m show ?thesis by (simp add: min_absorb2)
qed

lemma foldl_sat_mul: "acc \<le> u64_max \<Longrightarrow> foldl sat_mul acc xs = min (acc * prod_list xs) u64_max"
proof (induction xs arbitrary: acc)
  case Nil
  then show ?case by simp
next
  case (Cons x xs)
  have "foldl sat_mul acc (x # xs) = min (sat_mul acc x * prod_list xs) u64_max"
    using Cons.IH [of "sat_mul acc x"] by simp
  also have "\<dots> = min (acc * x * prod_list xs) u64_max"
    by (simp add: sat_mul_def min_mul_absorb)
  finally show ?case by (simp add: mult.assoc)
qed

lemma sat_prod_eq: "sat_prod xs = min (prod_list xs) u64_max"
  by (simp add: sat_prod_def foldl_sat_mul u64_max_def)

lemma wrapping_sum_small: "sum_list xs \<le> u64_max \<Longrightarrow> wrapping_sum xs = sum_list xs"
  by (simp add: wrapping_sum_def u64_max_def)

subsection \<open>Options\<close>

text \<open>\<open>a.or_else(|| b)\<close>.\<close>

definition or_else :: "'a option \<Rightarrow> 'a option \<Rightarrow> 'a option" where
  "or_else a b = (case a of Some x \<Rightarrow> Some x | None \<Rightarrow> b)"

lemma or_else_simps [simp]: "or_else (Some x) b = Some x" "or_else None b = b"
  by (simp_all add: or_else_def)

lemma or_else_same [simp]: "or_else a a = a"
  by (cases a) simp_all

subsection \<open>The \<open>?\<close> operator\<close>

definition try_then :: "('e, 'a) result \<Rightarrow> ('a \<Rightarrow> ('e, 'b) result) \<Rightarrow> ('e, 'b) result" where
  "try_then r f = (case r of Inl e \<Rightarrow> Inl e | Inr v \<Rightarrow> f v)"

lemma try_then_Inl [simp, result_simps]: "try_then (Inl e) f = Inl e"
  by (simp add: try_then_def)

lemma try_then_Inr [simp, result_simps]: "try_then (Inr v) f = f v"
  by (simp add: try_then_def)

lemma try_then_eq_Inr: "try_then r f = Inr v \<longleftrightarrow> (\<exists>x. r = Inr x \<and> f x = Inr v)"
  by (cases r) auto

lemma try_then_eq_Inl: "try_then r f = Inl e \<longleftrightarrow> r = Inl e \<or> (\<exists>x. r = Inr x \<and> f x = Inl e)"
  by (cases r) auto

lemma try_then_cong [fundef_cong]:
  "r = r' \<Longrightarrow> (\<And>x. r' = Inr x \<Longrightarrow> f x = g x) \<Longrightarrow> try_then r f = try_then r' g"
  by (cases r') auto

subsection \<open>Bytes and strings\<close>

definition to_str :: "bytes \<Rightarrow> string" where
  "to_str bs = map (\<lambda>b. char_of (unat b)) bs"

definition of_str :: "string \<Rightarrow> bytes" where
  "of_str s = map (\<lambda>c. word_of_nat (of_char c)) s"

lemma unat_u8_less: "unat (b :: u8) < 256"
proof -
  have "unat b < 2 ^ LENGTH(8)" by (rule unsigned_less)
  then show ?thesis by simp
qed

lemma length_to_str [simp]: "length (to_str bs) = length bs"
  by (simp add: to_str_def)

lemma length_of_str [simp]: "length (of_str s) = length s"
  by (simp add: of_str_def)

lemma to_str_of_str [simp]: "to_str (of_str s) = s"
  by (induction s) (simp_all add: to_str_def of_str_def unat_of_nat)

text \<open>\<open>to_ascii_lowercase\<close>, \<open>contains\<close>, \<open>starts_with\<close>, \<open>ends_with\<close> and the decimal form of a number.\<close>

definition ascii_lower_char :: "char \<Rightarrow> char" where
  "ascii_lower_char c = (let n = of_char c :: nat in if 65 \<le> n \<and> n \<le> 90 then char_of (n + 32) else c)"

definition ascii_lower :: "string \<Rightarrow> string" where
  "ascii_lower s = map ascii_lower_char s"

fun starts_with :: "'a list \<Rightarrow> 'a list \<Rightarrow> bool" where
  "starts_with s [] \<longleftrightarrow> True"
| "starts_with [] (p # ps) \<longleftrightarrow> False"
| "starts_with (c # s) (p # ps) \<longleftrightarrow> c = p \<and> starts_with s ps"

fun str_contains :: "'a list \<Rightarrow> 'a list \<Rightarrow> bool" where
  "str_contains [] needle \<longleftrightarrow> needle = []"
| "str_contains (c # s) needle \<longleftrightarrow> starts_with (c # s) needle \<or> str_contains s needle"

definition ends_with :: "'a list \<Rightarrow> 'a list \<Rightarrow> bool" where
  "ends_with s suffix \<longleftrightarrow> starts_with (rev s) (rev suffix)"

lemma starts_with_iff: "starts_with s p \<longleftrightarrow> (\<exists>r. s = p @ r)"
  by (induction s p rule: starts_with.induct) auto

lemma ends_with_iff: "ends_with s p \<longleftrightarrow> (\<exists>r. s = r @ p)"
proof -
  have "ends_with s p \<longleftrightarrow> (\<exists>r. rev s = rev p @ r)" by (simp add: ends_with_def starts_with_iff)
  also have "\<dots> \<longleftrightarrow> (\<exists>r. s = rev r @ p)" by (metis rev_append rev_rev_ident)
  also have "\<dots> \<longleftrightarrow> (\<exists>r. s = r @ p)" by (metis rev_rev_ident)
  finally show ?thesis .
qed

lemma str_contains_iff: "str_contains s p \<longleftrightarrow> (\<exists>l r. s = l @ p @ r)"
proof (induction s)
  case (Cons c s)
  show ?case
  proof
    assume "str_contains (c # s) p"
    then consider "starts_with (c # s) p" | "str_contains s p" by auto
    then show "\<exists>l r. c # s = l @ p @ r"
    proof cases
      case 1
      then show ?thesis by (metis append_Nil starts_with_iff)
    next
      case 2
      then show ?thesis using Cons by (metis append_Cons)
    qed
  next
    assume "\<exists>l r. c # s = l @ p @ r"
    then obtain l r where lr: "c # s = l @ p @ r" by blast
    show "str_contains (c # s) p"
    proof (cases l)
      case Nil
      with lr have "starts_with (c # s) p" by (metis append_Nil starts_with_iff)
      then show ?thesis by simp
    next
      case (Cons d l')
      with lr have "\<exists>l r. s = l @ p @ r" by auto
      then show ?thesis using Cons.IH by simp
    qed
  qed
qed auto

definition digit_char :: "nat \<Rightarrow> char" where
  "digit_char d = char_of (48 + d)"

fun show_nat :: "nat \<Rightarrow> string" where
  "show_nat n = (if n < 10 then [digit_char n] else show_nat (n div 10) @ [digit_char (n mod 10)])"

declare show_nat.simps [simp del]

definition div_ceil :: "nat \<Rightarrow> nat \<Rightarrow> nat" where
  "div_ceil a b = a div b + (if a mod b > 0 then 1 else 0)"

lemma div_ceil_upper:
  assumes "0 < b"
  shows "a \<le> div_ceil a b * b"
proof (cases "0 < a mod b")
  case True
  have m: "a mod b \<le> b" using assms by (simp add: less_imp_le)
  have "a = a div b * b + a mod b" by (rule div_mult_mod_eq [symmetric])
  also have "\<dots> \<le> a div b * b + b" using m by (rule add_left_mono)
  finally show ?thesis using True by (simp add: div_ceil_def)
next
  case False
  then show ?thesis using div_mult_mod_eq [of a b] by (simp add: div_ceil_def)
qed

lemma div_ceil_least:
  assumes "0 < b" and "a \<le> k * b"
  shows "div_ceil a b \<le> k"
proof -
  have le: "a div b \<le> k" using div_le_mono [OF assms(2), of b] assms(1) by simp
  have "a div b \<noteq> k" if "a mod b > 0"
  proof
    assume "a div b = k"
    then have "a = k * b + a mod b" using div_mult_mod_eq [of a b] by simp
    then show False using that assms(2) by linarith
  qed
  with le show ?thesis by (auto simp: div_ceil_def)
qed

end
