(* ===== verification/Gguf_Quant.thy ===== *)
theory Gguf_Quant
  imports Gguf_Header
begin

text \<open>
  GGML quantisation tags and tensor storage: \<open>Quant\<close> and \<open>tensor_storage_bytes\<close> of
  \<open>src/gguf/metadata.rs\<close>. Shown: the wire labels round-trip, and the storage of a tensor is
  what a row-wise layout of whole blocks needs, exactly, up to saturation.
\<close>

datatype quant =
    F32 | F16 | BF16 | Q4_0 | Q4_1 | Q5_0 | Q5_1 | Q8_0 | Q8_1 | Q2_K | Q3_K | Q4_K
  | Q5_K | Q6_K | Q8_K | IQ2_XXS | IQ2_XS | IQ3_XXS | IQ1_S | IQ4_NL | IQ3_S | IQ2_S | IQ4_XS | IQ1_M
  | TQ1_0 | TQ2_0 | I8 | I16 | I32 | I64 | F64 | Unknown nat

definition from_ggml_tag :: "nat \<Rightarrow> quant" where
  "from_ggml_tag tag =
    (if tag = 0 then F32
     else if tag = 1 then F16
     else if tag = 2 then Q4_0
     else if tag = 3 then Q4_1
     else if tag = 6 then Q5_0
     else if tag = 7 then Q5_1
     else if tag = 8 then Q8_0
     else if tag = 9 then Q8_1
     else if tag = 10 then Q2_K
     else if tag = 11 then Q3_K
     else if tag = 12 then Q4_K
     else if tag = 13 then Q5_K
     else if tag = 14 then Q6_K
     else if tag = 15 then Q8_K
     else if tag = 16 then IQ2_XXS
     else if tag = 17 then IQ2_XS
     else if tag = 18 then IQ3_XXS
     else if tag = 19 then IQ1_S
     else if tag = 20 then IQ4_NL
     else if tag = 21 then IQ3_S
     else if tag = 22 then IQ2_S
     else if tag = 23 then IQ4_XS
     else if tag = 24 then I8
     else if tag = 25 then I16
     else if tag = 26 then I32
     else if tag = 27 then I64
     else if tag = 28 then F64
     else if tag = 29 then IQ1_M
     else if tag = 30 then BF16
     else if tag = 34 then TQ1_0
     else if tag = 35 then TQ2_0
     else Unknown tag)"

text \<open>\<open>Quant::from_file_type\<close>: the \<open>LLAMA_FTYPE\<close> numbers, not the tensor tags.\<close>

definition from_file_type :: "nat \<Rightarrow> quant option" where
  "from_file_type ftype =
    (if ftype = 0 then Some F32
     else if ftype = 1 then Some F16
     else if ftype = 2 then Some Q4_0
     else if ftype = 3 then Some Q4_1
     else if ftype = 7 then Some Q8_0
     else if ftype = 8 then Some Q5_0
     else if ftype = 9 then Some Q5_1
     else if ftype = 10 \<or> ftype = 21 then Some Q2_K
     else if 11 \<le> ftype \<and> ftype \<le> 13 then Some Q3_K
     else if 14 \<le> ftype \<and> ftype \<le> 15 then Some Q4_K
     else if 16 \<le> ftype \<and> ftype \<le> 17 then Some Q5_K
     else if ftype = 18 then Some Q6_K
     else if ftype = 32 then Some BF16
     else None)"

text \<open>Elements and bytes of one block.\<close>

fun block_geometry :: "quant \<Rightarrow> nat \<times> nat" where
  "block_geometry F32 = (1, 4)"
| "block_geometry F16 = (1, 2)"
| "block_geometry BF16 = (1, 2)"
| "block_geometry Q4_0 = (32, 18)"
| "block_geometry Q4_1 = (32, 20)"
| "block_geometry Q5_0 = (32, 22)"
| "block_geometry Q5_1 = (32, 24)"
| "block_geometry Q8_0 = (32, 34)"
| "block_geometry Q8_1 = (32, 36)"
| "block_geometry Q2_K = (256, 84)"
| "block_geometry Q3_K = (256, 110)"
| "block_geometry Q4_K = (256, 144)"
| "block_geometry Q5_K = (256, 176)"
| "block_geometry Q6_K = (256, 210)"
| "block_geometry Q8_K = (256, 292)"
| "block_geometry IQ2_XXS = (256, 66)"
| "block_geometry IQ2_XS = (256, 74)"
| "block_geometry IQ3_XXS = (256, 98)"
| "block_geometry IQ1_S = (256, 50)"
| "block_geometry IQ4_NL = (32, 18)"
| "block_geometry IQ3_S = (256, 110)"
| "block_geometry IQ2_S = (256, 82)"
| "block_geometry IQ4_XS = (256, 136)"
| "block_geometry IQ1_M = (256, 56)"
| "block_geometry TQ1_0 = (256, 54)"
| "block_geometry TQ2_0 = (256, 66)"
| "block_geometry I8 = (1, 1)"
| "block_geometry I16 = (1, 2)"
| "block_geometry I32 = (1, 4)"
| "block_geometry I64 = (1, 8)"
| "block_geometry F64 = (1, 8)"
| "block_geometry (Unknown _) = (1, 2)"

definition tensor_storage_bytes :: "quant \<Rightarrow> nat list \<Rightarrow> nat" where
  "tensor_storage_bytes q dims =
    (case dims of
       [] \<Rightarrow> 0
     | row_width # rest \<Rightarrow>
         (let (elems_per_block, bytes_per_block) = block_geometry q
          in if elems_per_block = 0 then 0
             else sat_mul (sat_mul (div_ceil row_width elems_per_block) (sat_prod rest))
                    bytes_per_block))"

fun label :: "quant \<Rightarrow> string" where
  "label F32 = ''F32''"
| "label F16 = ''F16''"
| "label BF16 = ''BF16''"
| "label Q4_0 = ''Q4_0''"
| "label Q4_1 = ''Q4_1''"
| "label Q5_0 = ''Q5_0''"
| "label Q5_1 = ''Q5_1''"
| "label Q8_0 = ''Q8_0''"
| "label Q8_1 = ''Q8_1''"
| "label Q2_K = ''Q2_K''"
| "label Q3_K = ''Q3_K''"
| "label Q4_K = ''Q4_K''"
| "label Q5_K = ''Q5_K''"
| "label Q6_K = ''Q6_K''"
| "label Q8_K = ''Q8_K''"
| "label IQ2_XXS = ''IQ2_XXS''"
| "label IQ2_XS = ''IQ2_XS''"
| "label IQ3_XXS = ''IQ3_XXS''"
| "label IQ1_S = ''IQ1_S''"
| "label IQ4_NL = ''IQ4_NL''"
| "label IQ3_S = ''IQ3_S''"
| "label IQ2_S = ''IQ2_S''"
| "label IQ4_XS = ''IQ4_XS''"
| "label IQ1_M = ''IQ1_M''"
| "label TQ1_0 = ''TQ1_0''"
| "label TQ2_0 = ''TQ2_0''"
| "label I8 = ''I8''"
| "label I16 = ''I16''"
| "label I32 = ''I32''"
| "label I64 = ''I64''"
| "label F64 = ''F64''"
| "label (Unknown _) = ''Unknown''"

definition labelled :: "quant list" where
  "labelled = [F32, F16, BF16, Q4_0, Q4_1, Q5_0, Q5_1, Q8_0, Q8_1, Q2_K, Q3_K, Q4_K, Q5_K, Q6_K, Q8_K,
     IQ2_XXS, IQ2_XS, IQ2_S, IQ3_XXS, IQ3_S, IQ1_S, IQ1_M, IQ4_NL, IQ4_XS, TQ1_0, TQ2_0, I8, I16, I32, I64, F64]"

definition from_label :: "string \<Rightarrow> quant option" where
  "from_label s = List.find (\<lambda>q. label q = s) labelled"

subsection \<open>Labels\<close>

lemma labelled_complete: "q \<in> set labelled \<longleftrightarrow> (\<forall>n. q \<noteq> Unknown n)"
  by (cases q) (auto simp: labelled_def)

lemma distinct_labels: "distinct (map label labelled)"
  by code_simp

lemma label_inj_on_labelled: "inj_on label (set labelled)"
  using distinct_labels by (simp add: distinct_map)

lemma find_unique:
  assumes "x \<in> set xs" and "P x" and "\<And>y. y \<in> set xs \<Longrightarrow> P y \<Longrightarrow> y = x"
  shows "List.find P xs = Some x"
proof (cases "List.find P xs")
  case None
  then show ?thesis using assms(1,2) by (auto simp: find_None_iff)
next
  case (Some y)
  then have "y \<in> set xs" and "P y" by (auto simp: find_Some_iff)
  then have "y = x" by (rule assms(3))
  with Some show ?thesis by simp
qed

text \<open>
  The wire labels of the known quantisations are unambiguous: a label parses back to
  the quantisation it came from, and nothing else parses.
\<close>

theorem from_label_iff:
  "from_label s = Some q \<longleftrightarrow> label q = s \<and> (\<nexists>n. q = Unknown n)"
proof
  assume "from_label s = Some q"
  then have "label q = s \<and> q \<in> set labelled"
    by (auto simp: from_label_def find_Some_iff)
  then show "label q = s \<and> (\<nexists>n. q = Unknown n)" by (simp add: labelled_complete)
next
  assume q: "label q = s \<and> (\<nexists>n. q = Unknown n)"
  then have mem: "q \<in> set labelled" by (simp add: labelled_complete)
  have "List.find (\<lambda>q. label q = s) labelled = Some q"
    using q mem inj_onD [OF label_inj_on_labelled] by (intro find_unique) auto
  then show "from_label s = Some q" by (simp add: from_label_def)
qed

subsection \<open>Storage\<close>

lemma block_geometry_pos: "0 < fst (block_geometry q)" "0 < snd (block_geometry q)"
  by (cases q; simp)+

lemma sat_mul_sat_prod: "sat_mul a (sat_prod xs) = min (a * prod_list xs) u64_max"
  using min_mul_absorb [of "prod_list xs" u64_max a]
  by (simp add: sat_mul_def sat_prod_eq mult.commute)

text \<open>
  The stored size of a tensor is exactly that of its rows laid out in whole blocks:
  blocks per row, times the rows, times the bytes of a block, cut at \<open>u64::MAX\<close> and nowhere
  in between. It therefore never undercounts the flattened element count, and meets it when
  the rows are block-aligned.
\<close>

theorem tensor_storage_bytes_rows:
  "block_geometry q = (epb, bpb) \<Longrightarrow>
     tensor_storage_bytes q (row # rest) = min (div_ceil row epb * prod_list rest * bpb) u64_max
     \<and> min (div_ceil (prod_list (row # rest)) epb * bpb) u64_max \<le> tensor_storage_bytes q (row # rest)
     \<and> (epb dvd row \<longrightarrow> tensor_storage_bytes q (row # rest)
          = min (div_ceil (prod_list (row # rest)) epb * bpb) u64_max)"
proof -
  assume g: "block_geometry q = (epb, bpb)"
  then have epb: "0 < epb" using block_geometry_pos(1) [of q] by simp
  let ?b = "div_ceil row epb" and ?p = "prod_list rest"
  have eq: "tensor_storage_bytes q (row # rest) = min (?b * ?p * bpb) u64_max"
    using epb by (simp add: tensor_storage_bytes_def g sat_mul_sat_prod)
      (simp add: sat_mul_def min_mul_absorb)
  have "row * ?p \<le> ?b * epb * ?p" using div_ceil_upper [OF epb, of row] by (rule mult_le_mono1)
  then have le: "div_ceil (row * ?p) epb \<le> ?b * ?p"
    using epb by (intro div_ceil_least) (simp_all add: ac_simps)
  have "div_ceil (row * ?p) epb = ?b * ?p" if "epb dvd row"
    using that epb by (auto simp: div_ceil_def dvd_def)
  then show ?thesis using eq le by (auto intro!: min.mono min.coboundedI1 mult_le_mono1)
qed

lemma tensor_storage_bytes_rows_witness:
  "tensor_storage_bytes Q4_K (300 # [2]) = min (div_ceil 300 256 * prod_list [2] * 144) u64_max"
  using tensor_storage_bytes_rows [of Q4_K 256 144 300 "[2]"] by simp

lemma tensor_storage_bytes_le [simp]: "tensor_storage_bytes q dims \<le> u64_max"
  by (auto simp: tensor_storage_bytes_def split: list.splits prod.splits)

end
