(* ===== verification/F64.thy ===== *)
theory F64
  imports Prelude Complex_Main
begin

text \<open>
  The \<open>f64\<close> arithmetic the program uses (standard library): an \<open>f64\<close> is the rational it
  denotes, every operation is the exact one followed by \<open>fl\<close>, rounding to 53 significant bits
  with ties to even. All values of the program that reach these operations are zero or lie
  between \<open>2^-64\<close> and \<open>2^192\<close> in magnitude, so neither overflow nor subnormals arise.
  Shown: \<open>fl\<close> is monotone and exact on the integers up to \<open>2^53\<close>, hence bounds by such
  integers survive rounding.
\<close>

subsection \<open>Rounding to an integer, ties to even\<close>

definition round_even :: "rat \<Rightarrow> int" where
  "round_even q = (let f = \<lfloor>q\<rfloor>; d = q - of_int f in
     if d < 1 / 2 then f else if d > 1 / 2 then f + 1 else if even f then f else f + 1)"

lemma round_even_bounds: "\<lfloor>q\<rfloor> \<le> round_even q" "round_even q \<le> \<lfloor>q\<rfloor> + 1"
  by (simp_all add: round_even_def Let_def)

lemma round_even_of_int [simp]: "round_even (of_int i) = i"
  by (simp add: round_even_def)

lemma round_even_mono:
  assumes "p \<le> q"
  shows "round_even p \<le> round_even q"
proof (cases "\<lfloor>p\<rfloor> = \<lfloor>q\<rfloor>")
  case True
  then show ?thesis using assms by (auto simp: round_even_def Let_def)
next
  case False
  then have "\<lfloor>p\<rfloor> + 1 \<le> \<lfloor>q\<rfloor>" using floor_mono [OF assms] by simp
  then show ?thesis using round_even_bounds(2) [of p] round_even_bounds(1) [of q] by linarith
qed

lemma round_even_le_int: "q \<le> of_int i \<Longrightarrow> round_even q \<le> i"
  using round_even_mono [of q "of_int i"] by simp

lemma round_even_ge_int: "of_int i \<le> q \<Longrightarrow> i \<le> round_even q"
  using round_even_mono [of "of_int i" q] by simp

subsection \<open>Rounding to 53 bits\<close>

function bit_len :: "int \<Rightarrow> nat" where
  "bit_len i = (if i \<le> 0 then 0 else Suc (bit_len (i div 2)))"
  by pat_completeness auto
termination by (relation "measure nat") auto

declare bit_len.simps [simp del]

lemma bit_len_bounds: "0 < i \<Longrightarrow> 2 ^ (bit_len i - 1) \<le> i \<and> i < 2 ^ bit_len i \<and> 0 < bit_len i"
proof (induction i rule: bit_len.induct)
  case (1 i)
  show ?case
  proof (cases "i = 1")
    case True
    then show ?thesis by (simp add: bit_len.simps)
  next
    case False
    with 1 have IH: "2 ^ (bit_len (i div 2) - 1) \<le> i div 2" "i div 2 < 2 ^ bit_len (i div 2)"
        "0 < bit_len (i div 2)" by auto
    have eq: "bit_len i = Suc (bit_len (i div 2))" using 1(2) by (subst bit_len.simps) simp
    have "(2::int) ^ bit_len (i div 2) = 2 * 2 ^ (bit_len (i div 2) - 1)"
      using IH(3) by (cases "bit_len (i div 2)") auto
    then show ?thesis using IH by (simp add: eq) linarith
  qed
qed

text \<open>\<open>expo q\<close> is the exponent of the last of 53 significant bits of \<open>q\<close>.\<close>

definition log_floor :: "rat \<Rightarrow> int" where
  "log_floor q = (let (a, b) = quotient_of q; k = int (bit_len a) - int (bit_len b)
     in if q < 2 powi k then k - 1 else k)"

lemma two_pow_le_of_int: "2 ^ n \<le> a \<Longrightarrow> (2 :: rat) ^ n \<le> of_int a"
  by (metis of_int_le_iff of_int_numeral of_int_power)

lemma of_int_less_two_pow: "a < 2 ^ n \<Longrightarrow> of_int a < (2 :: rat) ^ n"
  by (metis of_int_less_iff of_int_numeral of_int_power)

lemma log_floor_bounds:
  assumes "0 < q"
  shows "2 powi log_floor q \<le> q" and "q < 2 powi (log_floor q + 1)"
proof -
  obtain a b where ab: "quotient_of q = (a, b)" by (cases "quotient_of q")
  have b: "0 < b" and q: "q = of_int a / of_int b"
    using quotient_of_denom_pos [OF ab] quotient_of_div [OF ab] by auto
  have a: "0 < a" using assms b by (simp add: q zero_less_divide_iff)
  define k where "k = int (bit_len a) - int (bit_len b)"
  have A: "2 ^ (bit_len a - 1) \<le> a" "a < 2 ^ bit_len a" "0 < bit_len a"
    and B: "2 ^ (bit_len b - 1) \<le> b" "b < 2 ^ bit_len b" "0 < bit_len b"
    using bit_len_bounds [OF a] bit_len_bounds [OF b] by auto
  have A': "(2::rat) ^ (bit_len a - 1) \<le> of_int a" "of_int a < (2::rat) ^ bit_len a"
    using A by (auto intro: two_pow_le_of_int of_int_less_two_pow)
  have B': "(2::rat) ^ (bit_len b - 1) \<le> of_int b" "of_int b < (2::rat) ^ bit_len b"
    using B by (auto intro: two_pow_le_of_int of_int_less_two_pow)
  have pk: "(2::rat) powi k = 2 ^ bit_len a / 2 ^ bit_len b"
    by (simp add: k_def power_int_diff)
  have half: "(2::rat) ^ bit_len a = 2 * 2 ^ (bit_len a - 1)" "(2::rat) ^ bit_len b = 2 * 2 ^ (bit_len b - 1)"
    using A(3) B(3) by (cases "bit_len a"; cases "bit_len b"; simp)+
  have lo: "2 powi (k - 1) \<le> q"
  proof -
    have "(2::rat) powi (k - 1) = 2 ^ (bit_len a - 1) / 2 ^ bit_len b"
      by (simp add: power_int_diff pk half)
    also have "\<dots> \<le> of_int a / of_int b"
      using A' B' b a by (intro frac_le) auto
    finally show ?thesis by (simp add: q)
  qed
  have hi: "q < 2 powi (k + 1)"
  proof -
    have "of_int a / of_int b < (2::rat) ^ bit_len a / 2 ^ (bit_len b - 1)"
      using A' B' b a by (intro frac_less) auto
    also have "\<dots> = 2 powi (k + 1)"
      by (simp add: power_int_add pk half)
    finally show ?thesis by (simp add: q)
  qed
  have "log_floor q = (if q < 2 powi k then k - 1 else k)"
    by (simp add: log_floor_def ab k_def)
  then show "2 powi log_floor q \<le> q" and "q < 2 powi (log_floor q + 1)"
    using lo hi by auto
qed

definition fl :: "rat \<Rightarrow> rat" where
  "fl q = (if q \<le> 0 then 0 else
     let e = log_floor q - 52 in of_int (round_even (q / 2 powi e)) * 2 powi e)"

lemma log_floor_mono:
  assumes "0 < p" and "p \<le> q"
  shows "log_floor p \<le> log_floor q"
proof (rule ccontr)
  assume "\<not> ?thesis"
  then have "(2 :: rat) powi (log_floor q + 1) \<le> 2 powi log_floor p"
    by (intro power_int_increasing) auto
  then show False
    using log_floor_bounds(1) [OF assms(1)] log_floor_bounds(2) [of q] assms by linarith
qed

lemma log_floor_le:
  assumes "0 < q" and "q < 2 powi (k + 1)"
  shows "log_floor q \<le> k"
proof (rule ccontr)
  assume "\<not> ?thesis"
  then have "(2 :: rat) powi (k + 1) \<le> 2 powi log_floor q"
    by (intro power_int_increasing) auto
  then show False using log_floor_bounds(1) [OF assms(1)] assms(2) by linarith
qed

text \<open>The scaled significand lies between \<open>2^52\<close> and \<open>2^53\<close>.\<close>

lemma significand_bounds:
  assumes "0 < q" and "e = log_floor q - 52"
  shows "2 ^ 52 \<le> q / 2 powi e" and "q / 2 powi e < 2 ^ 53"
proof -
  have e: "log_floor q = e + 52" "log_floor q + 1 = e + 53" using assms(2) by auto
  have pos: "(0 :: rat) < 2 powi e" by simp
  have "(2 :: rat) powi (e + 52) = 2 powi e * 2 ^ 52" "(2 :: rat) powi (e + 53) = 2 powi e * 2 ^ 53"
    by (simp_all add: power_int_add)
  then show "2 ^ 52 \<le> q / 2 powi e" and "q / 2 powi e < 2 ^ 53"
    using log_floor_bounds [OF assms(1)] pos unfolding e
    by (simp_all add: field_simps)
qed

lemma fl_nonneg: "0 \<le> fl q"
proof (cases "0 < q")
  case True
  have "0 \<le> round_even (q / 2 powi (log_floor q - 52))"
    using True by (intro round_even_ge_int) simp
  then show ?thesis by (simp add: fl_def Let_def)
qed (simp add: fl_def)

lemma fl_0 [simp]: "fl 0 = 0"
  by (simp add: fl_def)

lemma fl_mono:
  assumes "p \<le> q"
  shows "fl p \<le> fl q"
proof (cases "0 < p")
  case False
  then show ?thesis using fl_nonneg [of q] by (simp add: fl_def)
next
  case True
  then have q: "0 < q" using assms by simp
  define d e where "d = log_floor p - 52" and "e = log_floor q - 52"
  have fp: "fl p = of_int (round_even (p / 2 powi d)) * 2 powi d"
    and fq: "fl q = of_int (round_even (q / 2 powi e)) * 2 powi e"
    using True q by (simp_all add: fl_def d_def e_def Let_def)
  have "d \<le> e" using log_floor_mono [OF True assms] by (simp add: d_def e_def)
  show ?thesis
  proof (cases "d = e")
    case True
    have "p / 2 powi d \<le> q / 2 powi d" using assms by (simp add: divide_right_mono)
    then have "round_even (p / 2 powi d) \<le> round_even (q / 2 powi d)" by (rule round_even_mono)
    then show ?thesis unfolding fp fq True [symmetric] by (simp add: mult_right_mono)
  next
    case False
    with \<open>d \<le> e\<close> have de: "d + 1 \<le> e" by simp
    have "p / 2 powi d \<le> of_int (2 ^ 53)"
      using significand_bounds(2) [OF True d_def] by simp
    then have "round_even (p / 2 powi d) \<le> 2 ^ 53" by (rule round_even_le_int)
    then have "fl p \<le> 2 ^ 53 * 2 powi d"
      unfolding fp by (intro mult_right_mono) (auto dest: of_int_le_iff [where 'a = rat, THEN iffD2])
    also have "\<dots> = 2 ^ 52 * 2 powi (d + 1)" by (simp add: power_int_add)
    also have "\<dots> \<le> 2 ^ 52 * 2 powi e"
      using de by (intro mult_left_mono power_int_increasing) auto
    also have "\<dots> \<le> fl q"
    proof -
      have "of_int (2 ^ 52) \<le> q / 2 powi e"
        using significand_bounds(1) [OF q e_def] by simp
      then have "2 ^ 52 \<le> round_even (q / 2 powi e)" by (rule round_even_ge_int)
      then have "(2 :: rat) ^ 52 \<le> of_int (round_even (q / 2 powi e))"
        by (auto dest: of_int_le_iff [where 'a = rat, THEN iffD2])
      then show ?thesis unfolding fq by (intro mult_right_mono) auto
    qed
    finally show ?thesis .
  qed
qed

lemma fl_of_nat:
  assumes "n \<le> 2 ^ 53"
  shows "fl (of_nat n) = of_nat n"
proof (cases "n = 0")
  case False
  let ?q = "of_nat n :: rat"
  have q: "0 < ?q" using False by simp
  define e where "e = log_floor ?q - 52"
  have f: "fl ?q = of_int (round_even (?q / 2 powi e)) * 2 powi e"
    using q by (simp add: fl_def e_def Let_def)
  show ?thesis
  proof (cases "n = 2 ^ 53")
    case True
    have "log_floor ?q = 53"
    proof (rule antisym)
      show "log_floor ?q \<le> 53" by (rule log_floor_le [OF q]) (simp add: True)
      show "53 \<le> log_floor ?q"
      proof (rule ccontr)
        assume "\<not> ?thesis"
        then have "(2 :: rat) powi (log_floor ?q + 1) \<le> 2 powi 53"
          by (intro power_int_increasing) auto
        then show False using log_floor_bounds(2) [OF q] by (simp add: True)
      qed
    qed
    then have "e = 1" by (simp add: e_def)
    have "?q / 2 powi e = of_int (2 ^ 52)" by (simp add: True \<open>e = 1\<close>)
    then have "round_even (?q / 2 powi e) = 2 ^ 52" by (simp only: round_even_of_int)
    then show ?thesis unfolding f by (simp add: True \<open>e = 1\<close>)
  next
    case False
    with assms have "n < 2 ^ 53" by simp
    then have "?q < 2 ^ 53" by (metis of_nat_less_iff of_nat_numeral of_nat_power)
    then have "log_floor ?q \<le> 52" by (intro log_floor_le [OF q]) simp
    then have "e \<le> 0" by (simp add: e_def)
    then have inv: "(2 :: rat) powi e = 1 / 2 ^ nat (- e)"
      by (simp add: power_int_def inverse_eq_divide power_one_over)
    have "?q / 2 powi e = of_int (int n * 2 ^ nat (- e))" by (simp add: inv)
    then have "round_even (?q / 2 powi e) = int n * 2 ^ nat (- e)" by (simp only: round_even_of_int)
    then show ?thesis unfolding f by (simp add: inv)
  qed
qed simp

lemma fl_le_nat: "n \<le> 2 ^ 53 \<Longrightarrow> q \<le> of_nat n \<Longrightarrow> fl q \<le> of_nat n"
  using fl_mono [of q "of_nat n"] fl_of_nat [of n] by simp

lemma fl_ge_nat: "n \<le> 2 ^ 53 \<Longrightarrow> of_nat n \<le> q \<Longrightarrow> of_nat n \<le> fl q"
  using fl_mono [of "of_nat n" q] fl_of_nat [of n] by simp

subsection \<open>Operations\<close>

text \<open>\<open>n as f64\<close>, products and quotients, and \<open>x as u64\<close>, which truncates and saturates.\<close>

definition f64_of :: "nat \<Rightarrow> rat" where
  "f64_of n = fl (of_nat n)"

definition f64_mul :: "rat \<Rightarrow> rat \<Rightarrow> rat" where
  "f64_mul x y = fl (x * y)"

definition f64_div :: "rat \<Rightarrow> rat \<Rightarrow> rat" where
  "f64_div x y = fl (x / y)"

definition f64_add :: "rat \<Rightarrow> rat \<Rightarrow> rat" where
  "f64_add x y = fl (x + y)"

definition f64_to_u64 :: "rat \<Rightarrow> nat" where
  "f64_to_u64 x = min (nat \<lfloor>x\<rfloor>) u64_max"

lemma f64_of_mono: "m \<le> n \<Longrightarrow> f64_of m \<le> f64_of n"
  by (simp add: f64_of_def fl_mono)

lemma f64_of_exact: "n \<le> 2 ^ 53 \<Longrightarrow> f64_of n = of_nat n"
  by (simp add: f64_of_def fl_of_nat)

lemma f64_of_nonneg [simp]: "0 \<le> f64_of n"
  by (simp add: f64_of_def fl_nonneg)

lemma f64_mul_nonneg [simp]: "0 \<le> f64_mul x y"
  by (simp add: f64_mul_def fl_nonneg)

lemma f64_mul_mono: "x \<le> x' \<Longrightarrow> y \<le> y' \<Longrightarrow> 0 \<le> y \<Longrightarrow> 0 \<le> x' \<Longrightarrow> f64_mul x y \<le> f64_mul x' y'"
  unfolding f64_mul_def by (intro fl_mono mult_mono) auto

lemma f64_to_u64_mono: "x \<le> y \<Longrightarrow> f64_to_u64 x \<le> f64_to_u64 y"
  unfolding f64_to_u64_def by (intro min.mono nat_mono floor_mono) auto

lemma f64_to_u64_of_nat: "n \<le> u64_max \<Longrightarrow> f64_to_u64 (of_nat n) = n"
  by (simp add: f64_to_u64_def)

lemma f64_to_u64_le: "x \<le> of_nat n \<Longrightarrow> f64_to_u64 x \<le> n"
  unfolding f64_to_u64_def by (rule min.coboundedI1) (simp add: nat_le_iff floor_le_iff)

text \<open>\<open>format!("{x:.d}")\<close>: the exact value rounded to \<open>d\<close> decimals, ties to even.\<close>

definition fmt_fixed :: "nat \<Rightarrow> rat \<Rightarrow> string" where
  "fmt_fixed d x = (let n = nat (round_even (x * 10 ^ d)); frac = show_nat (n mod 10 ^ d)
     in if d = 0 then show_nat n
        else show_nat (n div 10 ^ d) @ ''.'' @ replicate (d - length frac) (CHR ''0'') @ frac)"

end
