(* ===== verification/Gguf_Codec.thy ===== *)
theory Gguf_Codec
  imports Gguf_Header
begin

text \<open>
  The header writer \<open>FixtureBuilder\<close> of \<open>src/gguf/test_fixtures.rs\<close>, and what the reader of
  theory \<open>Gguf_Header\<close> gives back: the round trip with the writer, the limits that hold
  of every parsed header, and the agreement of \<open>skip_value\<close> with \<open>read_value\<close>.
\<close>

subsection \<open>The writer\<close>

record tensor_spec =
  ts_name :: string
  ts_dims :: "nat list"
  ts_ggml_type :: nat

record fixture_builder =
  fb_metadata :: "(string \<times> gguf_value) list"
  fb_tensors :: "tensor_spec list"
  fb_version :: nat

text \<open>\<open>to_le_bytes\<close> of a \<open>k\<close>-byte integer; a signed value is written as its two's complement.\<close>

fun le_bytes :: "nat \<Rightarrow> nat \<Rightarrow> bytes" where
  "le_bytes 0 n = []"
| "le_bytes (Suc k) n = word_of_nat (n mod 256) # le_bytes k (n div 256)"

definition unsigned_of :: "nat \<Rightarrow> int \<Rightarrow> nat" where
  "unsigned_of w v = nat (v mod 2 ^ w)"

definition write_string :: "string \<Rightarrow> bytes" where
  "write_string s = le_bytes 8 (length s) @ of_str s"

fun value_type_tag :: "gguf_value \<Rightarrow> nat" where
  "value_type_tag (GvU8 _) = 0"
| "value_type_tag (GvI8 _) = 1"
| "value_type_tag (GvU16 _) = 2"
| "value_type_tag (GvI16 _) = 3"
| "value_type_tag (GvU32 _) = 4"
| "value_type_tag (GvI32 _) = 5"
| "value_type_tag (GvF32 _) = 6"
| "value_type_tag (GvBool _) = 7"
| "value_type_tag (GvString _) = 8"
| "value_type_tag (GvArray _) = 9"
| "value_type_tag (GvU64 _) = 10"
| "value_type_tag (GvI64 _) = 11"
| "value_type_tag (GvF64 _) = 12"

text \<open>An array inside an array is \<open>unreachable!\<close> in the writer: no bytes, \<open>None\<close>.\<close>

fun write_value_payload :: "gguf_value \<Rightarrow> bytes option" where
  "write_value_payload (GvU8 v) = Some (le_bytes 1 v)"
| "write_value_payload (GvI8 v) = Some (le_bytes 1 (unsigned_of 8 v))"
| "write_value_payload (GvU16 v) = Some (le_bytes 2 v)"
| "write_value_payload (GvI16 v) = Some (le_bytes 2 (unsigned_of 16 v))"
| "write_value_payload (GvU32 v) = Some (le_bytes 4 v)"
| "write_value_payload (GvI32 v) = Some (le_bytes 4 (unsigned_of 32 v))"
| "write_value_payload (GvF32 v) = Some (le_bytes 4 v)"
| "write_value_payload (GvBool b) = Some (le_bytes 1 (if b then 1 else 0))"
| "write_value_payload (GvString s) = Some (write_string s)"
| "write_value_payload (GvArray _) = None"
| "write_value_payload (GvU64 v) = Some (le_bytes 8 v)"
| "write_value_payload (GvI64 v) = Some (le_bytes 8 (unsigned_of 64 v))"
| "write_value_payload (GvF64 v) = Some (le_bytes 8 v)"

fun write_payloads :: "gguf_value list \<Rightarrow> bytes option" where
  "write_payloads [] = Some []"
| "write_payloads (v # vs) =
     (case (write_value_payload v, write_payloads vs) of
        (Some b, Some bs) \<Rightarrow> Some (b @ bs) | _ \<Rightarrow> None)"

fun write_value :: "gguf_value \<Rightarrow> bytes option" where
  "write_value (GvArray items) =
     (case write_payloads items of
        None \<Rightarrow> None
      | Some bs \<Rightarrow>
          let elem_ty = (case items of [] \<Rightarrow> 8 | v # _ \<Rightarrow> value_type_tag v)
          in Some (le_bytes 4 9 @ le_bytes 4 elem_ty @ le_bytes 8 (length items) @ bs))"
| "write_value v =
     map_option (\<lambda>bs. le_bytes 4 (value_type_tag v) @ bs) (write_value_payload v)"

fun write_kvs :: "(string \<times> gguf_value) list \<Rightarrow> bytes option" where
  "write_kvs [] = Some []"
| "write_kvs ((key, v) # kvs) =
     (case (write_value v, write_kvs kvs) of
        (Some b, Some bs) \<Rightarrow> Some (write_string key @ b @ bs) | _ \<Rightarrow> None)"

definition write_tensor :: "tensor_spec \<Rightarrow> bytes" where
  "write_tensor t = write_string (ts_name t) @ le_bytes 4 (length (ts_dims t))
     @ concat (map (le_bytes 8) (ts_dims t)) @ le_bytes 4 (ts_ggml_type t) @ le_bytes 8 0"

definition build :: "fixture_builder \<Rightarrow> bytes option" where
  "build fb = map_option
     (\<lambda>kvs. of_str ''GGUF'' @ le_bytes 4 (fb_version fb) @ le_bytes 8 (length (fb_tensors fb))
        @ le_bytes 8 (length (fb_metadata fb)) @ kvs @ concat (map write_tensor (fb_tensors fb)))
     (write_kvs (fb_metadata fb))"

definition new_builder :: fixture_builder where
  "new_builder = \<lparr>fb_metadata = [], fb_tensors = [], fb_version = 3\<rparr>"

definition with_kv :: "string \<Rightarrow> gguf_value \<Rightarrow> fixture_builder \<Rightarrow> fixture_builder" where
  "with_kv key v fb = fb\<lparr>fb_metadata := fb_metadata fb @ [(key, v)]\<rparr>"

definition with_arch :: "string \<Rightarrow> fixture_builder \<Rightarrow> fixture_builder" where
  "with_arch arch = with_kv ''general.architecture'' (GvString arch)"

definition build_minimal_gguf :: "string \<Rightarrow> bytes option" where
  "build_minimal_gguf arch = build (with_arch arch new_builder)"

subsection \<open>Encoded integers\<close>

lemma length_le_bytes [simp]: "length (le_bytes k n) = k"
  by (induction k arbitrary: n) auto

lemma unat_of_nat_mod_256 [simp]: "unat (word_of_nat (n mod 256) :: u8) = n mod 256"
  by (simp add: unat_of_nat)

lemma le_nat_le_bytes: "le_nat (le_bytes k n) = n mod 256 ^ k"
proof (induction k arbitrary: n)
  case (Suc k)
  have "le_nat (le_bytes (Suc k) n) = n mod 256 + 256 * (n div 256 mod 256 ^ k)"
    by (simp add: Suc.IH del: unat_of_nat)
  also have "\<dots> = n mod (256 * 256 ^ k)"
    by (metis add.commute mod_mult2_eq)
  finally show ?case by simp
qed auto

lemma le_nat_le_bytes_small: "n < 256 ^ k \<Longrightarrow> le_nat (le_bytes k n) = n"
  by (simp add: le_nat_le_bytes)

lemma le_nat_bound: "le_nat bs < 256 ^ length bs"
proof (induction bs)
  case (Cons b bs)
  with unat_u8_less [of b] show ?case by simp
qed simp

lemma signed_of_unsigned_of:
  assumes "0 < w" and "- (2 ^ (w - 1)) \<le> v" and "v < 2 ^ (w - 1)"
  shows "signed_of w (unsigned_of w v) = v"
proof -
  have pow: "(2 :: int) ^ w = 2 * 2 ^ (w - 1)" using assms(1) by (cases w) auto
  show ?thesis
  proof (cases "0 \<le> v")
    case True
    then have "v mod 2 ^ w = v" using assms(3) pow by (intro mod_pos_pos_trivial) auto
    with True assms(3) show ?thesis by (simp add: unsigned_of_def signed_of_def nat_less_iff)
  next
    case False
    have "v mod 2 ^ w = (v + 2 ^ w) mod 2 ^ w" by simp
    also have "\<dots> = v + 2 ^ w" using False assms(2) pow by (intro mod_pos_pos_trivial) auto
    finally have m: "v mod 2 ^ w = v + 2 ^ w" .
    have u: "unsigned_of w v = nat (v + 2 ^ w)" by (simp only: unsigned_of_def m)
    have p: "(0 :: int) \<le> 2 ^ (w - 1)" by simp
    then have nn: "0 \<le> v + 2 ^ w" using assms(2) pow by linarith
    moreover have "\<not> nat (v + 2 ^ w) < 2 ^ (w - 1)"
      using nn assms(2) pow by (simp add: nat_less_iff not_less)
    ultimately show ?thesis by (simp add: signed_of_def u)
  qed
qed

lemma unsigned_of_bound: "unsigned_of w v < 2 ^ w"
  unfolding unsigned_of_def by (simp add: nat_less_iff)

lemma signed_of_range:
  assumes "0 < w" and "n < 2 ^ w"
  shows "- (2 ^ (w - 1)) \<le> signed_of w n" and "signed_of w n < 2 ^ (w - 1)"
proof -
  have pow: "(2 :: int) ^ w = 2 * 2 ^ (w - 1)" using assms(1) by (cases w) auto
  have "int n < 2 ^ w" using assms(2) by (metis of_nat_less_iff of_nat_numeral of_nat_power)
  moreover have "n < 2 ^ (w - 1) \<longleftrightarrow> int n < 2 ^ (w - 1)"
    by (metis of_nat_less_iff of_nat_numeral of_nat_power)
  ultimately show "- (2 ^ (w - 1)) \<le> signed_of w n" and "signed_of w n < 2 ^ (w - 1)"
    using pow by (auto simp: signed_of_def)
qed

subsection \<open>Reading back what was written\<close>

text \<open>\<open>reads p bs v\<close>: wherever \<open>bs\<close> stand in a buffer, \<open>p\<close> consumes exactly them and returns \<open>v\<close>.\<close>

definition reads :: "(cursor \<Rightarrow> (gguf_error, 'a \<times> cursor) result) \<Rightarrow> bytes \<Rightarrow> 'a \<Rightarrow> bool" where
  "reads p bs v \<longleftrightarrow> (\<forall>pre rest.
     p \<lparr>buf = pre @ bs @ rest, pos = length pre\<rparr>
       = Inr (v, \<lparr>buf = pre @ bs @ rest, pos = length pre + length bs\<rparr>))"

lemma readsD:
  "reads p bs v \<Longrightarrow> p \<lparr>buf = pre @ bs @ rest, pos = length pre\<rparr>
     = Inr (v, \<lparr>buf = pre @ bs @ rest, pos = length pre + length bs\<rparr>)"
  by (simp add: reads_def)

lemma reads_then:
  assumes "reads p bs v" and "reads (f v) cs w"
  shows "reads (\<lambda>cur. try_then (p cur) (\<lambda>(v, cur). f v cur)) (bs @ cs) w"
  unfolding reads_def
proof (intro allI)
  fix pre rest
  show "try_then (p \<lparr>buf = pre @ (bs @ cs) @ rest, pos = length pre\<rparr>) (\<lambda>(v, cur). f v cur)
    = Inr (w, \<lparr>buf = pre @ (bs @ cs) @ rest, pos = length pre + length (bs @ cs)\<rparr>)"
    using readsD [OF assms(1), of pre "cs @ rest"] readsD [OF assms(2), of "pre @ bs" rest]
    by (simp add: add.assoc)
qed

lemma reads_return: "reads (\<lambda>cur. Inr (v, cur)) [] v"
  by (simp add: reads_def)

lemma reads_rd_map: "reads p bs v \<Longrightarrow> reads (\<lambda>cur. rd_map f (p cur)) bs (f v)"
  unfolding rd_map_def
  using reads_then [of p bs v "\<lambda>v cur. Inr (f v, cur)" "[]" "f v"] by (simp add: reads_return)

lemma reads_bytes: "length bs = n \<Longrightarrow> reads (read_bytes n) bs bs"
  by (simp add: reads_def read_bytes_def remaining_def)

lemma reads_le: "n < 256 ^ k \<Longrightarrow> reads (read_le k) (le_bytes k n) n"
  unfolding read_le_def
  using reads_then [OF reads_bytes [of "le_bytes k n" k],
      of "\<lambda>bs cur. Inr (le_nat bs, cur)" "[]" n]
  by (simp add: reads_def le_nat_le_bytes_small)

lemma reads_u8: "n < 256 \<Longrightarrow> reads read_u8 (le_bytes 1 n) n"
  unfolding read_u8_def by (rule reads_le) simp

lemma reads_u32: "n < 2 ^ 32 \<Longrightarrow> reads read_u32_le (le_bytes 4 n) n"
  unfolding read_u32_le_def by (rule reads_le) simp

lemma reads_u64: "n < 2 ^ 64 \<Longrightarrow> reads read_u64_le (le_bytes 8 n) n"
  unfolding read_u64_le_def by (rule reads_le) simp

text \<open>A string the format can hold: within the length limit and valid UTF-8.\<close>

definition storable_string :: "string \<Rightarrow> bool" where
  "storable_string s \<longleftrightarrow> length s \<le> MAX_STRING_LEN \<and> utf8_ok (map unat (of_str s))"

lemma reads_str_bytes:
  assumes "length s \<le> MAX_STRING_LEN"
  shows "reads read_gguf_str_bytes (write_string s) (of_str s)"
proof -
  have "length s < 2 ^ 64" using assms by (simp add: MAX_STRING_LEN_def)
  then have len: "reads read_u64_le (le_bytes 8 (length s)) (length s)" by (rule reads_u64)
  have "reads (\<lambda>cur. if length s > MAX_STRING_LEN \<or> length s > remaining cur
      then Inl (BadStringLen (length s)) else read_bytes (length s) cur) (of_str s) (of_str s)"
    using assms reads_bytes [of "of_str s" "length s"] by (auto simp: reads_def remaining_def)
  from reads_then [of read_u64_le _ "length s"
      "\<lambda>len cur. if len > MAX_STRING_LEN \<or> len > remaining cur
         then Inl (BadStringLen len) else read_bytes len cur", OF len this]
  show ?thesis by (simp add: read_gguf_str_bytes_def [abs_def] write_string_def)
qed

lemma reads_string:
  assumes "storable_string s"
  shows "reads read_gguf_string (write_string s) s"
proof -
  have b: "reads read_gguf_str_bytes (write_string s) (of_str s)"
    using assms by (intro reads_str_bytes) (simp add: storable_string_def)
  have "reads (\<lambda>cur. case from_utf8 (of_str s) of Some s \<Rightarrow> Inr (s, cur) | None \<Rightarrow> Inl BadUtf8) [] s"
    using assms by (simp add: storable_string_def from_utf8_def reads_return)
  from reads_then [of read_gguf_str_bytes _ "of_str s"
      "\<lambda>bs cur. case from_utf8 bs of Some s \<Rightarrow> Inr (s, cur) | None \<Rightarrow> Inl BadUtf8", OF b this]
  show ?thesis by (simp add: read_gguf_string_def [abs_def])
qed

text \<open>
  Values the format can hold: numbers within their width, storable strings, and arrays of
  scalars of one type (the writer has no nested arrays).
\<close>

fun scalar_storable :: "gguf_value \<Rightarrow> bool" where
  "scalar_storable (GvU8 v) \<longleftrightarrow> v < 2 ^ 8"
| "scalar_storable (GvI8 v) \<longleftrightarrow> - (2 ^ 7) \<le> v \<and> v < 2 ^ 7"
| "scalar_storable (GvU16 v) \<longleftrightarrow> v < 2 ^ 16"
| "scalar_storable (GvI16 v) \<longleftrightarrow> - (2 ^ 15) \<le> v \<and> v < 2 ^ 15"
| "scalar_storable (GvU32 v) \<longleftrightarrow> v < 2 ^ 32"
| "scalar_storable (GvI32 v) \<longleftrightarrow> - (2 ^ 31) \<le> v \<and> v < 2 ^ 31"
| "scalar_storable (GvF32 v) \<longleftrightarrow> v < 2 ^ 32"
| "scalar_storable (GvBool _) \<longleftrightarrow> True"
| "scalar_storable (GvString s) \<longleftrightarrow> storable_string s"
| "scalar_storable (GvArray _) \<longleftrightarrow> False"
| "scalar_storable (GvU64 v) \<longleftrightarrow> v < 2 ^ 64"
| "scalar_storable (GvI64 v) \<longleftrightarrow> - (2 ^ 63) \<le> v \<and> v < 2 ^ 63"
| "scalar_storable (GvF64 v) \<longleftrightarrow> v < 2 ^ 64"

definition items_storable :: "gguf_value list \<Rightarrow> bool" where
  "items_storable items \<longleftrightarrow> length items \<le> MAX_ARRAY_LEN \<and> list_all scalar_storable items
     \<and> (\<exists>ty \<in> set [0..<13]. list_all (\<lambda>v. value_type_tag v = ty) items)"

fun storable :: "gguf_value \<Rightarrow> bool" where
  "storable (GvArray items) \<longleftrightarrow> items_storable items"
| "storable v \<longleftrightarrow> scalar_storable v"

lemma signed_roundtrip:
  assumes "0 < k" and "- (2 ^ (8 * k - 1)) \<le> v" and "v < 2 ^ (8 * k - 1)"
  shows "reads (\<lambda>cur. rd_map (\<lambda>n. f (signed_of (8 * k) n)) (read_le k cur))
           (le_bytes k (unsigned_of (8 * k) v)) (f v)"
proof -
  have "(256 :: nat) ^ k = 2 ^ (8 * k)" by (simp add: power_mult)
  then have "unsigned_of (8 * k) v < 256 ^ k" using unsigned_of_bound [of "8 * k" v] by simp
  then have "reads (read_le k) (le_bytes k (unsigned_of (8 * k) v)) (unsigned_of (8 * k) v)"
    by (rule reads_le)
  moreover have "signed_of (8 * k) (unsigned_of (8 * k) v) = v"
    using assms by (intro signed_of_unsigned_of) auto
  ultimately show ?thesis
    using reads_rd_map [of "read_le k" _ "unsigned_of (8 * k) v" "\<lambda>n. f (signed_of (8 * k) n)"]
    by simp
qed

lemma reads_scalar:
  assumes "scalar_storable v"
  shows "\<exists>bs. write_value_payload v = Some bs
           \<and> reads (\<lambda>cur. read_value cur (value_type_tag v) dep) bs v"
proof (cases v)
  case (GvU8 n)
  then show ?thesis using assms reads_rd_map [OF reads_u8, of n GvU8]
    by (simp add: read_value.simps)
next
  case (GvI8 n)
  then show ?thesis using assms signed_roundtrip [of 1 n GvI8]
    by (simp add: read_value.simps read_u8_def)
next
  case (GvU16 n)
  then show ?thesis using assms reads_rd_map [OF reads_le, of n 2 GvU16]
    by (simp add: read_value.simps)
next
  case (GvI16 n)
  then show ?thesis using assms signed_roundtrip [of 2 n GvI16] by (simp add: read_value.simps)
next
  case (GvU32 n)
  then show ?thesis using assms reads_rd_map [OF reads_u32, of n GvU32]
    by (simp add: read_value.simps)
next
  case (GvI32 n)
  then show ?thesis using assms signed_roundtrip [of 4 n GvI32] by (simp add: read_value.simps)
next
  case (GvF32 n)
  then show ?thesis using assms reads_rd_map [OF reads_le, of n 4 GvF32]
    by (simp add: read_value.simps)
next
  case (GvBool b)
  then show ?thesis
    using reads_rd_map [OF reads_u8, of "if b then 1 else 0" "\<lambda>v. GvBool (v \<noteq> 0)"]
    by (cases b) (simp_all add: read_value.simps)
next
  case (GvString s)
  then show ?thesis using assms reads_rd_map [OF reads_string, of s GvString]
    by (simp add: read_value.simps)
next
  case (GvArray vs)
  then show ?thesis using assms by simp
next
  case (GvU64 n)
  then show ?thesis using assms reads_rd_map [OF reads_u64, of n GvU64]
    by (simp add: read_value.simps)
next
  case (GvI64 n)
  then show ?thesis using assms signed_roundtrip [of 8 n GvI64] by (simp add: read_value.simps)
next
  case (GvF64 n)
  then show ?thesis using assms reads_rd_map [OF reads_le, of n 8 GvF64]
    by (simp add: read_value.simps)
qed

lemma reads_cons:
  assumes "reads p bs v" and "reads q cs vs"
  shows "reads (\<lambda>cur. try_then (p cur) (\<lambda>(v, cur).
           try_then (q cur) (\<lambda>(vs, cur). Inr (v # vs, cur)))) (bs @ cs) (v # vs)"
proof (rule reads_then [OF assms(1)])
  from reads_then [of q cs vs "\<lambda>vs cur. Inr (v # vs, cur)" "[]" "v # vs", OF assms(2) reads_return]
  show "reads (\<lambda>cur. try_then (q cur) (\<lambda>(vs, cur). Inr (v # vs, cur))) cs (v # vs)" by simp
qed

lemma reads_payloads:
  assumes "list_all scalar_storable items" and "list_all (\<lambda>v. value_type_tag v = ty) items"
  shows "\<exists>bs. write_payloads items = Some bs
           \<and> reads (\<lambda>cur. read_items cur ty dep (length items)) bs items"
  using assms
proof (induction items)
  case Nil
  then show ?case by (simp add: reads_return)
next
  case (Cons v vs)
  then obtain bs cs where "write_value_payload v = Some bs" "write_payloads vs = Some cs"
    and "reads (\<lambda>cur. read_value cur ty dep) bs v"
    and "reads (\<lambda>cur. read_items cur ty dep (length vs)) cs vs"
    using reads_scalar [of v dep] by auto
  then show ?case using reads_cons by fastforce
qed

lemma reads_array_head:
  assumes "dep < MAX_ARRAY_NEST_DEPTH" and "ty < 2 ^ 32" and "len \<le> MAX_ARRAY_LEN"
  shows "reads (\<lambda>cur. read_array_head cur dep) (le_bytes 4 ty @ le_bytes 8 len) (ty, len)"
proof -
  have len: "len < 2 ^ 64" using assms(3) by (simp add: MAX_ARRAY_LEN_def)
  have "reads (\<lambda>cur. try_then (read_u64_le cur) (\<lambda>(len, cur).
      if len > MAX_ARRAY_LEN then Inl (HeaderTooLarge len MAX_ARRAY_LEN)
      else Inr ((ty, len), cur))) (le_bytes 8 len @ []) (ty, len)"
    by (rule reads_then [OF reads_u64 [OF len]]) (use assms(3) in \<open>simp add: reads_return\<close>)
  then have "reads (\<lambda>cur. try_then (read_u32_le cur) (\<lambda>(ty, cur).
      try_then (read_u64_le cur) (\<lambda>(len, cur).
      if len > MAX_ARRAY_LEN then Inl (HeaderTooLarge len MAX_ARRAY_LEN)
      else Inr ((ty, len), cur)))) (le_bytes 4 ty @ le_bytes 8 len) (ty, len)"
    by (intro reads_then [OF reads_u32 [OF assms(2)]]) simp
  then show ?thesis using assms(1) by (simp add: read_array_head_def [abs_def])
qed

subsection \<open>Skipping agrees with reading\<close>

text \<open>\<open>s\<close> moves the cursor as \<open>r\<close> does, or fails alike; only invalid UTF-8 goes unseen.\<close>

definition skips_as :: "(gguf_error, 'a \<times> cursor) result \<Rightarrow> (gguf_error, cursor) result \<Rightarrow> bool" where
  "skips_as r s \<longleftrightarrow>
     (case r of Inr (v, cur) \<Rightarrow> s = Inr cur | Inl e \<Rightarrow> e = BadUtf8 \<or> s = Inl e)"

lemma skips_as_simps [simp]:
  "skips_as (Inr (v, cur)) s \<longleftrightarrow> s = Inr cur"
  "skips_as (Inl e) s \<longleftrightarrow> e = BadUtf8 \<or> s = Inl e"
  by (simp_all add: skips_as_def)

lemma skips_as_rd_map: "skips_as r s \<Longrightarrow> skips_as (rd_map f r) s"
  by (auto simp: skips_as_def rd_map_def try_then_def split: sum.splits)

lemma skips_as_then:
  assumes "skips_as r s" and "\<And>v cur. r = Inr (v, cur) \<Longrightarrow> skips_as (f v cur) (g cur)"
  shows "skips_as (try_then r (\<lambda>(v, cur). f v cur)) (try_then s g)"
  using assms by (cases r) (auto simp: skips_as_def split: sum.splits)

lemma skips_as_read_le:
  "skips_as (read_le k cur) (try_then (read_bytes k cur) (\<lambda>(_, cur). Inr cur))"
  by (auto simp: skips_as_def read_le_def try_then_def split: sum.splits)

lemma skips_as_string:
  "skips_as (read_gguf_string cur) (try_then (read_gguf_str_bytes cur) (\<lambda>(_, cur). Inr cur))"
  by (auto simp: skips_as_def read_gguf_string_def try_then_def split: sum.splits option.splits)

lemma skips_as_items:
  assumes "\<And>cur. skips_as (read_value cur ty dep) (skip_value cur ty dep)"
  shows "skips_as (read_items cur ty dep n) (skip_items cur ty dep n)"
proof (induction n arbitrary: cur)
  case (Suc n)
  have tail: "skips_as (try_then (read_items c ty dep n) (\<lambda>(vs, cur). Inr (v # vs, cur)))
      (skip_items c ty dep n)" for v c
    using Suc.IH [of c] by (auto simp: skips_as_def try_then_def split: sum.splits)
  show ?case unfolding read_items.simps skip_items.simps
    by (rule skips_as_then [OF assms tail])
qed simp

lemma skips_as_value: "skips_as (read_value cur ty dep) (skip_value cur ty dep)"
proof (induction "5 - dep" arbitrary: dep ty cur rule: less_induct)
  case less
  have scalar: "skips_as (read_value cur ty dep) (skip_value cur ty dep)"
    if "ty \<noteq> 8" "ty \<noteq> 9"
    using that unfolding read_value.simps [of cur ty dep] skip_value.simps [of cur ty dep]
    by (auto simp: skip_width_def read_u8_def read_u32_le_def read_u64_le_def
        intro!: skips_as_rd_map skips_as_read_le)
  have array: "skips_as (read_value cur 9 dep) (skip_value cur 9 dep)"
  proof -
    have "skips_as (try_then (read_array_head cur dep) (\<lambda>(h, cur).
            rd_map GvArray (read_items cur (fst h) (dep + 1) (snd h))))
          (try_then (read_array_head cur dep) (\<lambda>(h, cur).
            skip_items cur (fst h) (dep + 1) (snd h)))"
    proof (cases "read_array_head cur dep")
      case (Inr hc)
      then have "dep < MAX_ARRAY_NEST_DEPTH" by (rule read_array_head_depth)
      then have "5 - (dep + 1) < 5 - dep" by (simp add: MAX_ARRAY_NEST_DEPTH_def)
      then have "skips_as (read_items c t (dep + 1) n) (skip_items c t (dep + 1) n)" for c t n
        by (intro skips_as_items less)
      then show ?thesis using Inr by (auto intro: skips_as_rd_map split: prod.splits)
    qed simp
    then show ?thesis
      by (simp add: read_value.simps [of cur 9] skip_value.simps [of cur 9] case_prod_unfold)
  qed
  show ?case using scalar array skips_as_rd_map [OF skips_as_string, of GvString cur]
    by (cases "ty = 8 \<or> ty = 9")
       (auto simp: read_value.simps [of cur 8] skip_value.simps [of cur 8])
qed

lemma skip_value_reads:
  assumes "read_value cur ty dep = Inr (v, cur')"
  shows "skip_value cur ty dep = Inr cur'"
  using skips_as_value [of cur ty dep] by (simp add: assms)

lemma try_then_skip_scalar:
  assumes "reads (\<lambda>cur. read_value cur ty dep) bs v" and "reads (\<lambda>cur. q cur) cs w"
  shows "reads (\<lambda>cur. try_then (skip_value cur ty dep) q) (bs @ cs) w"
  unfolding reads_def
proof (intro allI)
  fix pre rest
  show "try_then (skip_value \<lparr>buf = pre @ (bs @ cs) @ rest, pos = length pre\<rparr> ty dep) q
    = Inr (w, \<lparr>buf = pre @ (bs @ cs) @ rest, pos = length pre + length (bs @ cs)\<rparr>)"
    using skip_value_reads [OF readsD [OF assms(1), of pre "cs @ rest"]]
      readsD [OF assms(2), of "pre @ bs" rest]
    by (simp add: add.assoc)
qed

subsection \<open>The round trip\<close>

text \<open>
  What is kept of a written entry: nothing under a skipped key, only the reasoning markers of
  the token array, everything else as it was. Of two entries with one key the last counts.
\<close>

definition is_marker :: "gguf_value \<Rightarrow> bool" where
  "is_marker v \<longleftrightarrow> (\<exists>m \<in> set REASONING_MARKERS. v = GvString m)"

definition kept_value :: "string \<Rightarrow> gguf_value \<Rightarrow> gguf_value" where
  "kept_value key v =
     (case v of
        GvArray items \<Rightarrow> if key = TOKENS_KEY then GvArray (filter is_marker items) else v
      | _ \<Rightarrow> v)"

fun kept_entries :: "metadata \<Rightarrow> metadata \<Rightarrow> metadata" where
  "kept_entries md [] = md"
| "kept_entries md ((key, v) # kvs) =
     kept_entries (if key \<in> set SKIPPED_KEYS then md else AList.update key (kept_value key v) md) kvs"

lemma of_str_inject: "of_str s = of_str t \<longleftrightarrow> s = t"
  by (metis to_str_of_str)

lemma reads_marker_items:
  assumes "list_all scalar_storable items" and "list_all (\<lambda>v. value_type_tag v = ty) items"
    and "write_payloads items = Some bs"
  shows "reads (\<lambda>cur. read_marker_items cur ty (length items)) bs (filter is_marker items)"
  using assms
proof (induction items arbitrary: bs)
  case Nil
  then show ?case by (simp add: reads_return)
next
  case (Cons v vs)
  then obtain b cs where b: "write_value_payload v = Some b"
    and cs: "write_payloads vs = Some cs" and bs: "bs = b @ cs"
    and rb: "reads (\<lambda>cur. read_value cur ty 1) b v"
    using reads_scalar [of v 1] by (auto split: option.splits)
  have tail: "reads (\<lambda>cur. read_marker_items cur ty (length vs)) cs (filter is_marker vs)"
    using Cons cs by simp
  show ?case
  proof (cases "ty = 8")
    case False
    have "\<not> is_marker v" using False Cons.prems(2) by (auto simp: is_marker_def)
    then show ?thesis using False try_then_skip_scalar [OF rb tail] by (simp add: bs)
  next
    case True
    then obtain s where s: "v = GvString s" using Cons.prems(2) by (cases v) auto
    have "length s \<le> MAX_STRING_LEN" using Cons.prems(1) by (simp add: s storable_string_def)
    then have rs: "reads read_gguf_str_bytes b (of_str s)"
      using reads_str_bytes [of s] b by (simp add: s)
    have keep: "reads (\<lambda>cur. Inr (case List.find (\<lambda>m. of_str m = of_str s) REASONING_MARKERS of
          Some m \<Rightarrow> (GvString m # filter is_marker vs, cur)
        | None \<Rightarrow> (filter is_marker vs, cur))) [] (filter is_marker (v # vs))"
      by (auto simp: reads_def REASONING_MARKERS_def is_marker_def s of_str_inject)
    have "reads (\<lambda>cur. try_then (read_marker_items cur ty (length vs)) (\<lambda>(kept, cur).
        Inr (case List.find (\<lambda>m. of_str m = of_str s) REASONING_MARKERS of
               Some m \<Rightarrow> (GvString m # kept, cur) | None \<Rightarrow> (kept, cur))))
        (cs @ []) (filter is_marker (v # vs))"
      using keep by (intro reads_then [where f = "\<lambda>kept cur.
        Inr (case List.find (\<lambda>m. of_str m = of_str s) REASONING_MARKERS of
               Some m \<Rightarrow> (GvString m # kept, cur) | None \<Rightarrow> (kept, cur))", OF tail]) simp
    from reads_then [of read_gguf_str_bytes b "of_str s" "\<lambda>bs cur.
        try_then (read_marker_items cur ty (length vs)) (\<lambda>(kept, cur).
        Inr (case List.find (\<lambda>m. of_str m = bs) REASONING_MARKERS of
               Some m \<Rightarrow> (GvString m # kept, cur) | None \<Rightarrow> (kept, cur)))", OF rs this]
    show ?thesis by (simp add: True bs)
  qed
qed

lemma reads_value:
  assumes "storable v"
  shows "\<exists>bs. write_value v = Some (le_bytes 4 (value_type_tag v) @ bs)
           \<and> reads (\<lambda>cur. read_value cur (value_type_tag v) 0) bs v
           \<and> (value_type_tag v = 9 \<longrightarrow> reads read_marker_tokens bs (kept_value TOKENS_KEY v))"
proof (cases "\<exists>items. v = GvArray items")
  case False
  then have "scalar_storable v" and "value_type_tag v \<noteq> 9" and
    "write_value v = map_option (\<lambda>bs. le_bytes 4 (value_type_tag v) @ bs) (write_value_payload v)"
    using assms by (cases v; simp)+
  then show ?thesis using reads_scalar [of v 0] by auto
next
  case True
  then obtain items where v: "v = GvArray items" by blast
  define ty where "ty = (case items of [] \<Rightarrow> 8 | v # _ \<Rightarrow> value_type_tag v)"
  from assms v have len: "length items \<le> MAX_ARRAY_LEN" and sc: "list_all scalar_storable items"
    by (simp_all add: items_storable_def)
  have tys: "list_all (\<lambda>v. value_type_tag v = ty) items" and ty: "ty < 2 ^ 32"
    using assms v by (auto simp: items_storable_def ty_def list_all_iff split: list.splits)
  from reads_payloads [OF sc tys] obtain bs where w: "write_payloads items = Some bs"
    and r: "reads (\<lambda>cur. read_items cur ty 1 (length items)) bs items" by blast
  have m: "reads (\<lambda>cur. read_marker_items cur ty (length items)) bs (filter is_marker items)"
    using reads_marker_items [OF sc tys w] .
  let ?h = "le_bytes 4 ty @ le_bytes 8 (length items)"
  have h: "reads (\<lambda>cur. read_array_head cur 0) ?h (ty, length items)"
    using ty len by (intro reads_array_head) (simp_all add: MAX_ARRAY_NEST_DEPTH_def)
  have 1: "reads (\<lambda>cur. read_value cur 9 0) (?h @ bs) v"
    using reads_then [where f = "\<lambda>h cur. rd_map GvArray (read_items cur (fst h) 1 (snd h))", OF h]
      reads_rd_map [OF r, of GvArray]
    by (simp add: read_value.simps v case_prod_unfold)
  have 2: "reads read_marker_tokens (?h @ bs) (GvArray (filter is_marker items))"
    using reads_then [where f = "\<lambda>h cur. rd_map GvArray (read_marker_items cur (fst h) (snd h))", OF h]
      reads_rd_map [OF m, of GvArray]
    by (simp add: read_marker_tokens_def [abs_def] case_prod_unfold)
  show ?thesis using 1 2 w by (simp add: v ty_def kept_value_def)
qed

lemma reads_skip_then_return:
  assumes "reads (\<lambda>cur. read_value cur ty 0) bs v"
  shows "reads (\<lambda>cur. try_then (skip_value cur ty 0) (\<lambda>cur. Inr (md, cur))) bs md"
  using try_then_skip_scalar [OF assms, of "\<lambda>cur. Inr (md, cur)" "[]" md] by (simp add: reads_return)

lemma value_type_tag_bound: "value_type_tag v < 2 ^ 32"
  by (cases v) auto

lemma reads_kv:
  assumes "storable_string key" and "storable v"
  shows "\<exists>bs. write_value v = Some bs \<and> reads (\<lambda>cur. read_kv cur md) (write_string key @ bs)
    (if key \<in> set SKIPPED_KEYS then md else AList.update key (kept_value key v) md)"
proof -
  let ?ty = "value_type_tag v"
  let ?out = "if key \<in> set SKIPPED_KEYS then md else AList.update key (kept_value key v) md"
  from reads_value [OF assms(2)] obtain bs where
    w: "write_value v = Some (le_bytes 4 ?ty @ bs)"
    and r: "reads (\<lambda>cur. read_value cur ?ty 0) bs v"
    and t: "?ty = 9 \<Longrightarrow> reads read_marker_tokens bs (kept_value TOKENS_KEY v)" by blast
  have same: "\<not> (key = TOKENS_KEY \<and> ?ty = 9) \<Longrightarrow> kept_value key v = v"
    by (cases v) (auto simp: kept_value_def)
  have keep: "reads (\<lambda>cur. if key = TOKENS_KEY \<and> ?ty = 9 then read_marker_tokens cur
      else read_value cur ?ty 0) bs (kept_value key v)"
  proof (cases "key = TOKENS_KEY \<and> ?ty = 9")
    case False
    show ?thesis unfolding if_not_P [OF False] same [OF False] by (rule r)
  qed (use t in simp)
  have "reads (\<lambda>cur. if key \<in> set SKIPPED_KEYS
      then try_then (skip_value cur ?ty 0) (\<lambda>cur. Inr (md, cur))
      else rd_map (\<lambda>v. AList.update key v md)
              (if key = TOKENS_KEY \<and> ?ty = 9 then read_marker_tokens cur
               else read_value cur ?ty 0)) bs ?out"
    using reads_skip_then_return [OF r, of md] reads_rd_map [OF keep, of "\<lambda>v. AList.update key v md"]
    by (cases "key \<in> set SKIPPED_KEYS") simp_all
  from reads_then [where f = "\<lambda>ty cur. if key \<in> set SKIPPED_KEYS
      then try_then (skip_value cur ty 0) (\<lambda>cur. Inr (md, cur))
      else rd_map (\<lambda>v. AList.update key v md)
              (if key = TOKENS_KEY \<and> ty = 9 then read_marker_tokens cur
               else read_value cur ty 0)", OF reads_u32 [OF value_type_tag_bound [of v]] this]
  have "reads (\<lambda>cur. read_kv cur md) (write_string key @ (le_bytes 4 ?ty @ bs)) ?out"
    unfolding read_kv_def by (rule reads_then [OF reads_string [OF assms(1)]])
  then show ?thesis using w by simp
qed

lemma reads_kvs:
  assumes "\<forall>(key, v) \<in> set kvs. storable_string key \<and> storable v"
  shows "\<exists>bs. write_kvs kvs = Some bs
    \<and> reads (\<lambda>cur. read_kvs (length kvs) cur md) bs (kept_entries md kvs)"
  using assms
proof (induction kvs arbitrary: md)
  case Nil
  then show ?case by (simp add: reads_return)
next
  case (Cons kv kvs)
  obtain key v where kv: "kv = (key, v)" by (cases kv)
  let ?md = "if key \<in> set SKIPPED_KEYS then md else AList.update key (kept_value key v) md"
  from Cons.prems kv reads_kv [of key v md] obtain b where w: "write_value v = Some b"
    and r: "reads (\<lambda>cur. read_kv cur md) (write_string key @ b) ?md" by auto
  from Cons.prems Cons.IH [of ?md] obtain bs where ws: "write_kvs kvs = Some bs"
    and rs: "reads (\<lambda>cur. read_kvs (length kvs) cur ?md) bs (kept_entries ?md kvs)" by auto
  from reads_then [where f = "\<lambda>md cur. read_kvs (length kvs) cur md", OF r rs]
  show ?case by (simp add: kv w ws)
qed

text \<open>A tensor entry the format can hold, and what the reader makes of it.\<close>

definition storable_tensor :: "tensor_spec \<Rightarrow> bool" where
  "storable_tensor t \<longleftrightarrow> storable_string (ts_name t) \<and> length (ts_dims t) \<le> MAX_TENSOR_DIMS
     \<and> list_all (\<lambda>d. d < 2 ^ 64) (ts_dims t) \<and> ts_ggml_type t < 2 ^ 32"

definition info_of :: "tensor_spec \<Rightarrow> tensor_info" where
  "info_of t = \<lparr>ti_name = ts_name t, ti_dims = ts_dims t, ti_ggml_type = ts_ggml_type t\<rparr>"

lemma reads_dims:
  "list_all (\<lambda>d. d < 2 ^ 64) ds \<Longrightarrow> reads (read_dims (length ds)) (concat (map (le_bytes 8) ds)) ds"
proof (induction ds)
  case Nil
  then show ?case by (simp add: reads_return)
next
  case (Cons d ds)
  then show ?case using reads_cons [OF reads_u64 [of d] Cons.IH]
    by (simp add: fun_eq_iff read_dims.simps(2) [abs_def] cong del: try_then_cong)
qed

lemma reads_tensor:
  assumes "storable_tensor t"
  shows "reads read_tensor (write_tensor t) (info_of t)"
proof -
  let ?n = "length (ts_dims t)" and ?ty = "ts_ggml_type t"
  have st: "storable_string (ts_name t)" "?n \<le> MAX_TENSOR_DIMS"
      "list_all (\<lambda>d. d < 2 ^ 64) (ts_dims t)" "?ty < 2 ^ 32"
    using assms by (auto simp: storable_tensor_def)
  let ?I = "\<lambda>name dims ty. \<lparr>ti_name = name, ti_dims = dims, ti_ggml_type = ty\<rparr>"
  have 1: "reads (\<lambda>cur. try_then (read_u64_le cur) (\<lambda>(offset, cur).
      Inr (?I (ts_name t) (ts_dims t) ?ty, cur))) (le_bytes 8 0) (info_of t)"
    using reads_then [where f = "\<lambda>offset cur. Inr (?I (ts_name t) (ts_dims t) ?ty, cur)",
        OF reads_u64 [of 0] reads_return] by (simp add: info_of_def)
  have 2: "reads (\<lambda>cur. try_then (read_u32_le cur) (\<lambda>(ggml_type, cur).
      try_then (read_u64_le cur) (\<lambda>(offset, cur). Inr (?I (ts_name t) (ts_dims t) ggml_type, cur))))
      (le_bytes 4 ?ty @ le_bytes 8 0) (info_of t)"
    by (rule reads_then [OF reads_u32 [OF st(4)]]) (rule 1)
  have 3: "reads (\<lambda>cur. try_then (read_dims ?n cur) (\<lambda>(dims, cur).
      try_then (read_u32_le cur) (\<lambda>(ggml_type, cur).
      try_then (read_u64_le cur) (\<lambda>(offset, cur). Inr (?I (ts_name t) dims ggml_type, cur)))))
      (concat (map (le_bytes 8) (ts_dims t)) @ le_bytes 4 ?ty @ le_bytes 8 0) (info_of t)"
    by (rule reads_then [OF reads_dims [OF st(3)]]) (rule 2)
  have n: "?n < 2 ^ 32" using st(2) by (simp add: MAX_TENSOR_DIMS_def)
  have 4: "reads (\<lambda>cur. try_then (read_u32_le cur) (\<lambda>(n_dims, cur).
      if n_dims > MAX_TENSOR_DIMS then Inl (HeaderTooLarge n_dims MAX_TENSOR_DIMS)
      else try_then (read_dims n_dims cur) (\<lambda>(dims, cur).
      try_then (read_u32_le cur) (\<lambda>(ggml_type, cur).
      try_then (read_u64_le cur) (\<lambda>(offset, cur). Inr (?I (ts_name t) dims ggml_type, cur))))))
      (le_bytes 4 ?n @ concat (map (le_bytes 8) (ts_dims t)) @ le_bytes 4 ?ty @ le_bytes 8 0)
      (info_of t)"
    by (rule reads_then [OF reads_u32 [OF n]]) (use st(2) 3 in \<open>simp add: not_less [symmetric]\<close>)
  show ?thesis unfolding read_tensor_def [abs_def] write_tensor_def
    by (rule reads_then [OF reads_string [OF st(1)]]) (rule 4)
qed

lemma reads_tensors:
  "list_all storable_tensor ts \<Longrightarrow>
     reads (read_tensors (length ts)) (concat (map write_tensor ts)) (map info_of ts)"
proof (induction ts)
  case Nil
  then show ?case by (simp add: reads_return)
next
  case (Cons t ts)
  then have "reads (\<lambda>cur. try_then (read_tensor cur) (\<lambda>(t, cur).
      try_then (read_tensors (length ts) cur) (\<lambda>(ts, cur). Inr (t # ts, cur))))
      (write_tensor t @ concat (map write_tensor ts)) (info_of t # map info_of ts)"
    by (intro reads_cons reads_tensor) simp_all
  then show ?case by (simp add: read_tensors.simps(2) [abs_def])
qed

text \<open>A builder whose file is within every limit of the reader.\<close>

definition storable_builder :: "fixture_builder \<Rightarrow> bool" where
  "storable_builder fb \<longleftrightarrow> fb_version fb \<in> {2, 3}
     \<and> length (fb_tensors fb) \<le> MAX_TENSOR_COUNT \<and> length (fb_metadata fb) \<le> MAX_KV_COUNT
     \<and> (\<forall>(key, v) \<in> set (fb_metadata fb). storable_string key \<and> storable v)
     \<and> list_all storable_tensor (fb_tensors fb)"

lemma reads_preamble:
  assumes "storable_builder fb"
  shows "reads read_preamble
    (GGUF_MAGIC @ le_bytes 4 (fb_version fb) @ le_bytes 8 (length (fb_tensors fb))
       @ le_bytes 8 (length (fb_metadata fb)))
    (fb_version fb, length (fb_tensors fb), length (fb_metadata fb))"
proof -
  let ?v = "fb_version fb" and ?t = "length (fb_tensors fb)" and ?k = "length (fb_metadata fb)"
  have v: "?v = 2 \<or> ?v = 3" and t: "?t \<le> MAX_TENSOR_COUNT" and k: "?k \<le> MAX_KV_COUNT"
    using assms by (auto simp: storable_builder_def)
  have b: "?v < 2 ^ 32" "?t < 2 ^ 64" "?k < 2 ^ 64"
    using v t k by (auto simp: MAX_TENSOR_COUNT_def MAX_KV_COUNT_def)
  have kv: "reads (\<lambda>cur. try_then (read_u64_le cur) (\<lambda>(k, cur).
      if k > MAX_KV_COUNT then Inl (HeaderTooLarge k MAX_KV_COUNT)
      else Inr ((?v, ?t, k), cur))) (le_bytes 8 ?k) (?v, ?t, ?k)"
    using reads_then [where f = "\<lambda>k cur. if k > MAX_KV_COUNT
        then Inl (HeaderTooLarge k MAX_KV_COUNT) else Inr ((?v, ?t, k), cur)",
        OF reads_u64 [OF b(3)], of "[]"] k
    by (simp add: reads_return)
  have tc: "reads (\<lambda>cur. try_then (read_u64_le cur) (\<lambda>(t, cur).
      if t > MAX_TENSOR_COUNT then Inl (HeaderTooLarge t MAX_TENSOR_COUNT)
      else try_then (read_u64_le cur) (\<lambda>(k, cur).
        if k > MAX_KV_COUNT then Inl (HeaderTooLarge k MAX_KV_COUNT)
        else Inr ((?v, t, k), cur)))) (le_bytes 8 ?t @ le_bytes 8 ?k) (?v, ?t, ?k)"
    using kv t by (intro reads_then [OF reads_u64 [OF b(2)]]) simp
  have ver: "reads (\<lambda>cur. try_then (read_u32_le cur) (\<lambda>(v, cur).
      if v \<noteq> 2 \<and> v \<noteq> 3 then Inl (UnsupportedVersion v)
      else try_then (read_u64_le cur) (\<lambda>(t, cur).
        if t > MAX_TENSOR_COUNT then Inl (HeaderTooLarge t MAX_TENSOR_COUNT)
        else try_then (read_u64_le cur) (\<lambda>(k, cur).
          if k > MAX_KV_COUNT then Inl (HeaderTooLarge k MAX_KV_COUNT)
          else Inr ((v, t, k), cur)))))
      (le_bytes 4 ?v @ le_bytes 8 ?t @ le_bytes 8 ?k) (?v, ?t, ?k)"
    using tc v by (intro reads_then [OF reads_u32 [OF b(1)]]) auto
  have "length GGUF_MAGIC = 4" by (simp add: GGUF_MAGIC_def)
  then show ?thesis unfolding read_preamble_def [abs_def]
    using ver by (intro reads_then [OF reads_bytes]) simp_all
qed

text \<open>The header a builder stands for.\<close>

definition header_of :: "fixture_builder \<Rightarrow> gguf_header" where
  "header_of fb = \<lparr>gh_version = fb_version fb, gh_tensor_count = length (fb_tensors fb),
     gh_metadata = kept_entries [] (fb_metadata fb), gh_tensors = map info_of (fb_tensors fb)\<rparr>"

lemma reads_built:
  assumes "storable_builder fb"
  shows "\<exists>bs. build fb = Some bs \<and> reads read_structure bs (header_of fb)"
proof -
  let ?h = "GGUF_MAGIC @ le_bytes 4 (fb_version fb) @ le_bytes 8 (length (fb_tensors fb))
     @ le_bytes 8 (length (fb_metadata fb))"
  from assms obtain kvs where w: "write_kvs (fb_metadata fb) = Some kvs"
    and k: "reads (\<lambda>cur. read_kvs (length (fb_metadata fb)) cur []) kvs (kept_entries [] (fb_metadata fb))"
    using reads_kvs [of "fb_metadata fb" "[]"] by (auto simp: storable_builder_def)
  let ?t = "concat (map write_tensor (fb_tensors fb))"
  have t: "reads (read_tensors (length (fb_tensors fb))) ?t (map info_of (fb_tensors fb))"
    using assms by (intro reads_tensors) (simp add: storable_builder_def)
  have 1: "reads (\<lambda>cur. try_then (read_tensors (length (fb_tensors fb)) cur) (\<lambda>(tensors, cur).
      Inr ((header_of fb)\<lparr>gh_tensors := tensors\<rparr>, cur))) (?t @ []) (header_of fb)"
    by (rule reads_then [OF t]) (simp add: reads_return header_of_def)
  have 2: "reads (\<lambda>cur. try_then (read_kvs (length (fb_metadata fb)) cur []) (\<lambda>(md, cur).
      try_then (read_tensors (length (fb_tensors fb)) cur) (\<lambda>(tensors, cur).
      Inr ((header_of fb)\<lparr>gh_metadata := md, gh_tensors := tensors\<rparr>, cur)))) (kvs @ ?t) (header_of fb)"
    by (rule reads_then [OF k]) (use 1 in \<open>simp add: header_of_def\<close>)
  have 3: "reads read_structure (?h @ (kvs @ ?t)) (header_of fb)"
    unfolding read_structure_def [abs_def]
    by (rule reads_then [OF reads_preamble [OF assms]]) (use 2 in \<open>simp add: header_of_def\<close>)
  moreover have "build fb = Some (?h @ (kvs @ ?t))"
    by (simp add: build_def w GGUF_MAGIC_def)
  ultimately show ?thesis by blast
qed

lemma parse_header_reads:
  "reads read_structure bs h \<Longrightarrow> parse_header (bs @ data) = Inr \<lparr>rh_raw = bs, rh_header = h\<rparr>"
  using readsD [of read_structure bs h "[]" data] by (simp add: parse_header_structure cursor_new_def)

text \<open>
  C11. Round trip: a file written by the fixture builder, within the limits of the format and
  followed by any tensor data, parses; the result has the builder's version, its tensors with
  their names, dimensions and types, and exactly its metadata, less what the reader drops on
  purpose (the skipped tokenizer keys and all tokens but the reasoning markers). The raw
  prefix is the header that was written, to the byte.
\<close>

theorem parse_header_build:
  assumes "storable_builder fb"
  shows "\<exists>bs. build fb = Some bs \<and> (\<forall>data. parse_header (bs @ data) = Inr
    \<lparr>rh_raw = bs,
     rh_header = \<lparr>gh_version = fb_version fb, gh_tensor_count = length (fb_tensors fb),
       gh_metadata = kept_entries [] (fb_metadata fb),
       gh_tensors = map info_of (fb_tensors fb)\<rparr>\<rparr>)"
  using reads_built [OF assms] parse_header_reads by (fastforce simp: header_of_def)

text \<open>A builder with every kind of entry: kept, filtered, skipped, overwritten, and a tensor.\<close>

definition sample_builder :: fixture_builder where
  "sample_builder =
     (with_kv ''general.parameter_count'' (GvU64 (7 * 10 ^ 9))
     (with_kv ''tokenizer.ggml.merges'' (GvArray [GvString ''a b''])
     (with_kv ''tokenizer.ggml.tokens'' (GvArray [GvString ''<think>'', GvString ''a''])
     (with_kv ''answer'' (GvI16 (- 2)) (with_arch ''llama'' new_builder)))))
       \<lparr>fb_tensors := [\<lparr>ts_name = ''output.weight'', ts_dims = [4096, 32000], ts_ggml_type = 14\<rparr>]\<rparr>"

lemma storable_sample: "storable_builder sample_builder"
  by (simp add: storable_builder_def sample_builder_def with_kv_def with_arch_def new_builder_def
      storable_tensor_def storable_string_def items_storable_def MAX_STRING_LEN_def
      MAX_TENSOR_COUNT_def MAX_KV_COUNT_def MAX_ARRAY_LEN_def MAX_TENSOR_DIMS_def of_str_def
      unat_of_nat upt_rec)

lemma parse_header_build_witness:
  "\<exists>bs. build sample_builder = Some bs \<and> (\<forall>data. parse_header (bs @ data) = Inr
    \<lparr>rh_raw = bs,
     rh_header = \<lparr>gh_version = 3, gh_tensor_count = 1,
       gh_metadata = [(''general.architecture'', GvString ''llama''), (''answer'', GvI16 (- 2)),
         (''tokenizer.ggml.tokens'', GvArray [GvString ''<think>'']),
         (''general.parameter_count'', GvU64 7000000000)],
       gh_tensors = [\<lparr>ti_name = ''output.weight'', ti_dims = [4096, 32000], ti_ggml_type = 14\<rparr>]\<rparr>\<rparr>)"
proof -
  note builder = sample_builder_def with_kv_def with_arch_def new_builder_def
  have "kept_entries [] (fb_metadata sample_builder) =
      [(''general.architecture'', GvString ''llama''), (''answer'', GvI16 (- 2)),
       (''tokenizer.ggml.tokens'', GvArray [GvString ''<think>'']),
       (''general.parameter_count'', GvU64 7000000000)]"
    by (simp add: builder kept_value_def is_marker_def SKIPPED_KEYS_def TOKENS_KEY_def
        REASONING_MARKERS_def)
  with parse_header_build [OF storable_sample] show ?thesis
    by (simp add: builder info_of_def)
qed

text \<open>
  C13. Skipping a value and reading it agree: the cursor ends at the same place, and an error
  of the reader is the error of the skip, invalid UTF-8 apart, which a skip never looks at.
\<close>

theorem skip_value_agrees_with_read:
  "case read_value cur ty dep of
     Inr (v, cur') \<Rightarrow> skip_value cur ty dep = Inr cur'
   | Inl e \<Rightarrow> e = BadUtf8 \<or> skip_value cur ty dep = Inl e"
  using skips_as_value [of cur ty dep] by (simp add: skips_as_def)

subsection \<open>Limits of a parsed header\<close>

fun value_within :: "nat \<Rightarrow> gguf_value \<Rightarrow> bool" where
  "value_within dep (GvArray items) \<longleftrightarrow> dep < MAX_ARRAY_NEST_DEPTH
     \<and> length items \<le> MAX_ARRAY_LEN \<and> (\<forall>v \<in> set items. value_within (dep + 1) v)"
| "value_within dep v \<longleftrightarrow> scalar_storable v"

definition entry_within :: "string \<times> gguf_value \<Rightarrow> bool" where
  "entry_within kv \<longleftrightarrow> (case kv of (key, v) \<Rightarrow> storable_string key \<and> key \<notin> set SKIPPED_KEYS
     \<and> value_within 0 v
     \<and> (key = TOKENS_KEY \<longrightarrow> (case v of GvArray items \<Rightarrow> list_all is_marker items | _ \<Rightarrow> True)))"

definition tensor_within :: "tensor_info \<Rightarrow> bool" where
  "tensor_within t \<longleftrightarrow> storable_string (ti_name t) \<and> length (ti_dims t) \<le> MAX_TENSOR_DIMS
     \<and> list_all (\<lambda>d. d < 2 ^ 64) (ti_dims t) \<and> ti_ggml_type t < 2 ^ 32"

definition header_within :: "gguf_header \<Rightarrow> bool" where
  "header_within h \<longleftrightarrow> gh_version h \<in> {2, 3}
     \<and> gh_tensor_count h \<le> MAX_TENSOR_COUNT \<and> length (gh_tensors h) = gh_tensor_count h
     \<and> length (gh_metadata h) \<le> MAX_KV_COUNT \<and> distinct (map fst (gh_metadata h))
     \<and> list_all entry_within (gh_metadata h) \<and> list_all tensor_within (gh_tensors h)"

text \<open>\<open>gives p P\<close>: whatever \<open>p\<close> returns satisfies \<open>P\<close>.\<close>

definition gives :: "(cursor \<Rightarrow> (gguf_error, 'a \<times> cursor) result) \<Rightarrow> ('a \<Rightarrow> bool) \<Rightarrow> bool" where
  "gives p P \<longleftrightarrow> (\<forall>cur v cur'. p cur = Inr (v, cur') \<longrightarrow> P v)"

lemma givesD: "gives p P \<Longrightarrow> p cur = Inr (v, cur') \<Longrightarrow> P v"
  by (auto simp: gives_def)

lemma gives_then:
  assumes "gives p P" and "\<And>v. P v \<Longrightarrow> gives (f v) Q"
  shows "gives (\<lambda>cur. try_then (p cur) (\<lambda>(v, cur). f v cur)) Q"
  using assms by (fastforce simp: gives_def try_then_eq_Inr)

lemma gives_any: "gives p (\<lambda>_. True)"
  by (simp add: gives_def)

lemma gives_return: "P v \<Longrightarrow> gives (\<lambda>cur. Inr (v, cur)) P"
  by (simp add: gives_def)

lemma gives_fail: "gives (\<lambda>cur. Inl e) P"
  by (simp add: gives_def)

lemma gives_if:
  "(b \<Longrightarrow> gives p P) \<Longrightarrow> (\<not> b \<Longrightarrow> gives q P) \<Longrightarrow> gives (\<lambda>cur. if b then p cur else q cur) P"
  by (cases b) simp_all

lemma gives_rd_map: "gives p (\<lambda>v. P (f v)) \<Longrightarrow> gives (\<lambda>cur. rd_map f (p cur)) P"
  by (auto simp: gives_def rd_map_def try_then_eq_Inr)

lemma gives_weaken: "gives p P \<Longrightarrow> (\<And>v. P v \<Longrightarrow> Q v) \<Longrightarrow> gives p Q"
  by (auto simp: gives_def)

lemma gives_bytes: "gives (read_bytes n) (\<lambda>bs. length bs = n)"
  by (auto simp: gives_def read_bytes_def remaining_def split: if_splits)

lemma gives_le: "gives (read_le k) (\<lambda>n. n < 256 ^ k)"
  unfolding read_le_def
  by (rule gives_then [OF gives_bytes]) (use le_nat_bound in \<open>auto intro!: gives_return\<close>)

lemma gives_uints:
  "gives read_u8 (\<lambda>n. n < 2 ^ 8)" "gives read_u32_le (\<lambda>n. n < 2 ^ 32)"
  "gives read_u64_le (\<lambda>n. n < 2 ^ 64)"
  using gives_le [of 1] gives_le [of 4] gives_le [of 8]
  by (simp_all add: read_u8_def read_u32_le_def read_u64_le_def)

lemma gives_str_bytes: "gives read_gguf_str_bytes (\<lambda>bs. length bs \<le> MAX_STRING_LEN)"
  unfolding read_gguf_str_bytes_def
  by (rule gives_then [OF gives_any])
     (auto simp: gives_def read_bytes_def remaining_def split: if_splits)

lemma of_str_to_str [simp]: "of_str (to_str bs) = bs"
  by (induction bs) (simp_all add: of_str_def to_str_def unat_u8_less)

lemma gives_string: "gives read_gguf_string storable_string"
  unfolding read_gguf_string_def
  by (rule gives_then [OF gives_str_bytes])
     (auto simp: gives_def storable_string_def from_utf8_def split: option.splits if_splits)

lemma gives_items:
  assumes "gives p P" and "gives q Q" and "\<And>v vs. P v \<Longrightarrow> Q vs \<Longrightarrow> R (v # vs)"
  shows "gives (\<lambda>cur. try_then (p cur) (\<lambda>(v, cur).
    try_then (q cur) (\<lambda>(vs, cur). Inr (v # vs, cur)))) R"
  by (intro gives_then [OF assms(1)] gives_then [OF assms(2)] gives_return assms(3))

lemma gives_array_head:
  "gives (\<lambda>cur. read_array_head cur dep)
     (\<lambda>h. dep < MAX_ARRAY_NEST_DEPTH \<and> snd h \<le> MAX_ARRAY_LEN)"
  unfolding read_array_head_def
  by (intro gives_if gives_fail gives_then [OF gives_any] gives_return) simp_all

lemma gives_read_items:
  assumes "gives (\<lambda>cur. read_value cur ty dep) P"
  shows "gives (\<lambda>cur. read_items cur ty dep n) (\<lambda>vs. length vs = n \<and> list_all P vs)"
proof (induction n)
  case (Suc n)
  show ?case unfolding read_items.simps by (rule gives_items [OF assms Suc.IH]) simp
qed (simp add: gives_return)

lemma gives_signed:
  assumes "gives p (\<lambda>n. n < 2 ^ w)" and "0 < w"
    and "\<And>v. - (2 ^ (w - 1)) \<le> v \<Longrightarrow> v < 2 ^ (w - 1) \<Longrightarrow> P (f v)"
  shows "gives (\<lambda>cur. rd_map (\<lambda>v. f (signed_of w v)) (p cur)) P"
  by (intro gives_rd_map gives_weaken [OF assms(1)] assms(3) signed_of_range assms(2))

lemma gives_value: "gives (\<lambda>cur. read_value cur ty dep) (value_within dep)"
proof (induction "5 - dep" arbitrary: dep ty rule: less_induct)
  case less
  have le: "gives (read_le k) (\<lambda>n. n < 2 ^ (8 * k))" for k
    using gives_le [of k] by (simp add: power_mult)
  have array: "gives (\<lambda>cur. try_then (read_array_head cur dep) (\<lambda>(h, cur).
      rd_map GvArray (read_items cur (fst h) (dep + 1) (snd h)))) (value_within dep)"
  proof (rule gives_then [OF gives_array_head])
    fix h :: "nat \<times> nat"
    assume h: "dep < MAX_ARRAY_NEST_DEPTH \<and> snd h \<le> MAX_ARRAY_LEN"
    then have "5 - (dep + 1) < 5 - dep" by (auto simp: MAX_ARRAY_NEST_DEPTH_def)
    from less [OF this] show "gives (\<lambda>cur. rd_map GvArray (read_items cur (fst h) (dep + 1) (snd h)))
        (value_within dep)"
      using h by (intro gives_rd_map gives_weaken [OF gives_read_items]) (auto simp: list_all_iff)
  qed
  have u8: "gives read_u8 (\<lambda>n. n < 2 ^ 8)" and u32: "gives read_u32_le (\<lambda>n. n < 2 ^ 32)"
    and u64: "gives read_u64_le (\<lambda>n. n < 2 ^ 64)" by (rule gives_uints)+
  have b: "gives (\<lambda>cur. rd_map (\<lambda>v. GvBool (v \<noteq> 0)) (read_u8 cur)) (value_within dep)"
    by (intro gives_rd_map gives_weaken [OF gives_any]) simp
  show ?case unfolding read_value.simps [of _ ty dep] case_prod_unfold
    using array [unfolded case_prod_unfold]
    by (intro gives_if gives_fail b gives_signed [OF u8] gives_signed [OF le [of 2], simplified]
        gives_signed [OF le [of 4], simplified] gives_signed [OF le [of 8], simplified]
        gives_rd_map [OF gives_weaken [OF u8]] gives_rd_map [OF gives_weaken [OF le [of 2]]]
        gives_rd_map [OF gives_weaken [OF le [of 4]]] gives_rd_map [OF gives_weaken [OF le [of 8]]]
        gives_rd_map [OF gives_weaken [OF u32]] gives_rd_map [OF gives_weaken [OF u64]]
        gives_rd_map [OF gives_weaken [OF gives_string]]) simp_all
qed

definition metadata_within :: "nat \<Rightarrow> metadata \<Rightarrow> bool" where
  "metadata_within n md \<longleftrightarrow> length md \<le> n \<and> distinct (map fst md) \<and> list_all entry_within md"

lemma length_update_le: "length (AList.update k v al) \<le> Suc (length al)"
  by (induction al) auto

lemma set_update_subset: "set (AList.update k v al) \<subseteq> insert (k, v) (set al)"
  by (induction al) auto

lemma metadata_within_update:
  assumes "metadata_within n md" and "entry_within (k, v)"
  shows "metadata_within (Suc n) (AList.update k v md)"
  using assms length_update_le [of k v md] set_update_subset [of k v md]
  by (force simp: metadata_within_def list_all_iff distinct_update)

lemma metadata_within_Suc: "metadata_within n md \<Longrightarrow> metadata_within (Suc n) md"
  by (simp add: metadata_within_def)

lemma gives_marker_items:
  "gives (\<lambda>cur. read_marker_items cur ty n) (\<lambda>vs. length vs \<le> n \<and> list_all is_marker vs)"
proof (induction n)
  case 0
  show ?case by (simp add: gives_return)
next
  case (Suc n)
  have skip: "gives (\<lambda>cur. try_then (skip_value cur ty 1) (\<lambda>cur. read_marker_items cur ty n))
      (\<lambda>vs. length vs \<le> Suc n \<and> list_all is_marker vs)"
    using Suc.IH by (fastforce simp: gives_def try_then_eq_Inr)
  have keep: "gives (\<lambda>cur. Inr (case List.find P REASONING_MARKERS of
        Some m \<Rightarrow> (GvString m # kept, cur) | None \<Rightarrow> (kept, cur)))
      (\<lambda>vs. length vs \<le> Suc n \<and> list_all is_marker vs)"
    if "length kept \<le> n \<and> list_all is_marker kept" for P kept
    using that by (auto simp: gives_def is_marker_def REASONING_MARKERS_def)
  show ?case unfolding read_marker_items.simps
    by (intro gives_if skip gives_then [OF gives_any] gives_then [OF Suc.IH] keep)
qed

lemma marker_within: "is_marker v \<Longrightarrow> value_within dep v"
  by (auto simp: is_marker_def REASONING_MARKERS_def storable_string_def MAX_STRING_LEN_def
      of_str_def utf8_cont_def unat_of_nat)

lemma gives_marker_tokens:
  "gives read_marker_tokens (\<lambda>v. \<exists>items. v = GvArray items \<and> value_within 0 v \<and> list_all is_marker items)"
proof -
  have "gives (\<lambda>cur. try_then (read_array_head cur 0) (\<lambda>(h, cur).
      rd_map GvArray (read_marker_items cur (fst h) (snd h))))
    (\<lambda>v. \<exists>items. v = GvArray items \<and> value_within 0 v \<and> list_all is_marker items)"
    by (rule gives_then [OF gives_array_head], intro gives_rd_map gives_weaken [OF gives_marker_items])
       (auto simp: list_all_iff marker_within)
  then show ?thesis by (simp add: read_marker_tokens_def [abs_def] case_prod_unfold)
qed

lemma gives_kv:
  assumes "metadata_within n md"
  shows "gives (\<lambda>cur. read_kv cur md) (metadata_within (Suc n))"
proof -
  have out: "gives (\<lambda>cur. if key \<in> set SKIPPED_KEYS
      then try_then (skip_value cur ty 0) (\<lambda>cur. Inr (md, cur))
      else rd_map (\<lambda>v. AList.update key v md)
              (if key = TOKENS_KEY \<and> ty = 9 then read_marker_tokens cur
               else read_value cur ty 0)) (metadata_within (Suc n))"
    if key: "storable_string key" for key ty
  proof (rule gives_if)
    show "gives (\<lambda>cur. try_then (skip_value cur ty 0) (\<lambda>cur. Inr (md, cur))) (metadata_within (Suc n))"
      using metadata_within_Suc [OF assms] by (auto simp: gives_def try_then_eq_Inr)
  next
    assume ns: "key \<notin> set SKIPPED_KEYS"
    have arr: "ty = 9 \<or> (\<forall>items. v \<noteq> GvArray items)" if "read_value cur ty 0 = Inr (v, c)" for cur v c
      using that by (auto simp: read_value.simps rd_map_def try_then_eq_Inr split: if_splits)
    have "gives (\<lambda>cur. if key = TOKENS_KEY \<and> ty = 9 then read_marker_tokens cur
        else read_value cur ty 0) (\<lambda>v. entry_within (key, v))"
      using givesD [OF gives_marker_tokens] givesD [OF gives_value [of ty 0]] arr key ns
      by (fastforce simp: gives_def entry_within_def split: gguf_value.split)
    then show "gives (\<lambda>cur. rd_map (\<lambda>v. AList.update key v md)
        (if key = TOKENS_KEY \<and> ty = 9 then read_marker_tokens cur else read_value cur ty 0))
        (metadata_within (Suc n))"
      by (intro gives_rd_map gives_weaken [OF _ metadata_within_update [OF assms]])
  qed
  show ?thesis unfolding read_kv_def
    by (intro gives_then [OF gives_string] gives_then [OF gives_any] out)
qed

lemma gives_kvs:
  "metadata_within m md \<Longrightarrow> gives (\<lambda>cur. read_kvs n cur md) (metadata_within (m + n))"
proof (induction n arbitrary: m md)
  case (Suc n)
  have "gives (\<lambda>cur. read_kvs n cur md') (metadata_within (m + Suc n))"
    if "metadata_within (Suc m) md'" for md' using Suc.IH [OF that] by simp
  then show ?case unfolding read_kvs.simps by (rule gives_then [OF gives_kv [OF Suc.prems]])
qed (simp add: gives_return)

lemma gives_dims: "gives (read_dims n) (\<lambda>ds. length ds = n \<and> list_all (\<lambda>d. d < 2 ^ 64) ds)"
proof (induction n)
  case (Suc n)
  show ?case unfolding read_dims.simps
    by (rule gives_items [OF gives_uints(3) Suc.IH]) simp
qed (simp add: gives_return)

lemma gives_tensor: "gives read_tensor tensor_within"
  unfolding read_tensor_def
  by (intro gives_then [OF gives_string] gives_then [OF gives_any] gives_if gives_fail
      gives_then [OF gives_dims] gives_then [OF gives_uints(2)] gives_then [OF gives_any] gives_return)
     (simp add: tensor_within_def)

lemma gives_tensors: "gives (read_tensors n) (\<lambda>ts. length ts = n \<and> list_all tensor_within ts)"
proof (induction n)
  case (Suc n)
  show ?case unfolding read_tensors.simps
    by (rule gives_items [OF gives_tensor Suc.IH]) simp
qed (simp add: gives_return)

lemma gives_preamble:
  "gives read_preamble (\<lambda>p. fst p \<in> {2, 3} \<and> fst (snd p) \<le> MAX_TENSOR_COUNT
     \<and> snd (snd p) \<le> MAX_KV_COUNT)"
  unfolding read_preamble_def
  by (intro gives_then [OF gives_any] gives_if gives_fail gives_return) auto

lemma gives_structure: "gives read_structure header_within"
  unfolding read_structure_def
proof (rule gives_then [OF gives_preamble])
  fix p :: "nat \<times> nat \<times> nat"
  assume p: "fst p \<in> {2, 3} \<and> fst (snd p) \<le> MAX_TENSOR_COUNT \<and> snd (snd p) \<le> MAX_KV_COUNT"
  have "metadata_within 0 []" by (simp add: metadata_within_def)
  from gives_kvs [OF this, of "snd (snd p)"]
  have kvs: "gives (\<lambda>cur. read_kvs (snd (snd p)) cur []) (metadata_within (snd (snd p)))" by simp
  show "gives (\<lambda>cur. try_then (read_kvs (snd (snd p)) cur []) (\<lambda>(md, cur).
     try_then (read_tensors (fst (snd p)) cur) (\<lambda>(tensors, cur).
       Inr (\<lparr>gh_version = fst p, gh_tensor_count = fst (snd p),
             gh_metadata = md, gh_tensors = tensors\<rparr>, cur)))) header_within"
    by (intro gives_then [OF kvs] gives_then [OF gives_tensors] gives_return)
       (use p in \<open>auto simp: header_within_def metadata_within_def\<close>)
qed

text \<open>
  C12. Every header that parses is within the reader's limits: a known version, as many
  tensors as announced and no more than a million, at most ten thousand metadata entries
  with distinct keys and none of the skipped tokenizer keys, every number within its width,
  every string valid UTF-8 of at most 4 MiB, arrays of at most a million items nested at
  most four deep, tensors of at most eight dimensions.
\<close>

theorem parse_header_within:
  assumes "parse_header b = Inr r"
  shows "header_within (rh_header r)"
proof -
  from assms obtain cur where "read_structure (cursor_new b) = Inr (rh_header r, cur)"
    by (auto simp: parse_header_structure try_then_eq_Inr)
  then show ?thesis by (rule givesD [OF gives_structure])
qed

lemma parse_header_within_witness:
  "\<exists>r. parse_header (of_str ''GGUF'' @ [2, 0, 0, 0, 0, 0, 0, 0, 0, 0, 0, 0, 0, 0, 0, 0, 0, 0, 0, 0]) = Inr r
     \<and> header_within (rh_header r)"
proof -
  let ?b = "of_str ''GGUF'' @ [2, 0, 0, 0, 0, 0, 0, 0, 0, 0, 0, 0, 0, 0, 0, 0, 0, 0, 0, 0]"
  have "parse_header ?b = Inr \<lparr>rh_raw = take 24 ?b, rh_header =
      \<lparr>gh_version = 2, gh_tensor_count = 0, gh_metadata = [], gh_tensors = []\<rparr>\<rparr>"
    by (simp add: parse_header_def read_preamble_def cursor_new_def read_bytes_def remaining_def
        read_u32_le_def read_u64_le_def read_le_def GGUF_MAGIC_def of_str_def MAX_TENSOR_COUNT_def
        MAX_KV_COUNT_def)
  from parse_header_within [OF this] this show ?thesis by blast
qed

end
