(* ===== verification/Gguf_Metadata.thy ===== *)
theory Gguf_Metadata
  imports Gguf_Memory Gguf_Codec
begin

text \<open>
  The domain view of a parsed header, \<open>summarise\<close> of \<open>src/gguf/metadata.rs\<close>: parameter
  count and its label, dominant quantisation, mode and reasoning hints.
  The order in which a \<open>HashMap\<close> yields its entries is unspecified; it is the parameter
  \<open>order\<close>, of which the lemmas assume only that it keeps the entries.
\<close>

datatype mode_hint = Chat | Embedding | Rerank | Image | Tts | Stt | ModeUnknown

fun as_label :: "mode_hint \<Rightarrow> string option" where
  "as_label Chat = Some ''chat''"
| "as_label Embedding = Some ''embedding''"
| "as_label Rerank = Some ''rerank''"
| "as_label Image = Some ''image''"
| "as_label Tts = Some ''tts''"
| "as_label Stt = Some ''stt''"
| "as_label ModeUnknown = None"

record model_metadata =
  mm_arch :: "string option"
  mm_total_parameters :: "nat option"
  mm_parameter_label :: "string option"
  mm_quant :: quant
  mm_quant_label :: "string option"
  mm_native_ctx :: "nat option"
  mm_chat_template :: "string option"
  mm_tokenizer_kind :: "string option"
  mm_reasoning_hint :: bool
  mm_mode_hint :: mode_hint
  mm_weights_bytes :: "nat option"
  mm_lazy_tensor_bytes :: "nat list"
  mm_mtp :: "nat option"

definition quant_display :: "model_metadata \<Rightarrow> string" where
  "quant_display m = (case mm_quant_label m of Some l \<Rightarrow> l | None \<Rightarrow> label (mm_quant m))"

subsection \<open>Parameters\<close>

definition explicit_parameter_count :: "gguf_header \<Rightarrow> nat option" where
  "explicit_parameter_count h =
     (case gh_u64 h [''general.parameter_count''] of
        Some p \<Rightarrow> Some p
      | None \<Rightarrow> Option.bind (gh_string h [''general.architecture''])
                  (\<lambda>a. gh_u64 h [a @ ''.parameter_count'']))"

definition tensor_param_sum :: "gguf_header \<Rightarrow> nat" where
  "tensor_param_sum h = sat_sum (map n_elements
     (filter (\<lambda>t. ends_with (ti_name t) ''.weight'' \<or> ends_with (ti_name t) ''.bias'') (gh_tensors h)))"

definition parameter_count :: "gguf_header \<Rightarrow> nat option" where
  "parameter_count h =
     (case explicit_parameter_count h of
        Some p \<Rightarrow> Some p
      | None \<Rightarrow> let summed = tensor_param_sum h in if summed > 0 then Some summed else None)"

definition strip_suffix :: "string \<Rightarrow> string \<Rightarrow> string option" where
  "strip_suffix s suffix =
     (if ends_with s suffix then Some (take (length s - length suffix) s) else None)"

definition label_for_param_count :: "nat \<Rightarrow> string option" where
  "label_for_param_count count =
     (if count = 0 then None else
        let n = f64_of count;
            (val, unit) = (if n \<ge> 10 ^ 12 then (f64_div n (10 ^ 12), ''T'')
                           else if n \<ge> 10 ^ 9 then (f64_div n (10 ^ 9), ''B'')
                           else (f64_div n (10 ^ 6), ''M''))
        in Some (if val \<ge> 100 then fmt_fixed 0 val @ unit
                 else let one_dp = fmt_fixed 1 val
                      in (case strip_suffix one_dp ''.0'' of Some t \<Rightarrow> t | None \<Rightarrow> one_dp) @ unit))"

subsection \<open>Dominant quantisation\<close>

text \<open>\<open>entry(t).or_default()\<close> and the saturating addition to it.\<close>

definition add_bytes :: "(nat \<times> nat) list \<Rightarrow> tensor_info \<Rightarrow> (nat \<times> nat) list" where
  "add_bytes by_type t =
     (if \<not> ends_with (ti_name t) ''.weight'' then by_type
      else AList.update (ti_ggml_type t)
             (sat_add (case map_of by_type (ti_ggml_type t) of Some b \<Rightarrow> b | None \<Rightarrow> 0)
                      (tensor_bytes t)) by_type)"

definition bytes_by_type :: "tensor_info list \<Rightarrow> (nat \<times> nat) list" where
  "bytes_by_type ts = foldl add_bytes [] ts"

text \<open>\<open>Iterator::max_by_key\<close>: the last of the maximal entries.\<close>

fun max_by_snd :: "nat \<times> nat \<Rightarrow> (nat \<times> nat) list \<Rightarrow> nat \<times> nat" where
  "max_by_snd best [] = best"
| "max_by_snd best (x # xs) = max_by_snd (if snd best \<le> snd x then x else best) xs"

definition dominant_quant ::
  "((nat \<times> nat) list \<Rightarrow> (nat \<times> nat) list) \<Rightarrow> tensor_info list \<Rightarrow> quant" where
  "dominant_quant order ts =
     (if ts = [] then Unknown 0 else
      from_ggml_tag
        (case order (bytes_by_type ts) of
           [] \<Rightarrow> ti_ggml_type (hd ts)
         | x # xs \<Rightarrow> fst (max_by_snd x xs)))"

subsection \<open>Hints\<close>

definition lower_of :: "gguf_header \<Rightarrow> string \<Rightarrow> string" where
  "lower_of h key = (case gh_string h [key] of Some s \<Rightarrow> ascii_lower s | None \<Rightarrow> '''')"

definition has_tensor :: "gguf_header \<Rightarrow> string \<Rightarrow> bool" where
  "has_tensor h needle = list_ex (\<lambda>t. ti_name t = needle) (gh_tensors h)"

definition rerank_signal :: "gguf_header \<Rightarrow> string option \<Rightarrow> bool" where
  "rerank_signal h arch \<longleftrightarrow>
     str_contains (ascii_lower (case arch of Some a \<Rightarrow> a | None \<Rightarrow> '''')) ''rerank''
     \<or> str_contains (lower_of h ''general.tags'') ''rerank''
     \<or> str_contains (lower_of h ''general.name'') ''rerank''
     \<or> list_ex (\<lambda>t. str_contains (ti_name t) ''cls.predictions'') (gh_tensors h)
     \<or> has_tensor h ''cls.score.weight''"

definition embedding_signal :: "gguf_header \<Rightarrow> string option \<Rightarrow> bool" where
  "embedding_signal h arch \<longleftrightarrow>
     (let arch_hint = ascii_lower (case arch of Some a \<Rightarrow> a | None \<Rightarrow> '''') in
      arch_hint = ''bert'' \<or> str_contains arch_hint ''embed''
      \<or> str_contains (lower_of h ''general.tags'') ''embed''
      \<or> str_contains (lower_of h ''general.name'') ''embed''
      \<or> (case arch of Some a \<Rightarrow> gh_get h (a @ ''.pooling_type'') \<noteq> None | None \<Rightarrow> False))"

definition chat_signal :: "gguf_header \<Rightarrow> bool" where
  "chat_signal h \<longleftrightarrow> has_tensor h ''output.weight'' \<or> has_tensor h ''lm_head.weight''
     \<or> has_tensor h ''output_norm.weight''"

definition has_template :: "gguf_header \<Rightarrow> bool" where
  "has_template h \<longleftrightarrow>
     (case gh_string h [''tokenizer.chat_template''] of Some t \<Rightarrow> t \<noteq> '''' | None \<Rightarrow> False)
     \<or> (case gh_get h ''tokenizer.chat_templates'' of
          Some (GvArray items) \<Rightarrow> items \<noteq> [] | _ \<Rightarrow> False)
     \<or> list_ex (\<lambda>kv. starts_with (fst kv) ''tokenizer.chat_template.'') (gh_metadata h)"

definition infer_mode_hint :: "gguf_header \<Rightarrow> string option \<Rightarrow> mode_hint" where
  "infer_mode_hint h arch =
     (if rerank_signal h arch then Rerank
      else if embedding_signal h arch then Embedding
      else if chat_signal h then Chat
      else if (case gh_u64 h [''split.count''] of Some n \<Rightarrow> n > 1 | None \<Rightarrow> False)
              \<or> gh_tensors h = []
      then (if has_template h then Chat else ModeUnknown)
      else case arch of
             Some a \<Rightarrow> if gh_u64 h [a @ ''.embedding_length''] \<noteq> None then Embedding else ModeUnknown
           | None \<Rightarrow> ModeUnknown)"

definition infer_reasoning_hint :: "gguf_header \<Rightarrow> bool" where
  "infer_reasoning_hint h =
     (case gh_get h ''tokenizer.ggml.tokens'' of
        Some (GvArray items) \<Rightarrow>
          list_ex (\<lambda>v. case v of GvString s \<Rightarrow> s \<in> set REASONING_MARKERS | _ \<Rightarrow> False) items
      | _ \<Rightarrow> False)"

definition summarise ::
  "((nat \<times> nat) list \<Rightarrow> (nat \<times> nat) list) \<Rightarrow> gguf_header \<Rightarrow> model_metadata" where
  "summarise order h =
     (let arch = gh_string h [''general.architecture''];
          total = parameter_count h;
          bytes = weights_bytes h
      in \<lparr>mm_arch = arch,
          mm_total_parameters = total,
          mm_parameter_label = Option.bind total label_for_param_count,
          mm_quant =
            (case Option.bind (gh_u64 h [''general.file_type'']) (\<lambda>ft. from_file_type (ft mod 2 ^ 32)) of
               Some q \<Rightarrow> q | None \<Rightarrow> dominant_quant order (gh_tensors h)),
          mm_quant_label = None,
          mm_native_ctx = Option.bind arch (\<lambda>a. gh_u64 h [a @ ''.context_length'']),
          mm_chat_template = gh_string h [''tokenizer.chat_template''],
          mm_tokenizer_kind = gh_string h [''tokenizer.ggml.model''],
          mm_reasoning_hint = infer_reasoning_hint h,
          mm_mode_hint = infer_mode_hint h arch,
          mm_weights_bytes = (if bytes = 0 then None else Some bytes),
          mm_lazy_tensor_bytes = lazy_tensor_sizes h,
          mm_mtp = map_option (\<lambda>n. n mod 2 ^ 32)
            (case Option.bind arch (\<lambda>a. gh_u64 h [a @ ''.nextn_predict_layers'']) of
               Some n \<Rightarrow> if n > 0 then Some n else None | None \<Rightarrow> None)\<rparr>)"

subsection \<open>The dominant quantisation\<close>

text \<open>The bytes of all weight tensors of one type.\<close>

definition type_bytes :: "tensor_info list \<Rightarrow> nat \<Rightarrow> nat" where
  "type_bytes ts tag = sat_sum (map tensor_bytes
     (filter (\<lambda>t. ends_with (ti_name t) ''.weight'' \<and> ti_ggml_type t = tag) ts))"

lemma type_bytes_snoc:
  "type_bytes (ts @ [t]) tag =
     (if ends_with (ti_name t) ''.weight'' \<and> ti_ggml_type t = tag
      then sat_add (type_bytes ts tag) (tensor_bytes t) else type_bytes ts tag)"
  by (simp add: type_bytes_def sat_sum_def)

lemma bytes_by_type_spec:
  "distinct (map fst (bytes_by_type ts)) \<and>
   (\<forall>tag. map_of (bytes_by_type ts) tag =
      (if \<exists>t \<in> set ts. ends_with (ti_name t) ''.weight'' \<and> ti_ggml_type t = tag
       then Some (type_bytes ts tag) else None))"
proof (induction ts rule: rev_induct)
  case Nil
  show ?case by (simp add: bytes_by_type_def)
next
  case (snoc t ts)
  have none: "type_bytes ts tag = 0"
    if "\<not> (\<exists>t \<in> set ts. ends_with (ti_name t) ''.weight'' \<and> ti_ggml_type t = tag)" for tag
    using that by (auto simp: type_bytes_def sat_sum_def filter_empty_conv)
  have step: "bytes_by_type (ts @ [t]) = add_bytes (bytes_by_type ts) t"
    by (simp add: bytes_by_type_def)
  show ?case
    using snoc none by (auto simp: step add_bytes_def type_bytes_snoc update_conv' distinct_update)
qed

lemma max_by_snd_in: "max_by_snd b xs \<in> set (b # xs)"
  by (induction b xs rule: max_by_snd.induct) auto

lemma max_by_snd_max: "x \<in> set (b # xs) \<Longrightarrow> snd x \<le> snd (max_by_snd b xs)"
proof (induction b xs arbitrary: x rule: max_by_snd.induct)
  case (2 best y ys)
  let ?b = "if snd best \<le> snd y then y else best"
  from "2.prems" consider "x = best \<or> x = y" | "x \<in> set ys" by auto
  then show ?case
  proof cases
    case 1
    then have "snd x \<le> snd ?b" by auto
    also have "\<dots> \<le> snd (max_by_snd ?b ys)" by (rule "2.IH") simp
    finally show ?thesis by simp
  next
    case 2
    then show ?thesis using "2.IH" [of x] by simp
  qed
qed simp

text \<open>
  Whatever order the hash map yields its entries in, the dominant quantisation is that
  of some weight tensor, and no tensor type has more bytes over all weight tensors than it.
\<close>

theorem dominant_quant_maximal:
  assumes "set (order (bytes_by_type ts)) = set (bytes_by_type ts)"
    and "\<exists>t \<in> set ts. ends_with (ti_name t) ''.weight''"
  shows "\<exists>t \<in> set ts. ends_with (ti_name t) ''.weight''
     \<and> dominant_quant order ts = from_ggml_tag (ti_ggml_type t)
     \<and> (\<forall>tag. type_bytes ts tag \<le> type_bytes ts (ti_ggml_type t))"
proof -
  let ?m = "bytes_by_type ts"
  have get: "map_of ?m tag = (if \<exists>t \<in> set ts. ends_with (ti_name t) ''.weight'' \<and> ti_ggml_type t = tag
       then Some (type_bytes ts tag) else None)" for tag
    using bytes_by_type_spec [of ts] by blast
  have d: "distinct (map fst ?m)" using bytes_by_type_spec [of ts] by blast
  from assms(2) get have "?m \<noteq> []" by (metis map_of.simps(1) option.distinct(1))
  then obtain x xs where ord: "order ?m = x # xs" using assms(1) by (cases "order ?m") auto
  define best where "best = max_by_snd x xs"
  have "best \<in> set ?m" using max_by_snd_in [of x xs] assms(1) by (simp only: best_def ord)
  then have "map_of ?m (fst best) = Some (snd best)"
    using map_of_is_SomeI [OF d, of "fst best" "snd best"] by (simp only: prod.collapse)
  then obtain t where t: "t \<in> set ts" "ends_with (ti_name t) ''.weight''" "ti_ggml_type t = fst best"
    and b: "snd best = type_bytes ts (fst best)" by (auto simp: get split: if_splits)
  have "type_bytes ts tag \<le> type_bytes ts (fst best)" for tag
  proof (cases "map_of ?m tag")
    case None
    then have "type_bytes ts tag = 0"
      by (auto simp: get type_bytes_def sat_sum_def filter_empty_conv split: if_splits)
    then show ?thesis by simp
  next
    case (Some v)
    then have "v = type_bytes ts tag" by (auto simp: get split: if_splits)
    moreover have "(tag, v) \<in> set (x # xs)"
      using map_of_SomeD [OF Some] assms(1) by (simp add: ord)
    ultimately show ?thesis using max_by_snd_max [of "(tag, v)" x xs] b by (simp add: best_def)
  qed
  moreover have "dominant_quant order ts = from_ggml_tag (fst best)"
    using t(1) by (auto simp: dominant_quant_def ord best_def)
  ultimately show ?thesis using t by auto
qed

lemma dominant_quant_maximal_witness:
  "\<exists>t \<in> set [\<lparr>ti_name = ''output.weight'', ti_dims = [256], ti_ggml_type = 12\<rparr>].
     dominant_quant rev [\<lparr>ti_name = ''output.weight'', ti_dims = [256], ti_ggml_type = 12\<rparr>]
       = from_ggml_tag (ti_ggml_type t)"
proof -
  let ?ts = "[\<lparr>ti_name = ''output.weight'', ti_dims = [256], ti_ggml_type = 12\<rparr>]"
  have "\<exists>t \<in> set ?ts. ends_with (ti_name t) ''.weight''" by (simp add: ends_with_def)
  from dominant_quant_maximal [of rev ?ts, OF _ this] show ?thesis by auto
qed

subsection \<open>The reasoning hint of a file\<close>

lemma map_of_kept_entries:
  "map_of (kept_entries md kvs) k =
     (case map_of (rev kvs) k of
        Some v \<Rightarrow> if k \<in> set SKIPPED_KEYS then map_of md k else Some (kept_value k v)
      | None \<Rightarrow> map_of md k)"
proof (induction kvs arbitrary: md)
  case (Cons kv kvs)
  obtain key v where kv: "kv = (key, v)" by (cases kv)
  show ?case
    by (auto simp: kv Cons.IH update_conv' map_add_def split: option.splits)
qed simp

text \<open>
  Dropping the vocabulary while reading does not lose the reasoning hint: for every
  storable file the hint computed from the parsed header, whose token array keeps only the
  markers, is whether the token array that was written contains \<open><think>\<close>.
\<close>

theorem reasoning_hint_of_file:
  assumes "storable_builder fb"
  shows "\<exists>bs r. build fb = Some bs \<and> parse_header bs = Inr r
    \<and> (infer_reasoning_hint (rh_header r) \<longleftrightarrow>
         (\<exists>items. map_of (rev (fb_metadata fb)) ''tokenizer.ggml.tokens'' = Some (GvArray items)
            \<and> GvString ''<think>'' \<in> set items))"
proof -
  from reads_built [OF assms] obtain bs where b: "build fb = Some bs"
    and p: "parse_header bs = Inr \<lparr>rh_raw = bs, rh_header = header_of fb\<rparr>"
    using parse_header_reads [of _ _ "[]"] by fastforce
  have "gh_get (header_of fb) TOKENS_KEY = map_option (kept_value TOKENS_KEY)
      (map_of (rev (fb_metadata fb)) TOKENS_KEY)"
    by (simp add: gh_get_def header_of_def map_of_kept_entries TOKENS_KEY_def SKIPPED_KEYS_def
        split: option.splits)
  then have "infer_reasoning_hint (header_of fb) \<longleftrightarrow>
      (\<exists>items. map_of (rev (fb_metadata fb)) TOKENS_KEY = Some (GvArray items)
         \<and> GvString ''<think>'' \<in> set items)"
    by (auto simp: infer_reasoning_hint_def TOKENS_KEY_def kept_value_def is_marker_def
        REASONING_MARKERS_def list_ex_iff split: option.splits gguf_value.splits)
  then show ?thesis using b p by (auto simp: TOKENS_KEY_def)
qed

lemma reasoning_hint_of_file_witness:
  "\<exists>r. parse_header (the (build sample_builder)) = Inr r \<and> infer_reasoning_hint (rh_header r)"
  using reasoning_hint_of_file [OF storable_sample]
  by (auto simp: sample_builder_def with_kv_def with_arch_def new_builder_def)

end
