(* ===== verification/Headroom.thy ===== *)
theory Headroom
  imports F64
begin

text \<open>
  The memory-headroom policy of \<open>src/launch/headroom.rs\<close> and the host snapshot it reads
  (\<open>HostMetricsSnapshot\<close>, \<open>src/daemon/host_metrics.rs\<close>). Shown: a reserve setting is at most
  99 and survives printing and parsing, and the admissible bytes never exceed the available.
\<close>

subsection \<open>Parsing numbers\<close>

text \<open>\<open>str::trim\<close>: the UTF-8 spellings of the Unicode white space characters.\<close>

definition white_spaces :: "nat list list" where
  "white_spaces = [[9], [10], [11], [12], [13], [32], [194, 133], [194, 160], [225, 154, 128],
     [226, 128, 128], [226, 128, 129], [226, 128, 130], [226, 128, 131], [226, 128, 132],
     [226, 128, 133], [226, 128, 134], [226, 128, 135], [226, 128, 136], [226, 128, 137],
     [226, 128, 138], [226, 128, 168], [226, 128, 169], [226, 128, 175], [226, 129, 159],
     [227, 128, 128]]"

definition white_spellings :: "string list" where
  "white_spellings = map (map char_of) white_spaces"

fun trim_with :: "string list \<Rightarrow> nat \<Rightarrow> string \<Rightarrow> string" where
  "trim_with ws 0 s = s"
| "trim_with ws (Suc n) s =
     (case List.find (starts_with s) ws of
        Some w \<Rightarrow> trim_with ws n (drop (length w) s)
      | None \<Rightarrow> s)"

definition trim_start :: "string \<Rightarrow> string" where
  "trim_start s = trim_with white_spellings (length s) s"

definition trim_end :: "string \<Rightarrow> string" where
  "trim_end s = rev (trim_with (map rev white_spellings) (length s) (rev s))"

definition trim :: "string \<Rightarrow> string" where
  "trim s = trim_end (trim_start s)"

text \<open>\<open>str::parse\<close> of an unsigned integer: an optional plus sign, then digits within range.\<close>

definition digit_val :: "char \<Rightarrow> nat option" where
  "digit_val c = (let n = of_char c :: nat in if 48 \<le> n \<and> n \<le> 57 then Some (n - 48) else None)"

fun parse_digits :: "nat \<Rightarrow> nat \<Rightarrow> string \<Rightarrow> nat option" where
  "parse_digits maxv acc [] = Some acc"
| "parse_digits maxv acc (c # cs) =
     (case digit_val c of
        None \<Rightarrow> None
      | Some d \<Rightarrow> if acc * 10 + d \<le> maxv then parse_digits maxv (acc * 10 + d) cs else None)"

definition parse_unsigned :: "nat \<Rightarrow> string \<Rightarrow> nat option" where
  "parse_unsigned maxv s =
     (let ds = (case s of CHR ''+'' # cs \<Rightarrow> cs | _ \<Rightarrow> s)
      in if ds = [] then None else parse_digits maxv 0 ds)"

lemma digit_val_digit_char: "d < 10 \<Longrightarrow> digit_val (digit_char d) = Some d"
  by (simp add: digit_val_def digit_char_def)

lemma parse_digits_append:
  "parse_digits m acc (s @ t) = Option.bind (parse_digits m acc s) (\<lambda>a. parse_digits m a t)"
  by (induction s arbitrary: acc) (auto split: option.splits)

lemma parse_digits_show_nat: "n \<le> m \<Longrightarrow> parse_digits m 0 (show_nat n) = Some n"
proof (induction n rule: show_nat.induct)
  case (1 n)
  show ?case
  proof (cases "n < 10")
    case True
    then show ?thesis using 1(2) by (simp add: show_nat.simps digit_val_digit_char)
  next
    case False
    then have "parse_digits m 0 (show_nat (n div 10)) = Some (n div 10)"
      using 1 by simp
    moreover have "n div 10 * 10 + n mod 10 \<le> m" using 1(2) by simp
    ultimately show ?thesis using False
      by (subst show_nat.simps) (simp add: parse_digits_append digit_val_digit_char)
  qed
qed

lemma show_nat_Cons: "\<exists>d cs. d < 10 \<and> show_nat n = digit_char d # cs"
proof (induction n rule: show_nat.induct)
  case (1 n)
  then show ?case by (cases "n < 10") (auto simp: show_nat.simps [of n])
qed

lemma digit_char_not_plus: "d < 10 \<Longrightarrow> digit_char d \<noteq> CHR ''+''"
proof
  assume "d < 10" "digit_char d = CHR ''+''"
  then show False using digit_val_digit_char [of d] by (simp add: digit_val_def)
qed

lemma parse_unsigned_show_nat: "n \<le> m \<Longrightarrow> parse_unsigned m (show_nat n) = Some n"
proof -
  assume n: "n \<le> m"
  obtain d cs where "d < 10" "show_nat n = digit_char d # cs" using show_nat_Cons by blast
  then have "(case show_nat n of CHR ''+'' # cs \<Rightarrow> cs | _ \<Rightarrow> show_nat n) = show_nat n"
    using digit_char_not_plus [of d] by (auto split: list.splits char.splits bool.splits)
  then show ?thesis using parse_digits_show_nat [OF n] show_nat_Cons [of n]
    by (auto simp: parse_unsigned_def Let_def)
qed

lemma parse_digits_bound: "acc \<le> m \<Longrightarrow> parse_digits m acc s = Some n \<Longrightarrow> n \<le> m"
  by (induction s arbitrary: acc) (auto split: option.splits if_splits)

lemma parse_unsigned_bound: "parse_unsigned m s = Some n \<Longrightarrow> n \<le> m"
  by (auto simp: parse_unsigned_def Let_def split: if_splits dest: parse_digits_bound [rotated])

subsection \<open>The host snapshot\<close>

datatype class_source = AppleUnifiedSource | ExplicitDxgiUma | NvmlNoFramebuffer
  | CarveSignature | Discrete

record device_row =
  dr_selector :: string
  dr_backend :: string
  dr_name :: string
  dr_total_memory_bytes :: nat
  dr_used_memory_bytes :: "nat option"
  dr_utilization_pct :: "rat option"
  dr_temperature_c :: "rat option"

record host_snapshot =
  cpu_pct :: rat
  cpu_temp_c :: "rat option"
  ram_used_bytes :: nat
  ram_total_bytes :: nat
  gpu_util_pct :: "rat option"
  gpu_mem_used_bytes :: "nat option"
  gpu_mem_total_bytes :: "nat option"
  gpu_temp_c :: "rat option"
  gpu_backend :: string
  gpu_device_count :: nat
  gpu_devices :: "device_row list option"
  uma_shared_total_bytes :: "nat option"
  uma_shared_used_bytes :: "nat option"
  unified :: bool
  uma_class_source :: "class_source option"

definition UNINITIALIZED_BACKEND :: string where "UNINITIALIZED_BACKEND = ''unsampled''"
definition BACKEND_CPU_ONLY :: string where "BACKEND_CPU_ONLY = ''cpu_only''"
definition BACKEND_NVIDIA :: string where "BACKEND_NVIDIA = ''nvidia''"
definition BACKEND_AMD :: string where "BACKEND_AMD = ''amd''"
definition BACKEND_APPLE_METAL :: string where "BACKEND_APPLE_METAL = ''apple_metal''"
definition BACKEND_UNKNOWN :: string where "BACKEND_UNKNOWN = ''unknown''"
definition BACKEND_MULTI :: string where "BACKEND_MULTI = ''multi''"

lemmas backend_names = UNINITIALIZED_BACKEND_def BACKEND_CPU_ONLY_def BACKEND_NVIDIA_def
  BACKEND_AMD_def BACKEND_APPLE_METAL_def BACKEND_UNKNOWN_def BACKEND_MULTI_def

datatype gpu_flavor = FlUnsampled | FlCpuOnly | FlNvidia | FlAmd | FlAppleMetal | FlUnknown | FlMulti

definition flavor_from_label :: "string \<Rightarrow> gpu_flavor" where
  "flavor_from_label l =
     (if l = UNINITIALIZED_BACKEND then FlUnsampled
      else if l = BACKEND_CPU_ONLY then FlCpuOnly
      else if l = BACKEND_NVIDIA then FlNvidia
      else if l = BACKEND_AMD then FlAmd
      else if l = BACKEND_APPLE_METAL then FlAppleMetal
      else if l = BACKEND_MULTI then FlMulti
      else FlUnknown)"

definition flavor :: "host_snapshot \<Rightarrow> gpu_flavor" where
  "flavor snap = flavor_from_label (gpu_backend snap)"

subsection \<open>Reserve\<close>

definition DEFAULT_APPLE_RESERVE_PERCENT :: nat where
  "DEFAULT_APPLE_RESERVE_PERCENT = 25"

datatype memory_reserve = MemoryReserve "nat option"

definition AUTO :: memory_reserve where "AUTO = MemoryReserve None"

definition EXPECTED :: string where "EXPECTED = ''auto or an integer from 0 to 99''"

definition percent :: "nat \<Rightarrow> (string, memory_reserve) result" where
  "percent p = (if p \<le> 99 then Inr (MemoryReserve (Some p)) else Inl EXPECTED)"

fun resolve :: "memory_reserve \<Rightarrow> nat \<Rightarrow> nat" where
  "resolve (MemoryReserve (Some p)) dflt = p"
| "resolve (MemoryReserve None) dflt = dflt"

definition reserve_admissible :: "memory_reserve \<Rightarrow> nat \<Rightarrow> nat \<Rightarrow> nat" where
  "reserve_admissible r available default_percent =
     (let fraction = f64_div (f64_of (100 - resolve r default_percent)) 100
      in f64_to_u64 (f64_mul (f64_of available) fraction))"

text \<open>\<open>Display\<close> and \<open>FromStr\<close>.\<close>

fun reserve_display :: "memory_reserve \<Rightarrow> string" where
  "reserve_display (MemoryReserve (Some p)) = show_nat p"
| "reserve_display (MemoryReserve None) = ''auto''"

definition reserve_from_str :: "string \<Rightarrow> (string, memory_reserve) result" where
  "reserve_from_str s =
     (if s = ''auto'' then Inr AUTO
      else case parse_unsigned 255 s of Some p \<Rightarrow> percent p | None \<Rightarrow> Inl EXPECTED)"

text \<open>\<open>Serialize\<close> and \<open>Deserialize\<close>: the scalars a \<open>serde\<close> format hands over.\<close>

datatype scalar = ScalarU64 nat | ScalarStr string | ScalarOther

fun reserve_serialize :: "memory_reserve \<Rightarrow> scalar" where
  "reserve_serialize (MemoryReserve (Some p)) = ScalarU64 p"
| "reserve_serialize (MemoryReserve None) = ScalarStr ''auto''"

fun reserve_deserialize :: "scalar \<Rightarrow> (string, memory_reserve) result" where
  "reserve_deserialize (ScalarU64 v) = (if v \<le> 255 then percent v else Inl EXPECTED)"
| "reserve_deserialize (ScalarStr s) = (if s = ''auto'' then Inr AUTO else Inl EXPECTED)"
| "reserve_deserialize ScalarOther = Inl EXPECTED"

subsection \<open>Pools\<close>

datatype pool_kind = AppleUnified | IntegratedUma | DiscreteVram | SystemRam

fun default_reserve_percent :: "pool_kind \<Rightarrow> nat option" where
  "default_reserve_percent AppleUnified = Some DEFAULT_APPLE_RESERVE_PERCENT"
| "default_reserve_percent IntegratedUma = Some 0"
| "default_reserve_percent DiscreteVram = None"
| "default_reserve_percent SystemRam = None"

definition OVERHEAD_BAND_NATIVE_BYTES :: nat where
  "OVERHEAD_BAND_NATIVE_BYTES = 512 * 1024 * 1024"

definition OVERHEAD_BAND_VULKAN_BYTES :: nat where
  "OVERHEAD_BAND_VULKAN_BYTES = 1024 * 1024 * 1024"

definition admissible_bytes :: "nat \<Rightarrow> pool_kind \<Rightarrow> memory_reserve \<Rightarrow> nat" where
  "admissible_bytes available pool reserve =
     (case default_reserve_percent pool of
        None \<Rightarrow> available
      | Some dflt \<Rightarrow> reserve_admissible reserve available dflt)"

definition overhead_band_bytes :: "string \<Rightarrow> nat" where
  "overhead_band_bytes backend =
     (if backend \<in> {BACKEND_NVIDIA, BACKEND_AMD, BACKEND_APPLE_METAL, BACKEND_MULTI}
      then OVERHEAD_BAND_NATIVE_BYTES
      else if backend = BACKEND_UNKNOWN then OVERHEAD_BAND_VULKAN_BYTES
      else 0)"

subsection \<open>Properties\<close>

definition valid_reserve :: "memory_reserve \<Rightarrow> bool" where
  "valid_reserve r \<longleftrightarrow> (case r of MemoryReserve (Some p) \<Rightarrow> p \<le> 99 | _ \<Rightarrow> True)"

lemma show_nat_not_auto: "show_nat n \<noteq> ''auto''"
proof
  assume a: "show_nat n = ''auto''"
  obtain d cs where "d < 10" "show_nat n = digit_char d # cs" using show_nat_Cons by blast
  then have "d < 10" "digit_char d = CHR ''a''" using a by auto
  then show False using digit_val_digit_char [of d] by (simp add: digit_val_def)
qed

text \<open>
  A reserve setting is \<open>auto\<close> or at most 99 percent, however it is read, and every such
  setting survives both its printed form and its serialised scalar.
\<close>

theorem memory_reserve_roundtrip:
  "(\<forall>s r. reserve_from_str s = Inr r \<longrightarrow> valid_reserve r)
   \<and> (\<forall>v r. reserve_deserialize v = Inr r \<longrightarrow> valid_reserve r)
   \<and> (\<forall>r. valid_reserve r \<longrightarrow> reserve_from_str (reserve_display r) = Inr r
        \<and> reserve_deserialize (reserve_serialize r) = Inr r)"
proof (intro conjI allI impI)
  fix s r assume "reserve_from_str s = Inr r"
  then show "valid_reserve r"
    by (auto simp: reserve_from_str_def AUTO_def percent_def valid_reserve_def
        split: if_splits option.splits)
next
  fix v r assume "reserve_deserialize v = Inr r"
  then show "valid_reserve r"
    by (cases v) (auto simp: AUTO_def percent_def valid_reserve_def split: if_splits)
next
  fix r assume v: "valid_reserve r"
  obtain p where r: "r = MemoryReserve p" by (cases r)
  show "reserve_from_str (reserve_display r) = Inr r"
    using v show_nat_not_auto by (cases p)
      (auto simp: r valid_reserve_def reserve_from_str_def AUTO_def percent_def parse_unsigned_show_nat)
  show "reserve_deserialize (reserve_serialize r) = Inr r"
    using v by (cases p) (auto simp: r valid_reserve_def AUTO_def percent_def)
qed

lemma memory_reserve_roundtrip_witness:
  "reserve_from_str (reserve_display (MemoryReserve (Some 25))) = Inr (MemoryReserve (Some 25))"
proof -
  have "valid_reserve (MemoryReserve (Some 25))" by (simp add: valid_reserve_def)
  then show ?thesis using memory_reserve_roundtrip by blast
qed

lemma reserve_fraction_bounds:
  "0 \<le> f64_div (f64_of (100 - p)) 100 \<and> f64_div (f64_of (100 - p)) 100 \<le> 1"
proof -
  have "of_nat (100 - p) / (100 :: rat) \<le> of_nat 1" by simp
  then have "fl (of_nat (100 - p) / 100) \<le> of_nat 1" by (intro fl_le_nat) auto
  then show ?thesis by (simp add: f64_div_def f64_of_exact fl_nonneg)
qed

lemma reserve_admissible_le:
  assumes "available \<le> 2 ^ 53"
  shows "reserve_admissible r available d \<le> available"
  unfolding reserve_admissible_def Let_def
proof (rule f64_to_u64_le)
  let ?f = "f64_div (f64_of (100 - resolve r d)) 100"
  have "f64_mul (f64_of available) ?f \<le> f64_mul (f64_of available) 1"
    using reserve_fraction_bounds by (intro f64_mul_mono) auto
  then show "f64_mul (f64_of available) ?f \<le> of_nat available"
    using assms by (simp add: f64_mul_def f64_of_exact fl_of_nat)
qed

lemma admissible_bytes_le:
  "available \<le> 2 ^ 53 \<Longrightarrow> admissible_bytes available pool reserve \<le> available"
  by (auto simp: admissible_bytes_def reserve_admissible_le split: option.split)

end
