(* ===== verification/Registry.thy ===== *)
theory Registry
  imports Headroom "HOL-Library.FSet"
begin

text \<open>
  Ports and names of launches: the port allocator \<open>src/daemon/ports.rs\<close> and the supervisor
  registry \<open>src/daemon/registry.rs\<close>. Whether the OS lets a port be bound, and Unicode
  lower-casing, are parameters. Shown: the allocator returns the first free port or the exact
  error, launch ids never repeat, and ports and names held by launches in flight are distinct
  under any interleaving of claims and releases.
\<close>

subsection \<open>Ports\<close>

record port_range =
  pr_start :: nat
  pr_end :: nat

datatype allocate_error =
    NoFreePort (range_of: "nat \<times> nat") (in_use: "nat list")
  | EmptyRange

definition configured_range :: "port_range \<Rightarrow> (allocate_error, nat list) result" where
  "configured_range rng =
     (if pr_start rng = 0 \<or> pr_end rng < pr_start rng then Inl EmptyRange
      else Inr [pr_start rng..<Suc (pr_end rng)])"

text \<open>The probing loop, with the conflicts collected so far.\<close>

fun probe_ports :: "(nat \<Rightarrow> bool) \<Rightarrow> nat list \<Rightarrow> nat list \<Rightarrow> nat list \<Rightarrow> nat + nat list" where
  "probe_ports try_bind reserved conflicts [] = Inr conflicts"
| "probe_ports try_bind reserved conflicts (port # slots) =
     (if port \<in> set reserved then probe_ports try_bind reserved (conflicts @ [port]) slots
      else if try_bind port then Inl port
      else probe_ports try_bind reserved (conflicts @ [port]) slots)"

definition allocate ::
  "(nat \<Rightarrow> bool) \<Rightarrow> port_range \<Rightarrow> nat list \<Rightarrow> (allocate_error, nat) result" where
  "allocate try_bind rng reserved =
     try_then (configured_range rng) (\<lambda>slots.
       case probe_ports try_bind reserved [] slots of
         Inl port \<Rightarrow> Inr port
       | Inr conflicts \<Rightarrow> Inl (NoFreePort (pr_start rng, pr_end rng) conflicts))"

fun allocate_error_display :: "allocate_error \<Rightarrow> string" where
  "allocate_error_display (NoFreePort (lo, hi) ports) =
     ''no free port in '' @ show_nat lo @ ''-'' @ show_nat hi
       @ '' ('' @ show_nat (length ports) @ '' reserved by caller)''"
| "allocate_error_display EmptyRange = ''port range is empty or inverted''"

lemma probe_ports_find:
  "probe_ports tb rs cs slots =
     (case List.find (\<lambda>q. q \<notin> set rs \<and> tb q) slots of Some p \<Rightarrow> Inl p | None \<Rightarrow> Inr (cs @ slots))"
  by (induction slots arbitrary: cs) (auto split: option.split)

lemma find_upt:
  "List.find P [lo..<Suc hi] = Some p \<longleftrightarrow> lo \<le> p \<and> p \<le> hi \<and> P p \<and> (\<forall>q \<in> {lo..<p}. \<not> P q)"
proof
  assume "List.find P [lo..<Suc hi] = Some p"
  then obtain i where i: "i < Suc hi - lo" "P (lo + i)" "p = lo + i" "\<forall>j<i. \<not> P (lo + j)"
    by (auto simp: find_Some_iff simp del: upt_Suc)
  have "\<not> P q" if "q \<in> {lo..<p}" for q
  proof -
    have "q - lo < i" and "lo + (q - lo) = q" using that i(3) by auto
    then show ?thesis using i(4) by metis
  qed
  then show "lo \<le> p \<and> p \<le> hi \<and> P p \<and> (\<forall>q \<in> {lo..<p}. \<not> P q)" using i by auto
next
  assume p: "lo \<le> p \<and> p \<le> hi \<and> P p \<and> (\<forall>q \<in> {lo..<p}. \<not> P q)"
  then show "List.find P [lo..<Suc hi] = Some p"
    by (auto simp: find_Some_iff simp del: upt_Suc intro!: exI [of _ "p - lo"])
qed

lemma allocate_Inr_free: "allocate tb rng reserved = Inr p \<Longrightarrow> p \<notin> set reserved \<and> tb p"
  by (auto simp: allocate_def configured_range_def probe_ports_find find_Some_iff try_then_eq_Inr
      simp del: upt_Suc split: if_splits option.splits)

text \<open>
  The allocator returns exactly the lowest port of the range that is neither reserved
  nor refused by the OS; it reports the whole range as in use when there is none, and an
  empty or inverted range as such.
\<close>

theorem allocate_lowest_free:
  "(allocate tb rng reserved = Inl EmptyRange \<longleftrightarrow> pr_start rng = 0 \<or> pr_end rng < pr_start rng)
   \<and> (allocate tb rng reserved = Inr p \<longleftrightarrow>
        0 < pr_start rng \<and> pr_start rng \<le> p \<and> p \<le> pr_end rng \<and> p \<notin> set reserved \<and> tb p
        \<and> (\<forall>q \<in> {pr_start rng..<p}. q \<in> set reserved \<or> \<not> tb q))
   \<and> (\<forall>r ports. allocate tb rng reserved = Inl (NoFreePort r ports) \<longrightarrow>
        ports = [pr_start rng..<Suc (pr_end rng)] \<and> (\<forall>q \<in> set ports. q \<in> set reserved \<or> \<not> tb q))"
proof -
  let ?P = "\<lambda>q. q \<notin> set reserved \<and> tb q" and ?slots = "[pr_start rng..<Suc (pr_end rng)]"
  have eq: "allocate tb rng reserved =
      (if pr_start rng = 0 \<or> pr_end rng < pr_start rng then Inl EmptyRange
       else case List.find ?P ?slots of
              Some q \<Rightarrow> Inr q | None \<Rightarrow> Inl (NoFreePort (pr_start rng, pr_end rng) ?slots))"
    by (simp add: allocate_def configured_range_def probe_ports_find split: option.split
        del: upt_Suc)
  have none: "\<forall>q \<in> set ?slots. q \<in> set reserved \<or> \<not> tb q" if "List.find ?P ?slots = None"
    using that by (auto simp: find_None_iff simp del: upt_Suc)
  have some: "List.find ?P ?slots = Some p \<longleftrightarrow> pr_start rng \<le> p \<and> p \<le> pr_end rng \<and> ?P p
      \<and> (\<forall>q \<in> {pr_start rng..<p}. \<not> ?P q)" by (rule find_upt)
  show ?thesis
  proof (cases "pr_start rng = 0 \<or> pr_end rng < pr_start rng")
    case True
    then show ?thesis by (auto simp: eq simp del: upt_Suc)
  next
    case False
    show ?thesis
    proof (cases "List.find ?P ?slots")
      case None
      then show ?thesis using False some none by (simp add: eq del: upt_Suc set_upt)
    next
      case (Some q)
      then show ?thesis using False some by (simp add: eq del: upt_Suc set_upt)
    qed
  qed
qed

lemma allocate_lowest_free_witness:
  "allocate (\<lambda>p. p \<noteq> 41101) \<lparr>pr_start = 41100, pr_end = 41300\<rparr> [41100] = Inr 41102"
  using allocate_lowest_free [of "\<lambda>p. p \<noteq> 41101" "\<lparr>pr_start = 41100, pr_end = 41300\<rparr>" "[41100]" 41102]
  by auto

subsection \<open>The registry\<close>

definition from_counter :: "nat \<Rightarrow> string" where
  "from_counter n = CHR ''L'' # show_nat n"

fun launch_counter :: "string \<Rightarrow> nat option" where
  "launch_counter (CHR ''L'' # s) = parse_unsigned u64_max s"
| "launch_counter _ = None"

record 'm registry =
  rg_models :: "string \<Rightarrow> 'm option"
  rg_counter :: nat
  rg_reserved_ports :: "nat fset"
  rg_reserved_names :: "(string \<times> string) fset"

definition new_registry :: "'m registry" where
  "new_registry = \<lparr>rg_models = Map.empty, rg_counter = 0, rg_reserved_ports = {||}, rg_reserved_names = {||}\<rparr>"

text \<open>\<open>fetch_add\<close> wraps; the id is made from the wrapped value plus one.\<close>

definition next_id :: "'m registry \<Rightarrow> string \<times> 'm registry" where
  "next_id reg = (from_counter ((rg_counter reg + 1) mod 2 ^ 64),
     reg\<lparr>rg_counter := (rg_counter reg + 1) mod 2 ^ 64\<rparr>)"

definition insert_model :: "string \<Rightarrow> 'm \<Rightarrow> 'm registry \<Rightarrow> 'm registry" where
  "insert_model i m reg = reg\<lparr>rg_models := (rg_models reg)(i \<mapsto> m)\<rparr>"

definition get_model :: "string \<Rightarrow> 'm registry \<Rightarrow> 'm option" where
  "get_model i reg = rg_models reg i"

definition remove_model :: "string \<Rightarrow> 'm registry \<Rightarrow> 'm option \<times> 'm registry" where
  "remove_model i reg = (rg_models reg i, reg\<lparr>rg_models := (rg_models reg)(i := None)\<rparr>)"

definition reserve_port ::
  "(nat \<Rightarrow> bool) \<Rightarrow> nat option \<Rightarrow> nat list \<Rightarrow> port_range \<Rightarrow> 'm registry
    \<Rightarrow> (string, nat) result \<times> 'm registry" where
  "reserve_port try_bind requested live_in_use rng reg =
     (let combined = live_in_use @ sorted_list_of_fset (rg_reserved_ports reg);
          chosen =
            (case requested of
               Some p \<Rightarrow>
                 if p |\<in>| rg_reserved_ports reg \<or> p \<in> set live_in_use
                 then Inl (''port '' @ show_nat p @ '' is already in use by another launch'')
                 else if \<not> try_bind p
                 then Inl (''port '' @ show_nat p @ '' is already in use (external bind)'')
                 else Inr p
             | None \<Rightarrow>
                 (case allocate try_bind rng combined of
                    Inl e \<Rightarrow> Inl (allocate_error_display e) | Inr p \<Rightarrow> Inr p))
      in case chosen of
           Inl e \<Rightarrow> (Inl e, reg)
         | Inr p \<Rightarrow> (Inr p, reg\<lparr>rg_reserved_ports := finsert p (rg_reserved_ports reg)\<rparr>))"

definition release_reserved_port :: "nat \<Rightarrow> 'm registry \<Rightarrow> 'm registry" where
  "release_reserved_port p reg = reg\<lparr>rg_reserved_ports := rg_reserved_ports reg - {|p|}\<rparr>"

text \<open>A claim on a name is a guard that holds its key; dropping the guard removes the key.\<close>

definition try_reserve_name ::
  "(string \<Rightarrow> string) \<Rightarrow> string \<Rightarrow> string \<Rightarrow> 'm registry
    \<Rightarrow> ((string \<times> string) \<times> 'm registry) option" where
  "try_reserve_name lower model_path name reg =
     (let key = (model_path, lower name)
      in if key |\<in>| rg_reserved_names reg then None
         else Some (key, reg\<lparr>rg_reserved_names := finsert key (rg_reserved_names reg)\<rparr>))"

definition drop_name :: "string \<times> string \<Rightarrow> 'm registry \<Rightarrow> 'm registry" where
  "drop_name key reg = reg\<lparr>rg_reserved_names := rg_reserved_names reg - {|key|}\<rparr>"

subsection \<open>Exclusive claims\<close>

text \<open>
  Ports and names share a contract: a granted claim is a key that was free and now is
  taken, and giving a key back frees that key alone. Launches in flight make claims and give
  them back in any order; the keys they hold at one time are then distinct.
\<close>

datatype 'r claim_op = Claim 'r | GiveBack nat

fun claim_run ::
  "('r \<Rightarrow> 's \<Rightarrow> ('k \<times> 's) option) \<Rightarrow> ('k \<Rightarrow> 's \<Rightarrow> 's)
    \<Rightarrow> 'r claim_op list \<Rightarrow> 's \<times> 'k list \<Rightarrow> 's \<times> 'k list" where
  "claim_run claim give_back [] st = st"
| "claim_run claim give_back (Claim r # ops) (s, held) =
     (case claim r s of
        None \<Rightarrow> claim_run claim give_back ops (s, held)
      | Some (k, s') \<Rightarrow> claim_run claim give_back ops (s', held @ [k]))"
| "claim_run claim give_back (GiveBack i # ops) (s, held) =
     (if i < length held
      then claim_run claim give_back ops
             (give_back (held ! i) s, take i held @ drop (Suc i) held)
      else claim_run claim give_back ops (s, held))"

locale exclusive_claims =
  fixes taken :: "'s \<Rightarrow> 'k set"
    and claim :: "'r \<Rightarrow> 's \<Rightarrow> ('k \<times> 's) option"
    and give_back :: "'k \<Rightarrow> 's \<Rightarrow> 's"
  assumes claim_fresh: "claim r s = Some (k, s') \<Longrightarrow> k \<notin> taken s \<and> taken s' = insert k (taken s)"
    and give_back_taken: "taken (give_back k s) = taken s - {k}"
begin

lemma claim_run_distinct:
  assumes "distinct held" and "taken s = set held \<union> others" and "set held \<inter> others = {}"
    and "claim_run claim give_back ops (s, held) = (s', held')"
  shows "distinct held' \<and> taken s' = set held' \<union> others \<and> set held' \<inter> others = {}"
  using assms
proof (induction ops arbitrary: s held)
  case (Cons op ops)
  show ?case
  proof (cases op)
    case (Claim r)
    show ?thesis
    proof (cases "claim r s")
      case None
      then show ?thesis using Cons Claim by simp
    next
      case (Some ks)
      obtain k s1 where ks: "ks = (k, s1)" by (cases ks)
      have "k \<notin> taken s" and "taken s1 = insert k (taken s)"
        using claim_fresh [of r s k s1] Some ks by auto
      then have "distinct (held @ [k])" "taken s1 = set (held @ [k]) \<union> others"
        "set (held @ [k]) \<inter> others = {}" using Cons.prems by auto
      from Cons.IH [OF this] show ?thesis using Cons.prems(4) by (simp add: Claim Some ks)
    qed
  next
    case (GiveBack i)
    show ?thesis
    proof (cases "i < length held")
      case True
      let ?held = "take i held @ drop (Suc i) held"
      have split: "held = take i held @ held ! i # drop (Suc i) held"
        using True by (rule id_take_nth_drop)
      have d: "distinct (take i held @ held ! i # drop (Suc i) held)"
        using Cons.prems(1) split by simp
      have st: "set held = insert (held ! i) (set ?held)" by (subst split) auto
      have "distinct ?held" "held ! i \<notin> set ?held" using d by auto
      moreover from this have "taken (give_back (held ! i) s) = set ?held \<union> others"
        "set ?held \<inter> others = {}"
        using Cons.prems(2,3) st by (auto simp: give_back_taken)
      ultimately show ?thesis using Cons.IH [of ?held] Cons.prems(4) True by (simp add: GiveBack)
    next
      case False
      then show ?thesis using Cons GiveBack by simp
    qed
  qed
qed simp

end

text \<open>One \<open>reserve_port\<close> call as a claim, with its arguments.\<close>

definition port_claim ::
  "(nat \<Rightarrow> bool) \<times> nat option \<times> nat list \<times> port_range \<Rightarrow> 'm registry \<Rightarrow> (nat \<times> 'm registry) option" where
  "port_claim req reg =
     (case req of (try_bind, requested, live, rng) \<Rightarrow>
       case reserve_port try_bind requested live rng reg of
         (Inr p, reg') \<Rightarrow> Some (p, reg') | (Inl _, _) \<Rightarrow> None)"

definition name_claim ::
  "(string \<Rightarrow> string) \<Rightarrow> string \<times> string \<Rightarrow> 'm registry \<Rightarrow> ((string \<times> string) \<times> 'm registry) option" where
  "name_claim lower req reg = try_reserve_name lower (fst req) (snd req) reg"

lemma reserve_port_granted:
  assumes "reserve_port tb requested live rng reg = (Inr p, reg')"
  shows "p |\<notin>| rg_reserved_ports reg \<and> p \<notin> set live \<and> tb p
     \<and> reg' = reg\<lparr>rg_reserved_ports := finsert p (rg_reserved_ports reg)\<rparr>"
proof -
  have "p \<notin> set (live @ sorted_list_of_fset (rg_reserved_ports reg)) \<and> tb p"
    if "allocate tb rng (live @ sorted_list_of_fset (rg_reserved_ports reg)) = Inr p"
    using that by (rule allocate_Inr_free)
  then show ?thesis using assms
    by (auto simp: reserve_port_def Let_def split: option.splits if_splits sum.splits)
qed

interpretation ports: exclusive_claims "\<lambda>reg. fset (rg_reserved_ports reg)" port_claim release_reserved_port
  by unfold_locales
    (auto simp: port_claim_def release_reserved_port_def dest!: reserve_port_granted
      split: prod.splits sum.splits)

interpretation names: exclusive_claims "\<lambda>reg. fset (rg_reserved_names reg)" "name_claim lower" drop_name
  for lower :: "string \<Rightarrow> string"
  by unfold_locales
    (auto simp: name_claim_def try_reserve_name_def drop_name_def Let_def split: if_splits)

text \<open>
  C24. Over any interleaving of port reservations, requested or allocated, and releases, the
  ports held by launches in flight are pairwise distinct and exactly the registry's reserved
  set; and a port is only ever granted when the OS lets it be bound and no live launch the
  caller names has it.
\<close>

theorem ports_in_flight_distinct:
  assumes "claim_run port_claim release_reserved_port ops (new_registry, []) = (reg, held)"
  shows "distinct held \<and> fset (rg_reserved_ports reg) = set held
    \<and> (\<forall>tb requested live rng p reg'. reserve_port tb requested live rng reg = (Inr p, reg') \<longrightarrow>
         p \<notin> set held \<and> p \<notin> set live \<and> tb p \<and> rg_reserved_ports reg' = finsert p (rg_reserved_ports reg))"
proof -
  have "distinct held \<and> fset (rg_reserved_ports reg) = set held \<union> {} \<and> set held \<inter> {} = {}"
    by (rule ports.claim_run_distinct [OF _ _ _ assms]) (simp_all add: new_registry_def)
  then have held: "distinct held" "fset (rg_reserved_ports reg) = set held" by simp_all
  have "p \<notin> set held \<and> p \<notin> set live \<and> tb p \<and> rg_reserved_ports reg' = finsert p (rg_reserved_ports reg)"
    if "reserve_port tb requested live rng reg = (Inr p, reg')" for tb requested live rng p reg'
    using reserve_port_granted [OF that] by (simp flip: held(2))
  with held show ?thesis by blast
qed

lemma ports_in_flight_distinct_witness:
  "\<exists>reg. claim_run port_claim release_reserved_port
     [Claim (\<lambda>_. True, Some 7, [], \<lparr>pr_start = 5, pr_end = 9\<rparr>),
      Claim (\<lambda>_. True, Some 7, [], \<lparr>pr_start = 5, pr_end = 9\<rparr>), GiveBack 0,
      Claim (\<lambda>_. True, Some 7, [], \<lparr>pr_start = 5, pr_end = 9\<rparr>)] (new_registry :: unit registry, []) = (reg, [7])
     \<and> fset (rg_reserved_ports reg) = {7}"
proof -
  let ?c = "Claim (\<lambda>_. True, Some 7, [], \<lparr>pr_start = 5, pr_end = 9\<rparr>)"
  have run: "claim_run port_claim release_reserved_port [?c, ?c, GiveBack 0, ?c] (new_registry :: unit registry, [])
      = (new_registry\<lparr>rg_reserved_ports := {|7|}\<rparr>, [7])"
    by (simp add: port_claim_def reserve_port_def new_registry_def release_reserved_port_def)
  from ports_in_flight_distinct [OF run] run show ?thesis by auto
qed

text \<open>
  Of concurrent spawns of one model, at most one holds a given name, up to letter case:
  the held names are distinct under any interleaving of claims and dropped guards, a claim is
  refused exactly when the lower-cased name is held for that model, and dropping the guard
  frees it.
\<close>

theorem names_exclusive:
  assumes "claim_run (name_claim lower) drop_name ops (new_registry, []) = (reg, held)"
  shows "distinct held
    \<and> (try_reserve_name lower path name reg = None \<longleftrightarrow> (path, lower name) \<in> set held)
    \<and> (lower name = lower name' \<longrightarrow>
         (\<forall>key reg'. try_reserve_name lower path name reg = Some (key, reg') \<longrightarrow>
            try_reserve_name lower path name' reg' = None
            \<and> try_reserve_name lower path name' (drop_name key reg') \<noteq> None))"
proof -
  have "distinct held \<and> fset (rg_reserved_names reg) = set held \<union> {} \<and> set held \<inter> {} = {}"
    by (rule names.claim_run_distinct [OF _ _ _ assms]) (simp_all add: new_registry_def)
  then show ?thesis by (auto simp: try_reserve_name_def drop_name_def Let_def split: if_splits)
qed

lemma names_exclusive_witness:
  "\<exists>reg. claim_run (name_claim ascii_lower) drop_name
       [Claim (''/m.gguf'', ''Coder''), Claim (''/m.gguf'', ''coder'')] (new_registry :: unit registry, [])
       = (reg, [(''/m.gguf'', ''coder'')])
     \<and> try_reserve_name ascii_lower ''/m.gguf'' ''CODER'' reg = None"
proof -
  have lower: "ascii_lower ''Coder'' = ''coder''" "ascii_lower ''CODER'' = ''coder''"
    "ascii_lower ''coder'' = ''coder''" by code_simp+
  have run: "claim_run (name_claim ascii_lower) drop_name
       [Claim (''/m.gguf'', ''Coder''), Claim (''/m.gguf'', ''coder'')] (new_registry :: unit registry, [])
       = (new_registry\<lparr>rg_reserved_names := {|(''/m.gguf'', ''coder'')|}\<rparr>, [(''/m.gguf'', ''coder'')])"
    by (simp add: name_claim_def try_reserve_name_def new_registry_def lower Let_def)
  have "try_reserve_name ascii_lower ''/m.gguf'' ''CODER''
      (new_registry\<lparr>rg_reserved_names := {|(''/m.gguf'', ''coder'')|}\<rparr> :: unit registry) = None"
    using conjunct1 [OF conjunct2 [OF names_exclusive [OF run, of "''/m.gguf''" "''CODER''"]]]
    by (simp add: lower)
  with run show ?thesis by blast
qed

subsection \<open>Launch ids\<close>

fun take_ids :: "nat \<Rightarrow> 'm registry \<Rightarrow> string list" where
  "take_ids 0 reg = []"
| "take_ids (Suc n) reg = (let (i, reg') = next_id reg in i # take_ids n reg')"

lemma launch_counter_from_counter: "n \<le> u64_max \<Longrightarrow> launch_counter (from_counter n) = Some n"
  by (simp add: from_counter_def parse_unsigned_show_nat)

lemma take_ids_eq:
  "rg_counter reg + n < 2 ^ 64 \<Longrightarrow>
     take_ids n reg = map from_counter [Suc (rg_counter reg)..<Suc (rg_counter reg + n)]"
proof (induction n arbitrary: reg)
  case (Suc n)
  have "take_ids n (reg\<lparr>rg_counter := rg_counter reg + 1\<rparr>) =
      map from_counter [Suc (rg_counter reg + 1)..<Suc (rg_counter reg + 1 + n)]"
    using Suc.IH [of "reg\<lparr>rg_counter := rg_counter reg + 1\<rparr>"] Suc.prems by simp
  then show ?case using Suc.prems
    by (simp add: next_id_def upt_conv_Cons [of "Suc (rg_counter reg)"] del: upt_Suc)
qed simp

text \<open>
  Launch ids never repeat within a daemon's lifetime (its first \<open>2^64 - 1\<close> launches),
  and each id names its counter.
\<close>

theorem launch_ids_distinct:
  assumes "n < 2 ^ 64"
  shows "distinct (take_ids n new_registry)
    \<and> map launch_counter (take_ids n new_registry) = map Some [1..<Suc n]"
proof -
  have ids: "take_ids n new_registry = map from_counter [1..<Suc n]"
    using assms take_ids_eq [of new_registry n] by (simp add: new_registry_def del: upt_Suc)
  have c: "map launch_counter (map from_counter [1..<Suc n]) = map Some [1..<Suc n]"
    using assms by (auto simp: launch_counter_from_counter u64_max_def simp del: upt_Suc)
  have "distinct (map Some [1..<Suc n])" by (simp add: distinct_map del: upt_Suc)
  then have "distinct (map launch_counter (map from_counter [1..<Suc n]))" by (simp only: c)
  then have "distinct (map from_counter [1..<Suc n])" by (rule distinct_map [THEN iffD1, THEN conjunct1])
  with c show ?thesis by (simp only: ids)
qed

lemma launch_ids_distinct_witness: "distinct (take_ids 3 new_registry)"
  by (rule conjunct1 [OF launch_ids_distinct]) simp

end
