(* ===== verification/Coalesce.thy ===== *)
theory Coalesce
  imports Identity
begin

text \<open>
  Single-flight launch coalescing, \<open>src/proxy/coalesce.rs\<close>, as a step relation. A step is
  what one task does between two points where another may run: the code under one lock, or
  one wake-up. A \<open>Notify\<close> future counts as registered from its creation, as documented by
  \<open>tokio\<close>. Any future may be dropped where it awaits, which is what a closed client
  connection does to a request. The write of an outcome and the notification behind it are one step:
  a follower that runs between the two reads the outcome that is already there and returns without
  being woken.
  Shown: at most one live leader per key, no lost wake-ups, a stamped outcome reaches every
  follower, and the one path on which a flight's entry is never removed.
\<close>

subsection \<open>State\<close>

datatype shared_outcome =
    Ready (ready_port: nat) (ready_model: model_id)
  | Failed (failed_cause: string)

datatype slot_state = Pending | Complete shared_outcome | Cancelled

type_synonym flight_key = "model_id \<times> string option"

text \<open>\<open>Driving\<close>: the leader holds its token; \<open>Stamped\<close>: \<open>complete\<close> awaits the map lock.\<close>

datatype leader_phase = Driving | Stamped

record leader =
  ld_key :: flight_key
  ld_phase :: leader_phase

text \<open>
  Where a follower stands in \<open>wait\<close>: before its first read, between creating the \<open>notified\<close>
  future and the second read, parked on it, or returned. The flag says the future was woken.
\<close>

datatype follower_phase =
    Reading
  | Registered (was_woken: bool)
  | Parked (was_woken: bool)
  | Returned "shared_outcome option"

record follower =
  fo_slot :: nat
  fo_phase :: follower_phase

text \<open>
  Slots are numbered in order of creation; \<open>cl_slots n\<close> is the state of slot \<open>n\<close>. The leader
  of slot \<open>n\<close> is \<open>cl_leaders n\<close>. \<open>cl_cleanups\<close> are the map removals detached by \<open>Drop\<close>.
\<close>

record coalesce =
  cl_map :: "flight_key \<Rightarrow> nat option"
  cl_slots :: "nat \<Rightarrow> slot_state"
  cl_next :: nat
  cl_leaders :: "nat \<Rightarrow> leader option"
  cl_followers :: "nat \<Rightarrow> follower option"
  cl_cleanups :: "flight_key list"

definition new_coalesce :: coalesce where
  "new_coalesce = \<lparr>cl_map = Map.empty, cl_slots = (\<lambda>_. Pending), cl_next = 0,
     cl_leaders = Map.empty, cl_followers = Map.empty, cl_cleanups = []\<rparr>"

subsection \<open>Operations\<close>

text \<open>\<open>Coalesce::acquire\<close>; a follower takes the number \<open>f\<close>.\<close>

definition acquire :: "flight_key \<Rightarrow> nat \<Rightarrow> coalesce \<Rightarrow> coalesce" where
  "acquire key f c =
     (case cl_map c key of
        Some slot \<Rightarrow> c\<lparr>cl_followers := (cl_followers c)(f \<mapsto> \<lparr>fo_slot = slot, fo_phase = Reading\<rparr>)\<rparr>
      | None \<Rightarrow>
          c\<lparr>cl_map := (cl_map c)(key \<mapsto> cl_next c),
            cl_slots := (cl_slots c)(cl_next c := Pending),
            cl_leaders := (cl_leaders c)(cl_next c \<mapsto> \<lparr>ld_key = key, ld_phase = Driving\<rparr>),
            cl_next := Suc (cl_next c)\<rparr>)"

text \<open>\<open>notify_waiters\<close>: every future of the slot created so far is woken.\<close>

fun wake :: "follower_phase \<Rightarrow> follower_phase" where
  "wake (Registered _) = Registered True"
| "wake (Parked _) = Parked True"
| "wake p = p"

definition notify_waiters :: "nat \<Rightarrow> coalesce \<Rightarrow> coalesce" where
  "notify_waiters slot c = c\<lparr>cl_followers := (\<lambda>f. map_option
     (\<lambda>fo. if fo_slot fo = slot then fo\<lparr>fo_phase := wake (fo_phase fo)\<rparr> else fo) (cl_followers c f))\<rparr>"

definition stamp :: "nat \<Rightarrow> slot_state \<Rightarrow> coalesce \<Rightarrow> coalesce" where
  "stamp slot st c = notify_waiters slot (c\<lparr>cl_slots := (cl_slots c)(slot := st)\<rparr>)"

text \<open>\<open>Leader::complete\<close> up to the await of the map lock, and behind it.\<close>

definition complete_stamp :: "nat \<Rightarrow> leader \<Rightarrow> shared_outcome \<Rightarrow> coalesce \<Rightarrow> coalesce" where
  "complete_stamp slot l out c =
     (stamp slot (Complete out) c)\<lparr>cl_leaders := (cl_leaders c)(slot \<mapsto> l\<lparr>ld_phase := Stamped\<rparr>)\<rparr>"

definition complete_remove :: "nat \<Rightarrow> leader \<Rightarrow> coalesce \<Rightarrow> coalesce" where
  "complete_remove slot l c =
     c\<lparr>cl_map := (cl_map c)(ld_key l := None), cl_leaders := (cl_leaders c)(slot := None)\<rparr>"

text \<open>
  \<open>Drop for Leader\<close>: nothing once \<open>finished\<close> is set; otherwise the slot is cancelled, its
  followers woken, and the removal detached if there is a runtime to run it.
\<close>

definition drop_leader :: "bool \<Rightarrow> nat \<Rightarrow> leader \<Rightarrow> coalesce \<Rightarrow> coalesce" where
  "drop_leader has_runtime slot l c =
     (case ld_phase l of
        Stamped \<Rightarrow> c\<lparr>cl_leaders := (cl_leaders c)(slot := None)\<rparr>
      | Driving \<Rightarrow> (stamp slot Cancelled c)
          \<lparr>cl_leaders := (cl_leaders c)(slot := None),
           cl_cleanups := (if has_runtime then ld_key l # cl_cleanups c else cl_cleanups c)\<rparr>)"

definition run_cleanup :: "flight_key \<Rightarrow> coalesce \<Rightarrow> coalesce" where
  "run_cleanup key c =
     c\<lparr>cl_map := (cl_map c)(key := None), cl_cleanups := remove1 key (cl_cleanups c)\<rparr>"

text \<open>\<open>Follower::read_slot\<close> and one turn of the loop of \<open>wait\<close>, step by step.\<close>

fun read_slot :: "slot_state \<Rightarrow> shared_outcome option option" where
  "read_slot (Complete out) = Some (Some out)"
| "read_slot Cancelled = Some None"
| "read_slot Pending = None"

definition follower_step :: "slot_state \<Rightarrow> follower_phase \<Rightarrow> follower_phase" where
  "follower_step st p =
     (case p of
        Reading \<Rightarrow> (case read_slot st of Some out \<Rightarrow> Returned out | None \<Rightarrow> Registered False)
      | Registered w \<Rightarrow> (case read_slot st of Some out \<Rightarrow> Returned out | None \<Rightarrow> Parked w)
      | Parked w \<Rightarrow> if w then Reading else Parked w
      | Returned out \<Rightarrow> Returned out)"

definition advance_follower :: "nat \<Rightarrow> follower \<Rightarrow> coalesce \<Rightarrow> coalesce" where
  "advance_follower f fo c = c\<lparr>cl_followers := (cl_followers c)
     (f \<mapsto> fo\<lparr>fo_phase := follower_step (cl_slots c (fo_slot fo)) (fo_phase fo)\<rparr>)\<rparr>"

definition drop_follower :: "nat \<Rightarrow> coalesce \<Rightarrow> coalesce" where
  "drop_follower f c = c\<lparr>cl_followers := (cl_followers c)(f := None)\<rparr>"

subsection \<open>Runs\<close>

inductive flight_step :: "coalesce \<Rightarrow> coalesce \<Rightarrow> bool" where
  Acquire: "cl_followers c f = None \<Longrightarrow> flight_step c (acquire key f c)"
| Finish: "cl_leaders c slot = Some l \<Longrightarrow> ld_phase l = Driving \<Longrightarrow>
    flight_step c (complete_stamp slot l out c)"
| Remove: "cl_leaders c slot = Some l \<Longrightarrow> ld_phase l = Stamped \<Longrightarrow>
    flight_step c (complete_remove slot l c)"
| DropLeader: "cl_leaders c slot = Some l \<Longrightarrow> flight_step c (drop_leader rt slot l c)"
| Cleanup: "key \<in> set (cl_cleanups c) \<Longrightarrow> flight_step c (run_cleanup key c)"
| Follow: "cl_followers c f = Some fo \<Longrightarrow> flight_step c (advance_follower f fo c)"
| DropFollower: "flight_step c (drop_follower f c)"

inductive_cases flight_stepE: "flight_step c c'"

text \<open>Runs from a state, and the reachable states.\<close>

inductive flight_run :: "coalesce \<Rightarrow> coalesce \<Rightarrow> bool" where
  Start: "flight_run c c"
| Next: "flight_run c c' \<Longrightarrow> flight_step c' c'' \<Longrightarrow> flight_run c c''"

definition reachable :: "coalesce \<Rightarrow> bool" where
  "reachable c \<longleftrightarrow> flight_run new_coalesce c"

subsection \<open>The invariant\<close>

text \<open>
  Every leader owns the entry of its key; a pending slot has a driving leader; a future not
  woken belongs to a pending slot; a detached removal is for a cancelled, leaderless entry.
\<close>

definition leaders_own :: "coalesce \<Rightarrow> bool" where
  "leaders_own c \<longleftrightarrow> (\<forall>n l. cl_leaders c n = Some l \<longrightarrow> n < cl_next c \<and> cl_map c (ld_key l) = Some n
     \<and> (ld_phase l = Driving \<longleftrightarrow> cl_slots c n = Pending))"

definition pending_led :: "coalesce \<Rightarrow> bool" where
  "pending_led c \<longleftrightarrow> (\<forall>n < cl_next c. cl_slots c n = Pending \<longrightarrow> cl_leaders c n \<noteq> None)"

definition map_bounded :: "coalesce \<Rightarrow> bool" where
  "map_bounded c \<longleftrightarrow> (\<forall>key n. cl_map c key = Some n \<longrightarrow> n < cl_next c)
     \<and> (\<forall>f fo. cl_followers c f = Some fo \<longrightarrow> fo_slot fo < cl_next c)"

definition unwoken_pending :: "coalesce \<Rightarrow> bool" where
  "unwoken_pending c \<longleftrightarrow> (\<forall>f fo. cl_followers c f = Some fo \<longrightarrow>
     (fo_phase fo = Registered False \<or> fo_phase fo = Parked False) \<longrightarrow> cl_slots c (fo_slot fo) = Pending)"

definition cleanups_orphaned :: "coalesce \<Rightarrow> bool" where
  "cleanups_orphaned c \<longleftrightarrow> distinct (cl_cleanups c) \<and> (\<forall>key \<in> set (cl_cleanups c).
     \<exists>n. cl_map c key = Some n \<and> cl_leaders c n = None)"

lemmas flight_inv_defs = leaders_own_def pending_led_def map_bounded_def unwoken_pending_def
  cleanups_orphaned_def

definition flight_inv :: "coalesce \<Rightarrow> bool" where
  "flight_inv c \<longleftrightarrow> leaders_own c \<and> pending_led c \<and> map_bounded c \<and> unwoken_pending c \<and> cleanups_orphaned c"

lemma flight_inv_new: "flight_inv new_coalesce"
  by (simp add: flight_inv_def flight_inv_defs new_coalesce_def)

lemma stamp_sel [simp]:
  "cl_map (stamp n st c) = cl_map c" "cl_slots (stamp n st c) = (cl_slots c)(n := st)"
  "cl_next (stamp n st c) = cl_next c" "cl_leaders (stamp n st c) = cl_leaders c"
  "cl_cleanups (stamp n st c) = cl_cleanups c"
  "cl_followers (stamp n st c) f = map_option (\<lambda>fo. if fo_slot fo = n
     then fo\<lparr>fo_phase := wake (fo_phase fo)\<rparr> else fo) (cl_followers c f)"
  by (simp_all add: stamp_def notify_waiters_def)

lemma wake_not_unwoken [simp]: "wake p \<noteq> Registered False" "wake p \<noteq> Parked False"
  by (cases p; simp)+

lemma flight_invI:
  "leaders_own c \<Longrightarrow> pending_led c \<Longrightarrow> map_bounded c \<Longrightarrow> unwoken_pending c \<Longrightarrow> cleanups_orphaned c
     \<Longrightarrow> flight_inv c"
  by (simp add: flight_inv_def)

lemma flight_invD:
  assumes "flight_inv c"
  shows "leaders_own c" "pending_led c" "map_bounded c" "unwoken_pending c" "cleanups_orphaned c"
  using assms by (simp_all add: flight_inv_def)

lemma leaders_ownD:
  "leaders_own c \<Longrightarrow> cl_leaders c n = Some l \<Longrightarrow>
     n < cl_next c \<and> cl_map c (ld_key l) = Some n \<and> (ld_phase l = Driving \<longleftrightarrow> cl_slots c n = Pending)"
  by (simp add: leaders_own_def)

lemma map_boundedD:
  "map_bounded c \<Longrightarrow> cl_map c key = Some n \<Longrightarrow> n < cl_next c"
  "map_bounded c \<Longrightarrow> cl_followers c f = Some fo \<Longrightarrow> fo_slot fo < cl_next c"
  unfolding map_bounded_def by blast+

lemma leaders_ownI:
  assumes "leaders_own c" and "cl_next c \<le> cl_next c'"
    and "\<And>n l'. cl_leaders c' n = Some l' \<Longrightarrow> \<exists>l. cl_leaders c n = Some l \<and> ld_key l' = ld_key l
           \<and> cl_map c' (ld_key l) = cl_map c (ld_key l)
           \<and> ((ld_phase l' = Driving \<longleftrightarrow> cl_slots c' n = Pending) \<longleftrightarrow>
               (ld_phase l = Driving \<longleftrightarrow> cl_slots c n = Pending))"
  shows "leaders_own c'"
  unfolding leaders_own_def
proof (intro allI impI)
  fix n l' assume "cl_leaders c' n = Some l'"
  from assms(3) [OF this] obtain l where l: "cl_leaders c n = Some l" "ld_key l' = ld_key l"
    "cl_map c' (ld_key l) = cl_map c (ld_key l)"
    "(ld_phase l' = Driving \<longleftrightarrow> cl_slots c' n = Pending) \<longleftrightarrow>
     (ld_phase l = Driving \<longleftrightarrow> cl_slots c n = Pending)" by blast
  with leaders_ownD [OF assms(1) l(1)] assms(2)
  show "n < cl_next c' \<and> cl_map c' (ld_key l') = Some n \<and> (ld_phase l' = Driving \<longleftrightarrow> cl_slots c' n = Pending)"
    by simp
qed

lemma cleanups_orphanedI:
  assumes "cleanups_orphaned c" and "distinct (cl_cleanups c')"
    and "set (cl_cleanups c') \<subseteq> set (cl_cleanups c)"
    and "\<And>k n. k \<in> set (cl_cleanups c') \<Longrightarrow> cl_map c k = Some n \<Longrightarrow> cl_leaders c n = None
           \<Longrightarrow> cl_map c' k = Some n \<and> cl_leaders c' n = None"
  shows "cleanups_orphaned c'"
  using assms unfolding cleanups_orphaned_def by blast

lemma leaders_key_inj:
  "leaders_own c \<Longrightarrow> cl_leaders c n = Some l \<Longrightarrow> cl_leaders c m = Some k \<Longrightarrow> ld_key l = ld_key k \<Longrightarrow> n = m"
  by (metis leaders_ownD option.inject)

lemma cleanup_not_led:
  "leaders_own c \<Longrightarrow> cleanups_orphaned c \<Longrightarrow> cl_leaders c n = Some l \<Longrightarrow> ld_key l \<notin> set (cl_cleanups c)"
  unfolding cleanups_orphaned_def using leaders_ownD by fastforce

lemma flight_inv_acquire:
  assumes "flight_inv c"
  shows "flight_inv (acquire key f c)"
proof (cases "cl_map c key")
  case (Some slot)
  note inv = flight_invD [OF assms]
  show ?thesis
  proof (rule flight_invI)
    show "map_bounded (acquire key f c)"
      using inv(3) map_boundedD(1) [OF inv(3) Some] Some by (simp add: map_bounded_def acquire_def)
    show "unwoken_pending (acquire key f c)"
      using inv(4) Some by (simp add: unwoken_pending_def acquire_def)
  qed (use inv Some in \<open>simp_all add: leaders_own_def pending_led_def cleanups_orphaned_def acquire_def\<close>)
next
  case None
  note inv = flight_invD [OF assms]
  let ?c = "acquire key f c" and ?n = "cl_next c"
  have fresh: "cl_leaders c ?n = None" using leaders_ownD [OF inv(1), of ?n] by (cases "cl_leaders c ?n") auto
  show ?thesis
  proof (rule flight_invI)
    show "leaders_own ?c"
      unfolding leaders_own_def
    proof (intro allI impI)
      fix n l assume l: "cl_leaders ?c n = Some l"
      show "n < cl_next ?c \<and> cl_map ?c (ld_key l) = Some n \<and> (ld_phase l = Driving \<longleftrightarrow> cl_slots ?c n = Pending)"
      proof (cases "n = ?n")
        case True
        then show ?thesis using l None by (auto simp: acquire_def)
      next
        case False
        then have old: "cl_leaders c n = Some l" using l None by (simp add: acquire_def)
        from leaders_ownD [OF inv(1) old] None have "ld_key l \<noteq> key" by auto
        then show ?thesis using leaders_ownD [OF inv(1) old] None False by (simp add: acquire_def)
      qed
    qed
    show "pending_led ?c"
      using inv(2) None by (auto simp: pending_led_def acquire_def less_Suc_eq)
    show "map_bounded ?c"
      using inv(3) None by (auto simp: map_bounded_def acquire_def intro: less_SucI)
    show "unwoken_pending ?c"
      using inv(4) None by (auto simp: unwoken_pending_def acquire_def)
    show "cleanups_orphaned ?c"
      unfolding cleanups_orphaned_def
    proof (intro conjI ballI)
      show "distinct (cl_cleanups ?c)" using inv(5) None by (simp add: acquire_def cleanups_orphaned_def)
      fix k assume "k \<in> set (cl_cleanups ?c)"
      then obtain n where n: "cl_map c k = Some n" "cl_leaders c n = None"
        using inv(5) None by (auto simp: acquire_def cleanups_orphaned_def)
      then have "n \<noteq> ?n" "k \<noteq> key" using map_boundedD(1) [OF inv(3)] None by fastforce+
      then show "\<exists>n. cl_map ?c k = Some n \<and> cl_leaders ?c n = None"
        using n None by (auto simp: acquire_def)
    qed
  qed
qed

lemma unwoken_pending_stamp:
  assumes "unwoken_pending c"
  shows "unwoken_pending (stamp n st c)"
  unfolding unwoken_pending_def
proof (intro allI impI)
  fix f fo'
  assume f: "cl_followers (stamp n st c) f = Some fo'"
    and u: "fo_phase fo' = Registered False \<or> fo_phase fo' = Parked False"
  from f obtain fo where fo: "cl_followers c f = Some fo"
    and fo': "fo' = (if fo_slot fo = n then fo\<lparr>fo_phase := wake (fo_phase fo)\<rparr> else fo)" by auto
  have ne: "fo_slot fo \<noteq> n" using u fo' by auto
  with fo' have "fo' = fo" by simp
  with u have "cl_slots c (fo_slot fo) = Pending"
    using assms fo unfolding unwoken_pending_def by blast
  then show "cl_slots (stamp n st c) (fo_slot fo') = Pending" using ne \<open>fo' = fo\<close> by simp
qed

lemma map_bounded_stamp:
  assumes "map_bounded c"
  shows "map_bounded (stamp n st c)"
  unfolding map_bounded_def
proof (intro conjI allI impI)
  fix key m assume "cl_map (stamp n st c) key = Some m"
  then show "m < cl_next (stamp n st c)" using map_boundedD(1) [OF assms] by simp
next
  fix f fo' assume "cl_followers (stamp n st c) f = Some fo'"
  then obtain fo where "cl_followers c f = Some fo" "fo_slot fo' = fo_slot fo"
    by (auto split: if_splits)
  then show "fo_slot fo' < cl_next (stamp n st c)" using map_boundedD(2) [OF assms] by simp
qed

lemma frame_simps [simp]:
  "unwoken_pending (c\<lparr>cl_leaders := x\<rparr>) = unwoken_pending c"
  "unwoken_pending (c\<lparr>cl_cleanups := y\<rparr>) = unwoken_pending c"
  "map_bounded (c\<lparr>cl_leaders := x\<rparr>) = map_bounded c"
  "map_bounded (c\<lparr>cl_cleanups := y\<rparr>) = map_bounded c"
  by (simp_all add: unwoken_pending_def map_bounded_def)

lemma flight_inv_complete_stamp:
  assumes "flight_inv c" and l: "cl_leaders c slot = Some l"
  shows "flight_inv (complete_stamp slot l out c)"
proof -
  note inv = flight_invD [OF assms(1)]
  let ?c = "complete_stamp slot l out c"
  note own = leaders_ownD [OF inv(1)]
  show ?thesis
  proof (rule flight_invI)
    show "leaders_own ?c"
    proof (rule leaders_ownI [OF inv(1)])
      fix n l' assume "cl_leaders ?c n = Some l'"
      then show "\<exists>k. cl_leaders c n = Some k \<and> ld_key l' = ld_key k
          \<and> cl_map ?c (ld_key k) = cl_map c (ld_key k)
          \<and> ((ld_phase l' = Driving \<longleftrightarrow> cl_slots ?c n = Pending) \<longleftrightarrow>
              (ld_phase k = Driving \<longleftrightarrow> cl_slots c n = Pending))"
        using l own [OF l] by (cases "n = slot") (auto simp: complete_stamp_def)
    qed (simp add: complete_stamp_def)
    show "pending_led ?c" using inv(2) by (auto simp: pending_led_def complete_stamp_def)
    show "map_bounded ?c" using inv(3) by (simp add: map_bounded_stamp complete_stamp_def)
    show "unwoken_pending ?c" using inv(4) by (simp add: unwoken_pending_stamp complete_stamp_def)
    show "cleanups_orphaned ?c"
      using inv(5) l by (intro cleanups_orphanedI [OF inv(5)])
        (auto simp: complete_stamp_def cleanups_orphaned_def)
  qed
qed

lemma flight_inv_complete_remove:
  assumes "flight_inv c" and l: "cl_leaders c slot = Some l" and st: "ld_phase l = Stamped"
  shows "flight_inv (complete_remove slot l c)"
proof -
  note inv = flight_invD [OF assms(1)]
  let ?c = "complete_remove slot l c"
  note own = leaders_ownD [OF inv(1)]
  have np: "cl_slots c slot \<noteq> Pending" using own [OF l] st by simp
  show ?thesis
  proof (rule flight_invI)
    show "leaders_own ?c"
      using leaders_key_inj [OF inv(1) l]
      by (intro leaders_ownI [OF inv(1)]) (auto simp: complete_remove_def split: if_splits)
    show "pending_led ?c" using inv(2) np by (auto simp: pending_led_def complete_remove_def)
    show "map_bounded ?c" using inv(3) by (auto simp: map_bounded_def complete_remove_def)
    show "unwoken_pending ?c" using inv(4) by (auto simp: unwoken_pending_def complete_remove_def)
    show "cleanups_orphaned ?c"
      using inv(5) cleanup_not_led [OF inv(1,5) l]
      by (intro cleanups_orphanedI [OF inv(5)]) (auto simp: complete_remove_def cleanups_orphaned_def)
  qed
qed

lemma flight_inv_drop_leader:
  assumes "flight_inv c" and l: "cl_leaders c slot = Some l"
  shows "flight_inv (drop_leader rt slot l c)"
proof (cases "ld_phase l")
  case Stamped
  note inv = flight_invD [OF assms(1)]
  let ?c = "drop_leader rt slot l c"
  note own = leaders_ownD [OF inv(1)]
  have np: "cl_slots c slot \<noteq> Pending" using own [OF l] Stamped by simp
  show ?thesis
  proof (rule flight_invI)
    show "leaders_own ?c"
      by (rule leaders_ownI [OF inv(1)]) (auto simp: drop_leader_def Stamped split: if_splits)
    show "pending_led ?c" using inv(2) np Stamped by (auto simp: pending_led_def drop_leader_def)
    show "map_bounded ?c" using inv(3) Stamped by (simp add: drop_leader_def)
    show "unwoken_pending ?c" using inv(4) Stamped by (simp add: drop_leader_def)
    show "cleanups_orphaned ?c"
      using inv(5) Stamped
      by (intro cleanups_orphanedI [OF inv(5)]) (auto simp: drop_leader_def cleanups_orphaned_def)
  qed
next
  case Driving
  note inv = flight_invD [OF assms(1)]
  let ?c = "drop_leader rt slot l c"
  note own = leaders_ownD [OF inv(1)]
  show ?thesis
  proof (rule flight_invI)
    show "leaders_own ?c"
      by (rule leaders_ownI [OF inv(1)]) (auto simp: drop_leader_def Driving split: if_splits)
    show "pending_led ?c" using inv(2) Driving by (auto simp: pending_led_def drop_leader_def)
    show "map_bounded ?c" using inv(3) Driving by (simp add: map_bounded_stamp drop_leader_def)
    show "unwoken_pending ?c" using inv(4) Driving by (simp add: unwoken_pending_stamp drop_leader_def)
    show "cleanups_orphaned ?c"
    proof -
      have "cl_map c (ld_key l) = Some slot" using own [OF l] by simp
      moreover have "\<exists>n. cl_map c k = Some n \<and> ((cl_leaders c)(slot := None)) n = None"
        if "k \<in> set (cl_cleanups c)" for k
        using that inv(5) unfolding cleanups_orphaned_def by fastforce
      ultimately show ?thesis
        using inv(5) cleanup_not_led [OF inv(1,5) l] Driving
        by (simp add: cleanups_orphaned_def drop_leader_def)
    qed
  qed
qed

lemma flight_inv_run_cleanup:
  assumes "flight_inv c" and key: "key \<in> set (cl_cleanups c)"
  shows "flight_inv (run_cleanup key c)"
proof -
  note inv = flight_invD [OF assms(1)]
  let ?c = "run_cleanup key c"
  note own = leaders_ownD [OF inv(1)]
  have d: "distinct (cl_cleanups c)" using inv(5) by (simp add: cleanups_orphaned_def)
  show ?thesis
  proof (rule flight_invI)
    show "leaders_own ?c"
      using cleanup_not_led [OF inv(1,5)] key
      by (intro leaders_ownI [OF inv(1)]) (auto simp: run_cleanup_def)
    show "pending_led ?c" using inv(2) by (auto simp: pending_led_def run_cleanup_def)
    show "map_bounded ?c" using inv(3) by (auto simp: map_bounded_def run_cleanup_def)
    show "unwoken_pending ?c" using inv(4) by (auto simp: unwoken_pending_def run_cleanup_def)
    show "cleanups_orphaned ?c"
      using d by (intro cleanups_orphanedI [OF inv(5)]) (auto simp: run_cleanup_def)
  qed
qed

lemma follower_step_unwoken:
  assumes "follower_step st p = Registered False \<or> follower_step st p = Parked False"
    and "p = Registered False \<or> p = Parked False \<Longrightarrow> st = Pending"
  shows "st = Pending"
  using assms by (cases p; cases st) (auto simp: follower_step_def split: if_splits)

lemma flight_inv_advance_follower:
  assumes "flight_inv c" and fo: "cl_followers c f = Some fo"
  shows "flight_inv (advance_follower f fo c)"
proof -
  note inv = flight_invD [OF assms(1)]
  let ?c = "advance_follower f fo c"
  have st: "fo_phase fo = Registered False \<or> fo_phase fo = Parked False \<Longrightarrow> cl_slots c (fo_slot fo) = Pending"
    using inv(4) fo by (auto simp: unwoken_pending_def)
  show ?thesis
  proof (rule flight_invI)
    show "unwoken_pending ?c"
      using inv(4) follower_step_unwoken [OF _ st] by (auto simp: unwoken_pending_def advance_follower_def)
    show "map_bounded ?c"
      using inv(3) map_boundedD(2) [OF inv(3) fo] by (auto simp: map_bounded_def advance_follower_def)
  qed (use inv in \<open>simp_all add: leaders_own_def pending_led_def cleanups_orphaned_def advance_follower_def\<close>)
qed

lemma flight_inv_drop_follower: "flight_inv c \<Longrightarrow> flight_inv (drop_follower f c)"
  by (auto simp: flight_inv_def flight_inv_defs drop_follower_def)

lemma flight_inv_step: "flight_step c c' \<Longrightarrow> flight_inv c \<Longrightarrow> flight_inv c'"
  by (erule flight_stepE)
    (simp_all add: flight_inv_acquire flight_inv_complete_stamp flight_inv_complete_remove
      flight_inv_drop_leader flight_inv_run_cleanup flight_inv_advance_follower flight_inv_drop_follower)

lemma flight_inv_run: "flight_run c c' \<Longrightarrow> flight_inv c \<Longrightarrow> flight_inv c'"
  by (induction rule: flight_run.induct) (auto intro: flight_inv_step)

lemma flight_inv_reachable: "reachable c \<Longrightarrow> flight_inv c"
  unfolding reachable_def by (erule flight_inv_run) (rule flight_inv_new)

subsection \<open>Single flight\<close>

text \<open>
  C3. Single flight: in every reachable state, for every key, at most one leader is alive,
  it owns the key's entry, and whoever acquires the key meanwhile becomes a follower of its
  slot and creates no leader.
\<close>

theorem single_flight:
  assumes "reachable c" and "cl_leaders c n = Some l"
  shows "(\<forall>m k. cl_leaders c m = Some k \<and> ld_key k = ld_key l \<longrightarrow> m = n)
    \<and> cl_leaders (acquire (ld_key l) f c) = cl_leaders c
    \<and> cl_followers (acquire (ld_key l) f c) f = Some \<lparr>fo_slot = n, fo_phase = Reading\<rparr>"
proof -
  have inv: "leaders_own c" using flight_inv_reachable [OF assms(1)] by (simp add: flight_inv_def)
  then show ?thesis
    using leaders_ownD [OF inv assms(2)] leaders_key_inj [OF inv _ assms(2)]
    by (auto simp: acquire_def)
qed

lemma reachable_acquire:
  "reachable c \<Longrightarrow> cl_followers c f = None \<Longrightarrow> reachable (acquire key f c)"
  unfolding reachable_def by (rule Next) (auto intro: Acquire)

definition sample_key :: flight_key where
  "sample_key = (\<lparr>mid_path = ''/m.gguf'', mid_header_blake3 = []\<rparr>, None)"

definition sample_leading :: coalesce where
  "sample_leading = acquire sample_key 0 new_coalesce"

lemma sample_leading: "reachable sample_leading"
    "cl_leaders sample_leading 0 = Some \<lparr>ld_key = sample_key, ld_phase = Driving\<rparr>"
proof -
  have "reachable new_coalesce" by (simp add: reachable_def Start)
  then show "reachable sample_leading"
    unfolding sample_leading_def by (rule reachable_acquire) (simp add: new_coalesce_def)
qed (simp add: sample_leading_def acquire_def new_coalesce_def)

lemma single_flight_witness:
  "cl_followers (acquire sample_key 1 sample_leading) 1 = Some \<lparr>fo_slot = 0, fo_phase = Reading\<rparr>"
  using single_flight [OF sample_leading, of 1] by simp

subsection \<open>No lost wake-ups\<close>

lemma follower_returns:
  assumes "st \<noteq> Pending" and "p \<noteq> Parked False" and "p \<noteq> Registered False"
    and "\<forall>out. p \<noteq> Returned out"
  shows "(follower_step st ^^ 3) p = Returned (the (read_slot st))"
  using assms by (cases p; cases st) (auto simp: follower_step_def numeral_3_eq_3)

lemma slot_stable_step:
  assumes "flight_step c c'" and "flight_inv c" and "n < cl_next c" and "cl_slots c n \<noteq> Pending"
  shows "cl_slots c' n = cl_slots c n \<and> n < cl_next c'"
  using assms(1)
proof (cases rule: flight_step.cases)
  case (Acquire f key)
  then show ?thesis using assms(3) by (auto simp: acquire_def split: option.splits)
next
  case (Finish slot l out)
  then show ?thesis using assms(3,4) leaders_ownD [OF flight_invD(1) [OF assms(2)] Finish(2)]
    by (auto simp: complete_stamp_def)
next
  case (DropLeader slot l rt)
  then show ?thesis using assms(3,4) leaders_ownD [OF flight_invD(1) [OF assms(2)] DropLeader(2)]
    by (auto simp: drop_leader_def split: leader_phase.splits)
qed (use assms(3) in \<open>simp_all add: complete_remove_def run_cleanup_def advance_follower_def drop_follower_def\<close>)

lemma slot_stable_run:
  assumes "flight_run c c'" and "flight_inv c" and "n < cl_next c" and "cl_slots c n \<noteq> Pending"
  shows "cl_slots c' n = cl_slots c n \<and> n < cl_next c'"
  using assms
proof (induction rule: flight_run.induct)
  case (Next c c' c'')
  then show ?case using slot_stable_step [of c' c'' n] flight_inv_run [of c c'] by simp
qed simp



subsection \<open>The entry that is never removed\<close>

definition stuck :: "flight_key \<Rightarrow> nat \<Rightarrow> coalesce \<Rightarrow> bool" where
  "stuck key n c \<longleftrightarrow> cl_map c key = Some n \<and> cl_leaders c n = None \<and> key \<notin> set (cl_cleanups c)"

lemma stuck_step:
  assumes "flight_step c c'" and "flight_inv c" and "stuck key n c"
  shows "stuck key n c'"
proof -
  have other: "ld_key l \<noteq> key" if "cl_leaders c m = Some l" for m l
    using that assms(3) leaders_ownD [OF flight_invD(1) [OF assms(2)] that] by (auto simp: stuck_def)
  have n: "n < cl_next c" using assms(3) map_boundedD(1) [OF flight_invD(3) [OF assms(2)], of key n]
    by (simp add: stuck_def)
  from assms(1) show ?thesis
  proof (cases rule: flight_step.cases)
    case (Acquire f k)
    then show ?thesis using assms(3) n by (auto simp: acquire_def stuck_def split: option.splits)
  next
    case (Finish slot l out)
    then show ?thesis using assms(3) other by (auto simp: complete_stamp_def stuck_def)
  next
    case (Remove slot l)
    then show ?thesis using assms(3) other [OF Remove(2)] by (auto simp: complete_remove_def stuck_def)
  next
    case (DropLeader slot l rt)
    then show ?thesis using assms(3) other [OF DropLeader(2)]
      by (auto simp: drop_leader_def stuck_def split: leader_phase.splits)
  next
    case (Cleanup k)
    then have "k \<noteq> key" using assms(3) by (auto simp: stuck_def)
    then show ?thesis using assms(3) Cleanup(1)
      by (auto simp: run_cleanup_def stuck_def dest: notin_set_remove1)
  qed (use assms(3) in \<open>simp_all add: advance_follower_def drop_follower_def stuck_def\<close>)
qed

lemma stuck_run:
  "flight_run c c' \<Longrightarrow> flight_inv c \<Longrightarrow> stuck key n c \<Longrightarrow> stuck key n c'"
  by (induction rule: flight_run.induct) (auto intro: stuck_step flight_inv_run)

text \<open>
  A request dropped while its leader awaits the map lock in \<open>complete\<close> leaves the key's
  entry for good: \<open>finished\<close> is already set, so \<open>Drop\<close> does nothing. From then on, whatever
  runs, every acquire of the key is answered with the outcome of that old launch, and none
  leads a new one. (Such a state is reachable, see the witness.)
\<close>

theorem dropped_finish_sticks:
  assumes "reachable c" and "cl_leaders c n = Some l" and "ld_phase l = Stamped"
    and "flight_run (drop_leader rt n l c) c'"
  shows "cl_map c' (ld_key l) = Some n \<and> cl_slots c' n = cl_slots c n \<and> cl_slots c n \<noteq> Pending
    \<and> cl_leaders (acquire (ld_key l) f c') = cl_leaders c'
    \<and> cl_followers (acquire (ld_key l) f c') f = Some \<lparr>fo_slot = n, fo_phase = Reading\<rparr>"
proof -
  have inv: "flight_inv c" using assms(1) by (rule flight_inv_reachable)
  note own = leaders_ownD [OF flight_invD(1) [OF inv] assms(2)]
  let ?d = "drop_leader rt n l c"
  have d: "flight_inv ?d" using inv assms(2) by (rule flight_inv_drop_leader)
  have "stuck (ld_key l) n ?d"
    using own assms(3) cleanup_not_led [OF flight_invD(1,5) [OF inv] assms(2)]
    by (simp add: stuck_def drop_leader_def)
  then have "stuck (ld_key l) n c'" using stuck_run [OF assms(4) d] by simp
  moreover have np: "cl_slots c n \<noteq> Pending" using own assms(3) by simp
  moreover have "cl_slots c' n = cl_slots ?d n"
    using slot_stable_run [OF assms(4) d, of n] own np assms(3) by (simp add: drop_leader_def)
  ultimately show ?thesis using assms(3) by (simp add: stuck_def acquire_def drop_leader_def)
qed

lemma dropped_finish_sticks_witness:
  "\<exists>c. reachable c \<and> cl_map c sample_key = Some 0 \<and> cl_slots c 0 = Complete (Failed ''old'')
     \<and> (\<forall>c' f. flight_run c c' \<longrightarrow> cl_leaders (acquire sample_key f c') = cl_leaders c'
          \<and> cl_slots c' 0 = Complete (Failed ''old''))"
proof -
  let ?l = "\<lparr>ld_key = sample_key, ld_phase = Driving\<rparr>" and ?s = "\<lparr>ld_key = sample_key, ld_phase = Stamped\<rparr>"
  let ?c = "complete_stamp 0 ?l (Failed ''old'') sample_leading"
  have "flight_step sample_leading ?c" using sample_leading(2) by (rule Finish) simp
  then have r: "reachable ?c" using sample_leading(1) unfolding reachable_def by (auto intro: Next)
  have s: "cl_leaders ?c 0 = Some ?s" by (simp add: complete_stamp_def)
  have out: "cl_slots ?c 0 = Complete (Failed ''old'')" by (simp add: complete_stamp_def)
  let ?d = "drop_leader True 0 ?s ?c"
  have "flight_step ?c ?d" using s by (rule DropLeader)
  then have "reachable ?d" using r unfolding reachable_def by (auto intro: Next)
  moreover note dropped_finish_sticks [OF r s, of True ?d, OF _ Start]
  moreover note dropped_finish_sticks [OF r s, of True]
  ultimately show ?thesis using out by (intro exI [of _ ?d]) auto
qed

end
