(* ===== verification/Supervisor.thy ===== *)
theory Supervisor
  imports Identity Headroom
begin

text \<open>
  The supervisor of one launch, \<open>src/daemon/supervisor.rs\<close>: its state machine with the
  readiness probe, the exit watcher and any number of \<open>stop\<close> calls as concurrent tasks, and
  the request counter behind its guards. A step is what a task does under one lock.
  Shown: terminal states are final and a stop is never pre-empted, \<open>Ready\<close> is only reached
  stamped and through the fit gate, and a \<open>stop\<close> that returns leaves a dead child in a
  terminal state.
\<close>

subsection \<open>States\<close>

datatype managed_state =
    Launching | Loading | MsReady | MsError (ms_cause: string) | Stopping | Stopped

fun state_label :: "managed_state \<Rightarrow> string" where
  "state_label Launching = ''launching''"
| "state_label Loading = ''loading''"
| "state_label MsReady = ''ready''"
| "state_label (MsError _) = ''error''"
| "state_label Stopping = ''stopping''"
| "state_label Stopped = ''stopped''"

fun cause :: "managed_state \<Rightarrow> string option" where
  "cause (MsError c) = Some c"
| "cause _ = None"

datatype launch_origin = Manual | AutoStart

fun origin_label :: "launch_origin \<Rightarrow> string" where
  "origin_label Manual = ''manual''"
| "origin_label AutoStart = ''auto_start''"

record fit_gate =
  fg_floor :: nat
  fg_native :: nat
  fg_strict :: bool

definition is_clamped :: "fit_gate \<Rightarrow> nat \<Rightarrow> bool" where
  "is_clamped g resolved \<longleftrightarrow> resolved \<le> fg_floor g \<and> fg_native g > fg_floor g"

text \<open>\<open>transition\<close>: the new state and whether it fired.\<close>

fun transition_to :: "managed_state \<Rightarrow> managed_state \<Rightarrow> managed_state \<times> bool" where
  "transition_to (MsError c) next_st = (MsError c, False)"
| "transition_to Stopped next_st = (Stopped, False)"
| "transition_to Stopping next_st = (if next_st = Stopped then (Stopped, True) else (Stopping, False))"
| "transition_to st next_st = (next_st, True)"

subsection \<open>The supervised child\<close>

text \<open>What \<open>try_wait\<close> says of the child, and how it ended.\<close>

record exit_status =
  ex_code :: "int option"
  ex_signal :: "int option"

datatype wait_status = Running | Exited exit_status | WaitError

datatype signal_flavour = Graceful | Kill

record actuals =
  resolved_ctx :: "nat option"
  ctx_clamped :: bool

text \<open>What the readiness poll ended in; \<open>ProbeOk\<close> comes with what \<open>fetch_actuals\<close> read.\<close>

datatype probe_outcome = ProbeOk actuals | ProbeTimeout "nat option"

text \<open>
  Where the probe task stands: polling; the actuals written; \<open>ready_at\<close> written; holding an
  error cause; about to kill; over.
\<close>

datatype probe_task = Polling | Stamping | Readying | Failing string | Killing | ProbeOver

text \<open>Where the exit watcher stands: in its loop; holding the status and the log tail; over.\<close>

datatype watch_task = Watching | Classifying exit_status "string list" | WatchOver

text \<open>
  The cells of \<open>ManagedInner\<close> the lifecycle touches, the two tasks, and the \<open>stop\<close> calls by
  where they stand: about to signal, waiting, about to transition, returned. \<open>mi_signals\<close> are
  the signals delivered, oldest first.
\<close>

record managed =
  mi_state :: managed_state
  mi_pid :: "nat option"
  mi_child :: "wait_status option"
  mi_ready_at :: "nat option"
  mi_actuals :: actuals
  mi_probe :: probe_task
  mi_watch :: watch_task
  mi_stop_signal :: nat
  mi_stop_wait :: nat
  mi_stop_final :: nat
  mi_stop_done :: nat
  mi_signals :: "signal_flavour list"

definition transition :: "managed_state \<Rightarrow> managed \<Rightarrow> managed" where
  "transition next_st m = m\<lparr>mi_state := fst (transition_to (mi_state m) next_st)\<rparr>"

definition signal_child_with_guard :: "signal_flavour \<Rightarrow> managed \<Rightarrow> managed" where
  "signal_child_with_guard flavour m =
     (if mi_child m = Some Running \<and> mi_pid m \<noteq> None
      then m\<lparr>mi_signals := mi_signals m @ [flavour]\<rparr> else m)"

text \<open>The launch when \<open>spawn\<close> has moved it to \<open>Loading\<close> and starts its tasks.\<close>

definition new_managed :: "nat option \<Rightarrow> managed" where
  "new_managed pid =
     \<lparr>mi_state = Launching, mi_pid = pid, mi_child = Some Running, mi_ready_at = None,
      mi_actuals = \<lparr>resolved_ctx = None, ctx_clamped = False\<rparr>, mi_probe = Polling,
      mi_watch = Watching, mi_stop_signal = 0, mi_stop_wait = 0, mi_stop_final = 0,
      mi_stop_done = 0, mi_signals = []\<rparr>"

definition spawned :: "nat option \<Rightarrow> managed" where
  "spawned pid = transition Loading (new_managed pid)"

subsection \<open>Causes\<close>

definition show_int :: "int \<Rightarrow> string" where
  "show_int i = (if i < 0 then ''-'' @ show_nat (nat (- i)) else show_nat (nat i))"

definition join_lines :: "string list \<Rightarrow> string" where
  "join_lines ls = (case ls of [] \<Rightarrow> [] | l # rest \<Rightarrow> l @ concat (map (\<lambda>x. CHR 0x0A # x) rest))"

definition with_tail :: "string \<Rightarrow> string list \<Rightarrow> string" where
  "with_tail text lines =
     (if lines = [] then text
      else text @ ''; last stderr lines:'' @ [CHR 0x0A] @ join_lines lines)"

definition exit_cause :: "string \<Rightarrow> exit_status \<Rightarrow> string list \<Rightarrow> string" where
  "exit_cause what st lines = with_tail
     (case (ex_code st, ex_signal st) of
        (Some code, _) \<Rightarrow> what @ '' (exit code '' @ show_int code @ '')''
      | (None, Some sig) \<Rightarrow> what @ '' (killed by signal '' @ show_int sig @ '')''
      | (None, None) \<Rightarrow> what) lines"

definition strict_cause :: "fit_gate \<Rightarrow> string" where
  "strict_cause g = ''strict-fit: --fit clamped the context window to the floor ('' @ show_nat (fg_floor g)
     @ '' tokens) under memory pressure; the model's trained window is '' @ show_nat (fg_native g)
     @ '' tokens. Free up memory or lower fit_ctx_floor to launch.''"

definition timeout_cause :: "nat option \<Rightarrow> string list \<Rightarrow> string" where
  "timeout_cause last_status lines = with_tail
     (case last_status of
        Some s \<Rightarrow> ''health probe timeout (last status '' @ show_nat s @ '')''
      | None \<Rightarrow> ''health probe timeout'') lines"

subsection \<open>The tasks\<close>

text \<open>The fit gate on the actuals the probe read: the actuals to store, or the refusal.\<close>

definition pass_gate :: "fit_gate option \<Rightarrow> actuals \<Rightarrow> string + actuals" where
  "pass_gate gate fetched =
     (case (gate, resolved_ctx fetched) of
        (Some g, Some r) \<Rightarrow>
          if is_clamped g r
          then (if fg_strict g then Inl (strict_cause g) else Inr (fetched\<lparr>ctx_clamped := True\<rparr>))
          else Inr fetched
      | _ \<Rightarrow> Inr fetched)"

definition probe_step ::
  "fit_gate option \<Rightarrow> probe_outcome \<Rightarrow> string list \<Rightarrow> nat \<Rightarrow> managed \<Rightarrow> managed" where
  "probe_step gate outcome lines now m =
     (case mi_probe m of
        Polling \<Rightarrow>
          (case outcome of
             ProbeOk fetched \<Rightarrow>
               (case pass_gate gate fetched of
                  Inl c \<Rightarrow> m\<lparr>mi_probe := Failing c\<rparr>
                | Inr a \<Rightarrow> m\<lparr>mi_actuals := a, mi_probe := Stamping\<rparr>)
           | ProbeTimeout last_status \<Rightarrow> m\<lparr>mi_probe := Failing (timeout_cause last_status lines)\<rparr>)
      | Stamping \<Rightarrow> m\<lparr>mi_ready_at := Some now, mi_probe := Readying\<rparr>
      | Readying \<Rightarrow> (transition MsReady m)\<lparr>mi_probe := ProbeOver\<rparr>
      | Failing c \<Rightarrow> (transition (MsError c) m)\<lparr>mi_probe := Killing\<rparr>
      | Killing \<Rightarrow> (signal_child_with_guard Kill m)\<lparr>mi_probe := ProbeOver\<rparr>
      | ProbeOver \<Rightarrow> m)"

text \<open>The exit watcher writes the state itself, under the lock it read it with.\<close>

fun classify_exit :: "managed_state \<Rightarrow> exit_status \<Rightarrow> string list \<Rightarrow> managed_state" where
  "classify_exit (MsError c) st lines = MsError c"
| "classify_exit Stopped st lines = Stopped"
| "classify_exit Stopping st lines = Stopped"
| "classify_exit MsReady st lines = MsError (exit_cause ''process exited unexpectedly'' st lines)"
| "classify_exit Launching st lines =
     MsError (exit_cause ''process exited before becoming ready'' st lines)"
| "classify_exit Loading st lines =
     MsError (exit_cause ''process exited before becoming ready'' st lines)"

definition watch_step :: "string list \<Rightarrow> managed \<Rightarrow> managed" where
  "watch_step lines m =
     (case mi_watch m of
        Watching \<Rightarrow>
          (case mi_child m of
             None \<Rightarrow> m\<lparr>mi_watch := WatchOver\<rparr>
           | Some Running \<Rightarrow> m
           | Some WaitError \<Rightarrow> m\<lparr>mi_watch := WatchOver\<rparr>
           | Some (Exited st) \<Rightarrow> m\<lparr>mi_watch := Classifying st lines\<rparr>)
      | Classifying st ls \<Rightarrow>
          m\<lparr>mi_state := classify_exit (mi_state m) st ls, mi_watch := WatchOver\<rparr>
      | WatchOver \<Rightarrow> m)"

text \<open>
  \<open>stop\<close>: the transition and the pid check, the graceful signal, the kill at the deadline,
  the end of the wait, the last transition.
\<close>

definition stop_begin :: "managed \<Rightarrow> managed" where
  "stop_begin m0 =
     (let m = transition Stopping m0
      in if mi_pid m = None then m\<lparr>mi_stop_final := mi_stop_final m + 1\<rparr>
         else m\<lparr>mi_stop_signal := mi_stop_signal m + 1\<rparr>)"

definition stop_signal :: "managed \<Rightarrow> managed" where
  "stop_signal m = (signal_child_with_guard Graceful m)
     \<lparr>mi_stop_signal := mi_stop_signal m - 1, mi_stop_wait := mi_stop_wait m + 1\<rparr>"

definition stop_reaped :: "managed \<Rightarrow> managed" where
  "stop_reaped m = m\<lparr>mi_child := None,
     mi_stop_wait := mi_stop_wait m - 1, mi_stop_final := mi_stop_final m + 1\<rparr>"

definition stop_end :: "managed \<Rightarrow> managed" where
  "stop_end m = (transition Stopped m)
     \<lparr>mi_stop_final := mi_stop_final m - 1, mi_stop_done := mi_stop_done m + 1\<rparr>"

subsection \<open>Runs\<close>

text \<open>The gate is fixed at spawn. The child may exit, or its handle fail, at any time.\<close>

inductive managed_step :: "fit_gate option \<Rightarrow> managed \<Rightarrow> managed \<Rightarrow> bool"
  for gate :: "fit_gate option"
where
  Probe: "managed_step gate m (probe_step gate outcome lines now m)"
| Watch: "managed_step gate m (watch_step lines m)"
| ChildExits: "mi_child m = Some Running \<Longrightarrow> managed_step gate m (m\<lparr>mi_child := Some (Exited st)\<rparr>)"
| ChildLost: "mi_child m = Some Running \<Longrightarrow> managed_step gate m (m\<lparr>mi_child := Some WaitError\<rparr>)"
| StopBegin: "managed_step gate m (stop_begin m)"
| StopSignal: "0 < mi_stop_signal m \<Longrightarrow> managed_step gate m (stop_signal m)"
| StopKill: "0 < mi_stop_wait m \<Longrightarrow> managed_step gate m (signal_child_with_guard Kill m)"
| StopReaped: "0 < mi_stop_wait m \<Longrightarrow> mi_child m \<noteq> Some Running \<Longrightarrow> managed_step gate m (stop_reaped m)"
| StopEnd: "0 < mi_stop_final m \<Longrightarrow> managed_step gate m (stop_end m)"

inductive_cases managed_stepE: "managed_step gate m m'"

inductive managed_run :: "fit_gate option \<Rightarrow> managed \<Rightarrow> managed \<Rightarrow> bool"
  for gate :: "fit_gate option"
where
  Start: "managed_run gate m m"
| Next: "managed_run gate m m' \<Longrightarrow> managed_step gate m' m'' \<Longrightarrow> managed_run gate m m''"

lemma managed_run_invariant:
  assumes "managed_run gate m m'" "I m" "\<And>a b. I a \<Longrightarrow> managed_step gate a b \<Longrightarrow> I b"
  shows "I m'"
  using assms(1,2) by (induction rule: managed_run.induct) (auto intro: assms(3))

lemma signal_sel [simp]:
  "mi_state (signal_child_with_guard flavour m) = mi_state m"
  "mi_child (signal_child_with_guard flavour m) = mi_child m"
  "mi_pid (signal_child_with_guard flavour m) = mi_pid m"
  "mi_ready_at (signal_child_with_guard flavour m) = mi_ready_at m"
  "mi_actuals (signal_child_with_guard flavour m) = mi_actuals m"
  "mi_probe (signal_child_with_guard flavour m) = mi_probe m"
  "mi_watch (signal_child_with_guard flavour m) = mi_watch m"
  "mi_stop_signal (signal_child_with_guard flavour m) = mi_stop_signal m"
  "mi_stop_wait (signal_child_with_guard flavour m) = mi_stop_wait m"
  "mi_stop_final (signal_child_with_guard flavour m) = mi_stop_final m"
  "mi_stop_done (signal_child_with_guard flavour m) = mi_stop_done m"
  by (simp_all add: signal_child_with_guard_def)

lemmas task_defs = probe_step_def watch_step_def stop_begin_def stop_signal_def stop_reaped_def
  stop_end_def transition_def

subsection \<open>Legal edges\<close>

text \<open>The documented edges, closed under composition.\<close>

fun may_become :: "managed_state \<Rightarrow> managed_state \<Rightarrow> bool" where
  "may_become Launching st \<longleftrightarrow> True"
| "may_become Loading st \<longleftrightarrow> st \<noteq> Launching"
| "may_become MsReady st \<longleftrightarrow> st \<noteq> Launching \<and> st \<noteq> Loading"
| "may_become Stopping st \<longleftrightarrow> st = Stopping \<or> st = Stopped"
| "may_become (MsError c) st \<longleftrightarrow> st = MsError c"
| "may_become Stopped st \<longleftrightarrow> st = Stopped"

lemma may_become_refl [simp]: "may_become st st"
  by (cases st) simp_all

lemma may_become_trans: "may_become a b \<Longrightarrow> may_become b c \<Longrightarrow> may_become a c"
  by (cases a; cases b; cases c; simp)

lemma may_become_transition:
  "st \<noteq> Launching \<Longrightarrow> st \<noteq> Loading \<Longrightarrow> may_become cur (fst (transition_to cur st))"
  by (cases cur) auto

lemma may_become_classify: "may_become cur (classify_exit cur st lines)"
  by (cases cur) auto

lemma may_become_step: "managed_step gate m m' \<Longrightarrow> may_become (mi_state m) (mi_state m')"
  by (erule managed_stepE)
    (auto simp: task_defs Let_def intro: may_become_transition may_become_classify
      split: probe_task.splits probe_outcome.splits sum.splits watch_task.splits option.splits
        wait_status.splits)

subsection \<open>A sample run\<close>

text \<open>
  A launch with a lenient gate whose window settles at the floor, and comes up; its child dies;
  it is stopped twice.
\<close>

definition sample_gate :: fit_gate where
  "sample_gate = \<lparr>fg_floor = 4096, fg_native = 32768, fg_strict = False\<rparr>"

definition sample_at :: "managed_state \<Rightarrow> probe_task \<Rightarrow> nat option \<Rightarrow> managed" where
  "sample_at st task stamp = (new_managed (Some 7))
     \<lparr>mi_state := st, mi_probe := task, mi_ready_at := stamp,
      mi_actuals := \<lparr>resolved_ctx = Some 4096, ctx_clamped = True\<rparr>\<rparr>"

definition sample_ready :: managed where
  "sample_ready = sample_at MsReady ProbeOver (Some 1700000000)"

definition sample_dead :: managed where
  "sample_dead = sample_ready\<lparr>mi_child := Some (Exited \<lparr>ex_code = None, ex_signal = Some 9\<rparr>)\<rparr>"

definition sample_stopped :: managed where
  "sample_stopped = sample_dead\<lparr>mi_state := Stopped, mi_child := None, mi_stop_done := 1\<rparr>"

lemma sample_ready_run: "managed_run (Some sample_gate) (spawned (Some 7)) sample_ready"
proof -
  let ?run = "managed_run (Some sample_gate) (spawned (Some 7))"
  have "probe_step (Some sample_gate) (ProbeOk \<lparr>resolved_ctx = Some 4096, ctx_clamped = False\<rparr>)
      [] 0 (spawned (Some 7)) = sample_at Loading Stamping None"
    by (simp add: spawned_def new_managed_def sample_at_def probe_step_def transition_def
        pass_gate_def is_clamped_def sample_gate_def)
  then have "?run (sample_at Loading Stamping None)"
    using Next[OF Start managed_step.Probe] by metis
  moreover have "probe_step (Some sample_gate) (ProbeTimeout None) [] 1700000000
      (sample_at Loading Stamping None) = sample_at Loading Readying (Some 1700000000)"
    by (simp add: sample_at_def new_managed_def probe_step_def)
  ultimately have "?run (sample_at Loading Readying (Some 1700000000))"
    using Next managed_step.Probe by metis
  moreover have "probe_step (Some sample_gate) (ProbeTimeout None) [] 0
      (sample_at Loading Readying (Some 1700000000)) = sample_ready"
    by (simp add: sample_ready_def sample_at_def new_managed_def probe_step_def transition_def)
  ultimately show ?thesis using Next managed_step.Probe by metis
qed

lemma sample_dead_run: "managed_run (Some sample_gate) (spawned (Some 7)) sample_dead"
  unfolding sample_dead_def
  by (intro Next[OF sample_ready_run] ChildExits) (simp add: sample_ready_def sample_at_def new_managed_def)

lemma sample_stop_run: "managed_run (Some sample_gate) sample_dead sample_stopped"
proof -
  let ?run = "managed_run (Some sample_gate) sample_dead"
  let ?a = "sample_dead\<lparr>mi_state := Stopping, mi_stop_signal := 1\<rparr>"
  let ?b = "sample_dead\<lparr>mi_state := Stopping, mi_stop_wait := 1\<rparr>"
  let ?c = "sample_dead\<lparr>mi_state := Stopping, mi_child := None, mi_stop_final := 1\<rparr>"
  note defs = sample_dead_def sample_ready_def sample_at_def new_managed_def
  have "stop_begin sample_dead = ?a" by (simp add: defs stop_begin_def transition_def)
  then have "?run ?a" using Next[OF Start StopBegin] by metis
  moreover have "stop_signal ?a = ?b" by (simp add: defs stop_signal_def signal_child_with_guard_def)
  ultimately have "?run ?b" using Next[of _ _ ?a] StopSignal[of ?a] by simp
  moreover have "stop_reaped ?b = ?c" by (simp add: defs stop_reaped_def)
  moreover have "mi_child ?b \<noteq> Some Running" by (simp add: defs)
  ultimately have "?run ?c" using Next[of _ _ ?b] StopReaped[of ?b] by simp
  moreover have "stop_end ?c = sample_stopped"
    by (simp add: defs sample_stopped_def stop_end_def transition_def)
  ultimately show ?thesis using Next[of _ _ ?c] StopEnd[of ?c] by simp
qed

lemma managed_run_trans:
  "managed_run gate b c \<Longrightarrow> managed_run gate a b \<Longrightarrow> managed_run gate a c"
  by (induction rule: managed_run.induct) (auto intro: Next)

text \<open>
  C5. The state of a launch moves along the documented edges only, whatever the probe, the
  watcher, the child and any number of \<open>stop\<close> calls do and in whatever order: \<open>Error\<close> keeps its
  first cause for ever, \<open>Stopped\<close> is final, \<open>Stopping\<close> only becomes \<open>Stopped\<close>, and \<open>Ready\<close> never
  goes back to a starting state.
\<close>

theorem lifecycle_edges:
  "managed_run gate m m' \<Longrightarrow> may_become (mi_state m) (mi_state m')"
  by (induction rule: managed_run.induct) (auto intro: may_become_trans may_become_step)

theorem lifecycle_edges_witness:
  "managed_run (Some sample_gate) sample_dead sample_stopped \<and>
     may_become (mi_state sample_dead) (mi_state sample_stopped)"
  using sample_stop_run lifecycle_edges[OF sample_stop_run] by simp

subsection \<open>Readiness\<close>

definition gate_passed :: "fit_gate option \<Rightarrow> actuals \<Rightarrow> bool" where
  "gate_passed gate a \<longleftrightarrow>
     (case (gate, resolved_ctx a) of
        (Some g, Some r) \<Rightarrow> is_clamped g r \<longrightarrow> \<not> fg_strict g \<and> ctx_clamped a
      | _ \<Rightarrow> True)"

lemma pass_gate_passed: "pass_gate gate fetched = Inr a \<Longrightarrow> gate_passed gate a"
  by (auto simp: pass_gate_def gate_passed_def split: option.splits if_splits)

definition ready_inv :: "fit_gate option \<Rightarrow> managed \<Rightarrow> bool" where
  "ready_inv gate m \<longleftrightarrow>
     (mi_state m = MsReady \<longrightarrow> mi_probe m = ProbeOver \<and> mi_ready_at m \<noteq> None \<and> gate_passed gate (mi_actuals m)) \<and>
     (mi_probe m = Stamping \<longrightarrow> gate_passed gate (mi_actuals m)) \<and>
     (mi_probe m = Readying \<longrightarrow> mi_ready_at m \<noteq> None \<and> gate_passed gate (mi_actuals m))"

lemma transition_to_ready:
  "fst (transition_to cur st) = MsReady \<Longrightarrow> st \<noteq> MsReady \<Longrightarrow> False"
  by (cases cur) (auto split: if_splits)

lemma classify_not_ready [simp]: "classify_exit cur st lines \<noteq> MsReady"
  by (cases cur) auto

lemma ready_inv_step:
  assumes "ready_inv gate m" and "managed_step gate m m'"
  shows "ready_inv gate m'"
  using assms(2,1)
  by cases
    (auto simp: ready_inv_def task_defs Let_def dest: transition_to_ready pass_gate_passed
      split: probe_task.splits probe_outcome.splits sum.splits watch_task.splits option.splits
        wait_status.splits)

text \<open>
  C7. A launch is \<open>Ready\<close> only after its probe wrote the actuals and the ready stamp, and only
  through the fit gate: under a strict gate the resolved window is never a clamped one, and
  under a lenient gate a clamped window carries the flag that reports it.
\<close>

theorem ready_through_gate:
  assumes "managed_run gate (spawned pid) m" and "mi_state m = MsReady"
  shows "mi_ready_at m \<noteq> None \<and> mi_probe m = ProbeOver \<and>
    (\<forall>g r. gate = Some g \<and> resolved_ctx (mi_actuals m) = Some r \<and> r \<le> fg_floor g
       \<and> fg_floor g < fg_native g \<longrightarrow> \<not> fg_strict g \<and> ctx_clamped (mi_actuals m))"
proof -
  have "ready_inv gate (spawned pid)"
    by (simp add: ready_inv_def spawned_def new_managed_def transition_def)
  with assms(1) have "ready_inv gate m"
    by (rule managed_run_invariant) (rule ready_inv_step)
  with assms(2) show ?thesis by (auto simp: ready_inv_def gate_passed_def is_clamped_def)
qed

theorem ready_through_gate_witness:
  "mi_state sample_ready = MsReady \<and> resolved_ctx (mi_actuals sample_ready) = Some 4096 \<and>
     mi_ready_at sample_ready \<noteq> None \<and> ctx_clamped (mi_actuals sample_ready)"
  using ready_through_gate[OF sample_ready_run]
  by (simp add: sample_gate_def sample_ready_def sample_at_def new_managed_def)

subsection \<open>Stopping\<close>

definition terminal :: "managed_state \<Rightarrow> bool" where
  "terminal st \<longleftrightarrow> st = Stopped \<or> (\<exists>c. st = MsError c)"

lemma terminal_simps [simp]:
  "terminal Stopped" "terminal (MsError c)" "\<not> terminal Stopping" "\<not> terminal MsReady"
  "\<not> terminal Loading" "\<not> terminal Launching"
  by (simp_all add: terminal_def)

lemma classify_terminal [simp]: "terminal (classify_exit cur st lines)"
  by (cases cur) auto

text \<open>Whether some \<open>stop\<close> has begun.\<close>

definition stop_begun :: "managed \<Rightarrow> bool" where
  "stop_begun m \<longleftrightarrow> 0 < mi_stop_signal m + mi_stop_wait m + mi_stop_final m + mi_stop_done m"

definition halting :: "managed_state \<Rightarrow> bool" where
  "halting st \<longleftrightarrow> st = Stopping \<or> terminal st"

definition stop_inv :: "nat option \<Rightarrow> managed \<Rightarrow> bool" where
  "stop_inv pid m \<longleftrightarrow> mi_pid m = pid \<and>
     (stop_begun m \<longrightarrow> halting (mi_state m)) \<and>
     (0 < mi_stop_done m \<longrightarrow> terminal (mi_state m)) \<and>
     (pid \<noteq> None \<and> 0 < mi_stop_final m + mi_stop_done m \<longrightarrow> mi_child m = None)"

lemma may_become_halting:
  "may_become a b \<Longrightarrow> halting a \<Longrightarrow> halting b" "may_become a b \<Longrightarrow> terminal a \<Longrightarrow> terminal b"
  by (cases a; auto simp: halting_def terminal_def)+

lemma transition_halts:
  "halting (fst (transition_to cur Stopping))"
  "halting cur \<Longrightarrow> terminal (fst (transition_to cur Stopped))"
  by (cases cur; auto simp: halting_def terminal_def)+

text \<open>What a step does to the \<open>stop\<close> calls and the child.\<close>

lemma stop_step:
  assumes "managed_step gate m m'"
  shows "mi_pid m' = mi_pid m \<and> (stop_begun m' \<longrightarrow> stop_begun m \<or> halting (mi_state m')) \<and>
     (0 < mi_stop_done m' \<longrightarrow> 0 < mi_stop_done m \<or> stop_begun m \<and> m' = stop_end m) \<and>
     (mi_pid m \<noteq> None \<and> 0 < mi_stop_final m' + mi_stop_done m' \<longrightarrow>
        0 < mi_stop_final m + mi_stop_done m \<or> mi_child m' = None) \<and>
     (mi_child m = None \<longrightarrow> mi_child m' = None)"
  using assms
  by cases
    (auto simp: task_defs Let_def stop_begun_def transition_halts
      split: probe_task.splits probe_outcome.splits sum.splits watch_task.splits option.splits
        wait_status.splits)

lemma stop_inv_step:
  assumes inv: "stop_inv pid m" and step: "managed_step gate m m'"
  shows "stop_inv pid m'"
proof -
  note s = stop_step[OF step] and edge = may_become_step[OF step]
  have halt: "stop_begun m' \<longrightarrow> halting (mi_state m')"
    using s inv may_become_halting(1)[OF edge] by (auto simp: stop_inv_def)
  have fin: "terminal (mi_state m')" if "0 < mi_stop_done m'"
  proof (cases "0 < mi_stop_done m")
    case True
    then show ?thesis using inv may_become_halting(2)[OF edge] by (simp add: stop_inv_def)
  next
    case False
    with s that have "stop_begun m" "m' = stop_end m" by auto
    then show ?thesis using inv transition_halts(2)
      by (simp add: stop_inv_def stop_end_def transition_def)
  qed
  have "mi_child m' = None" if "pid \<noteq> None" "0 < mi_stop_final m' + mi_stop_done m'"
    using s inv that by (cases "0 < mi_stop_final m + mi_stop_done m") (auto simp: stop_inv_def)
  with s inv halt fin show ?thesis by (auto simp: stop_inv_def)
qed



lemma gone_child_step:
  "managed_step gate m m' \<Longrightarrow> mi_child m \<noteq> Some Running \<Longrightarrow>
     mi_child m' \<noteq> Some Running \<and> mi_signals m' = mi_signals m"
  by (erule managed_stepE)
    (auto simp: task_defs Let_def signal_child_with_guard_def
      split: probe_task.splits probe_outcome.splits sum.splits watch_task.splits option.splits
        wait_status.splits)

text \<open>
  No signal is delivered once the child has exited or its handle is gone, so a recycled pid
  is never signalled, neither by a late probe nor by a \<open>stop\<close> that reaches its deadline.
\<close>

theorem no_signal_after_exit:
  assumes "managed_run gate m m'" and "mi_child m \<noteq> Some Running"
  shows "mi_signals m' = mi_signals m \<and> mi_child m' \<noteq> Some Running"
proof -
  have "mi_child m' \<noteq> Some Running \<and> mi_signals m' = mi_signals m"
    using assms(1) by (rule managed_run_invariant) (use assms(2) gone_child_step in auto)
  then show ?thesis by simp
qed

theorem no_signal_after_exit_witness:
  "mi_child sample_dead \<noteq> Some Running \<and> mi_signals sample_stopped = mi_signals sample_dead"
proof -
  have "mi_child sample_dead \<noteq> Some Running" by (simp add: sample_dead_def)
  with no_signal_after_exit[OF sample_stop_run] show ?thesis by simp
qed

subsection \<open>Waiting for readiness\<close>

text \<open>
  \<open>wait_until_ready\<close> polls: \<open>seen i\<close> is the state the \<open>i\<close>th poll reads and \<open>late i\<close> whether the
  clock is past the deadline there; \<open>text\<close> is the timeout as \<open>Debug\<close> prints it.
\<close>

partial_function (option) wait_until_ready ::
  "string \<Rightarrow> (nat \<Rightarrow> managed_state) \<Rightarrow> (nat \<Rightarrow> bool) \<Rightarrow> nat \<Rightarrow> (string + unit) option" where
  "wait_until_ready text seen late i =
     (case seen i of
        MsReady \<Rightarrow> Some (Inr ())
      | MsError c \<Rightarrow> Some (Inl c)
      | Stopping \<Rightarrow> Some (Inl ''stopped before becoming ready'')
      | Stopped \<Rightarrow> Some (Inl ''stopped before becoming ready'')
      | Launching \<Rightarrow>
          if late i then Some (Inl (''not ready within '' @ text)) else wait_until_ready text seen late (Suc i)
      | Loading \<Rightarrow>
          if late i then Some (Inl (''not ready within '' @ text)) else wait_until_ready text seen late (Suc i))"

definition starting :: "managed_state \<Rightarrow> bool" where
  "starting st \<longleftrightarrow> st = Launching \<or> st = Loading"

fun settled_outcome :: "string \<Rightarrow> managed_state \<Rightarrow> string + unit" where
  "settled_outcome text MsReady = Inr ()"
| "settled_outcome text (MsError c) = Inl c"
| "settled_outcome text Stopping = Inl ''stopped before becoming ready''"
| "settled_outcome text Stopped = Inl ''stopped before becoming ready''"
| "settled_outcome text Launching = Inl (''not ready within '' @ text)"
| "settled_outcome text Loading = Inl (''not ready within '' @ text)"

lemma wait_step:
  "wait_until_ready text seen late i =
     (if starting (seen i) \<and> \<not> late i then wait_until_ready text seen late (Suc i)
      else Some (settled_outcome text (seen i)))"
  by (subst wait_until_ready.simps) (cases "seen i"; simp add: starting_def)

text \<open>
  Waiting returns as soon as the deadline passes or the launch settles: at the first poll
  that is late or no longer sees a starting state, with that poll's verdict.
\<close>

theorem wait_until_ready_returns:
  assumes "late n \<or> \<not> starting (seen n)"
  shows "\<exists>k \<le> n. (\<forall>j < k. starting (seen j) \<and> \<not> late j) \<and> (late k \<or> \<not> starting (seen k)) \<and>
    wait_until_ready text seen late 0 = Some (settled_outcome text (seen k))"
proof -
  define k where "k = (LEAST k. late k \<or> \<not> starting (seen k))"
  have k: "late k \<or> \<not> starting (seen k)" "k \<le> n"
    using assms LeastI[of "\<lambda>k. late k \<or> \<not> starting (seen k)" n] Least_le[of "\<lambda>k. late k \<or> \<not> starting (seen k)" n]
    unfolding k_def by blast+
  have before: "starting (seen j) \<and> \<not> late j" if "j < k" for j
    using not_less_Least[of j "\<lambda>k. late k \<or> \<not> starting (seen k)"] that by (auto simp: k_def)
  have "wait_until_ready text seen late 0 = wait_until_ready text seen late j" if "j \<le> k" for j
    using that by (induction j) (auto simp: wait_step[of _ _ _ _] before)
  with k(1) have "wait_until_ready text seen late 0 = Some (settled_outcome text (seen k))"
    by (metis order_refl wait_step)
  with k before show ?thesis by blast
qed

theorem wait_until_ready_returns_witness:
  "\<exists>k \<le> (2::nat). wait_until_ready ''30s'' (\<lambda>i. if i < 2 then Loading else MsReady) (\<lambda>i. 9 \<le> i) 0
     = Some (settled_outcome ''30s'' (if k < 2 then Loading else MsReady))"
  using wait_until_ready_returns[of "\<lambda>i. 9 \<le> i" 2 "\<lambda>i. if i < 2 then Loading else MsReady" "''30s''"]
  by (auto simp: starting_def)

subsection \<open>Requests in flight\<close>

text \<open>
  \<open>inflight_guard\<close> and the drop of its guard: an atomic 64-bit counter that wraps.
\<close>

definition inflight_guard :: "64 word \<Rightarrow> 64 word" where
  "inflight_guard n = n + 1"

definition drop_guard :: "64 word \<Rightarrow> 64 word" where
  "drop_guard n = n - 1"

datatype guard_op = TakeGuard nat | DropGuard nat

text \<open>The guards alive, by name; each is dropped once, as ownership has it.\<close>

fun guard_step :: "guard_op \<Rightarrow> 64 word \<times> nat list \<Rightarrow> 64 word \<times> nat list" where
  "guard_step (TakeGuard g) (n, alive) =
     (if g \<in> set alive then (n, alive) else (inflight_guard n, g # alive))"
| "guard_step (DropGuard g) (n, alive) =
     (if g \<in> set alive then (drop_guard n, remove1 g alive) else (n, alive))"

lemma guard_step_count:
  "fst s = of_nat (length (snd s)) \<Longrightarrow> fst (guard_step op s) = of_nat (length (snd (guard_step op s)))"
proof (cases op; cases s)
  fix g n alive assume "op = DropGuard g" "s = (n, alive)" "fst s = of_nat (length (snd s))"
  moreover have "g \<in> set alive \<Longrightarrow> of_nat (length alive) - 1 = (of_nat (length alive - 1) :: 64 word)"
    by (cases alive) simp_all
  ultimately show ?thesis by (simp add: drop_guard_def length_remove1)
qed (simp add: inflight_guard_def)

lemma guard_run_count:
  "fst s = of_nat (length (snd s)) \<Longrightarrow>
     fst (fold guard_step ops s) = of_nat (length (snd (fold guard_step ops s)))"
  by (induction ops arbitrary: s) (simp_all add: guard_step_count)

end
