(* ===== verification/Admission.thy ===== *)
theory Admission
  imports Headroom Gguf_Memory
begin

text \<open>
  Admission control, \<open>src/launch/admission.rs\<close>: the reservation ledger, the free budget of the
  host's memory pool, and the projected demand of a launch. Shown: admitted launches never
  hold more than a free reading together, releasing is exact and idempotent, a cache budget
  always leaves the reserve free, and the budget of a shared pool respects both its caps.
\<close>

subsection \<open>The ledger\<close>

record reservation =
  rs_launch_id :: nat
  rs_bytes :: nat

type_synonym ledger = "reservation list"

record refusal =
  demand_bytes :: nat
  effective_free_bytes :: nat
  reserved_bytes :: nat

definition refusal_available :: "refusal \<Rightarrow> nat" where
  "refusal_available r = effective_free_bytes r - reserved_bytes r"

text \<open>\<open>iter().sum()\<close> is a plain \<open>u64\<close> sum: it wraps in a release build.\<close>

definition ledger_reserved :: "ledger \<Rightarrow> nat" where
  "ledger_reserved held = wrapping_sum (map rs_bytes held)"

definition try_admit :: "nat \<Rightarrow> nat \<Rightarrow> nat \<Rightarrow> ledger \<Rightarrow> (refusal, unit) result \<times> ledger" where
  "try_admit launch_id demand free held =
     (let reserved = ledger_reserved held
      in if demand > free - reserved
         then (Inl \<lparr>demand_bytes = demand, effective_free_bytes = free, reserved_bytes = reserved\<rparr>, held)
         else (Inr (), held @ [\<lparr>rs_launch_id = launch_id, rs_bytes = demand\<rparr>]))"

definition reserve :: "nat \<Rightarrow> nat \<Rightarrow> ledger \<Rightarrow> ledger" where
  "reserve launch_id demand held = held @ [\<lparr>rs_launch_id = launch_id, rs_bytes = demand\<rparr>]"

definition release :: "nat \<Rightarrow> ledger \<Rightarrow> ledger" where
  "release launch_id held = filter (\<lambda>r. rs_launch_id r \<noteq> launch_id) held"

subsection \<open>Budgets\<close>

definition pool_kind :: "host_snapshot \<Rightarrow> pool_kind" where
  "pool_kind snap =
     (if gpu_backend snap = BACKEND_APPLE_METAL then AppleUnified
      else if unified snap then IntegratedUma
      else if gpu_mem_total_bytes snap \<noteq> None then DiscreteVram
      else SystemRam)"

definition is_sampled :: "host_snapshot \<Rightarrow> bool" where
  "is_sampled snap \<longleftrightarrow> gpu_backend snap \<noteq> UNINITIALIZED_BACKEND"

definition DEFAULT_KV_CACHE_BYTES :: nat where "DEFAULT_KV_CACHE_BYTES = 8 * 1024 * 1024 * 1024"
definition MIN_KV_CACHE_BYTES :: nat where "MIN_KV_CACHE_BYTES = 512 * 1024 * 1024"
definition UNIFIED_HOST_RESERVE_BYTES :: nat where "UNIFIED_HOST_RESERVE_BYTES = 8 * 1024 * 1024 * 1024"
definition UNIFIED_OS_FLOOR_BYTES :: nat where "UNIFIED_OS_FLOOR_BYTES = 2 * 1024 * 1024 * 1024"

definition UNIFIED_RESERVE_FRACTION :: rat where
  "UNIFIED_RESERVE_FRACTION = fl (15 / 100)"

definition unified_host_reserve_bytes :: "nat \<Rightarrow> string \<Rightarrow> nat \<Rightarrow> nat" where
  "unified_host_reserve_bytes ram_total backend engine_overhead =
     (let fixed = sat_add (sat_add UNIFIED_OS_FLOOR_BYTES engine_overhead) (overhead_band_bytes backend);
          share = f64_to_u64 (f64_mul (f64_of ram_total) UNIFIED_RESERVE_FRACTION)
      in max fixed share)"

definition unified_kv_cache_budget :: "nat \<Rightarrow> nat \<Rightarrow> nat \<Rightarrow> nat option" where
  "unified_kv_cache_budget free weights rsv =
     (let headroom = free - weights - rsv
      in if headroom \<ge> MIN_KV_CACHE_BYTES then Some (min headroom DEFAULT_KV_CACHE_BYTES) else None)"

definition human_gib :: "nat \<Rightarrow> string" where
  "human_gib b = fmt_fixed 1 (f64_div (f64_of b) (2 ^ 30)) @ '' GiB''"

definition parse_size_bytes :: "string \<Rightarrow> nat option" where
  "parse_size_bytes raw =
     (let s = trim raw in
      if s = [] then None else
      let mult = (if last s = CHR ''k'' \<or> last s = CHR ''K'' then 1024
                  else if last s = CHR ''m'' \<or> last s = CHR ''M'' then 1024 * 1024
                  else if last s = CHR ''g'' \<or> last s = CHR ''G'' then 1024 * 1024 * 1024
                  else 1);
          digits = (if mult = 1 then s else butlast s)
      in case parse_unsigned u64_max (trim digits) of
           None \<Rightarrow> None
         | Some n \<Rightarrow> if n * mult \<le> u64_max then Some (n * mult) else None)"

text \<open>
  \<open>dir_weight_bytes\<close>: the directory listing and the file lengths behind the links are the
  file system's; an entry is \<open>None\<close> where its metadata cannot be read, and carries whether
  it is a regular file.
\<close>

definition dir_weight_bytes :: "(bool \<times> nat) option list option \<Rightarrow> nat" where
  "dir_weight_bytes listing =
     (case listing of
        None \<Rightarrow> 0
      | Some entries \<Rightarrow> sat_sum (map snd (filter fst (List.map_filter (\<lambda>e. e) entries))))"

definition engine_pool_total_bytes :: "host_snapshot \<Rightarrow> bool \<Rightarrow> nat" where
  "engine_pool_total_bytes snap gtt_only =
     (let uni = unified snap \<or> gpu_backend snap = BACKEND_APPLE_METAL
      in case (gtt_only, uma_shared_total_bytes snap) of
           (True, Some gtt_total) \<Rightarrow> gtt_total
         | _ \<Rightarrow> if uni then ram_total_bytes snap
                else (case gpu_mem_total_bytes snap of Some t \<Rightarrow> t | None \<Rightarrow> 0))"

record demand_inputs =
  di_free_bytes :: nat
  di_pool_total_bytes :: nat
  di_weights_bytes :: nat

definition pool_fraction_beyond_weights :: "demand_inputs \<Rightarrow> rat \<Rightarrow> nat" where
  "pool_fraction_beyond_weights host fraction =
     (let share = max 0 (min 1 fraction);
          pool = (if di_pool_total_bytes host > 0 then di_pool_total_bytes host else di_free_bytes host)
      in f64_to_u64 (f64_mul (f64_of pool) share) - di_weights_bytes host)"

definition lxc_amd_uma :: "host_snapshot \<Rightarrow> bool \<Rightarrow> bool" where
  "lxc_amd_uma snap in_lxc \<longleftrightarrow> in_lxc \<and> gpu_backend snap = BACKEND_AMD \<and> unified snap
     \<and> uma_shared_total_bytes snap \<noteq> None"

text \<open>Whether the process runs in an LXC container is read from the system: a parameter.\<close>

definition gtt_only_budget :: "bool \<Rightarrow> host_snapshot \<Rightarrow> bool \<Rightarrow> bool" where
  "gtt_only_budget in_lxc snap gpu_resident \<longleftrightarrow> gpu_resident \<and> lxc_amd_uma snap in_lxc"

definition available_pool_bytes :: "host_snapshot \<Rightarrow> bool \<Rightarrow> nat" where
  "available_pool_bytes snap gtt_only =
     (let ram_free = ram_total_bytes snap - ram_used_bytes snap in
      if default_reserve_percent (pool_kind snap) \<noteq> None then
        (case uma_shared_total_bytes snap of
           Some gtt_total \<Rightarrow>
             let gtt_free = gtt_total - (case uma_shared_used_bytes snap of Some u \<Rightarrow> u | None \<Rightarrow> 0)
             in if gtt_only then gtt_free else min ram_free gtt_free
         | None \<Rightarrow> ram_free)
      else case (gpu_mem_total_bytes snap, gpu_mem_used_bytes snap) of
             (Some vram_total, Some vram_used) \<Rightarrow> sat_add (vram_total - vram_used) ram_free
           | _ \<Rightarrow> ram_free)"

definition effective_free_bytes_for :: "host_snapshot \<Rightarrow> bool \<Rightarrow> memory_reserve \<Rightarrow> nat" where
  "effective_free_bytes_for snap gtt_only rsv =
     admissible_bytes (available_pool_bytes snap gtt_only) (pool_kind snap) rsv"

definition effective_free :: "host_snapshot \<Rightarrow> memory_reserve \<Rightarrow> nat" where
  "effective_free snap rsv = effective_free_bytes_for snap False rsv"

subsection \<open>Demand\<close>

definition mtp_band_bytes :: "nat \<Rightarrow> bool \<Rightarrow> nat" where
  "mtp_band_bytes resident mtp = (if mtp then resident div 6 else 0)"

text \<open>The knob lookups by concept (\<open>KnobSet\<close>, not modelled here) are the record's fields.\<close>

record knob_view =
  kv_k_type :: "string option"
  kv_v_type :: "string option"
  max_concurrency :: "nat option"
  mtp_draft_tokens :: "nat option"

definition demand_options :: "knob_view \<Rightarrow> nat \<Rightarrow> bool \<Rightarrow> estimate_options" where
  "demand_options knobs effective_ctx mtp =
     \<lparr>ctx_len = effective_ctx,
      cache_type_k = parse_cache_type (kv_k_type knobs),
      cache_type_v = parse_cache_type (kv_v_type knobs),
      n_gpu_layers = None, mtp_active = mtp,
      n_seq = (case max_concurrency knobs of Some n \<Rightarrow> n | None \<Rightarrow> DEFAULT_N_SEQ),
      mtp_draft_n = (case mtp_draft_tokens knobs of Some n \<Rightarrow> n | None \<Rightarrow> DEFAULT_MTP_DRAFT_N)\<rparr>"

definition project_demand ::
  "gguf_header \<Rightarrow> string option \<Rightarrow> knob_view \<Rightarrow> nat \<Rightarrow> string \<Rightarrow> nat \<Rightarrow> bool \<Rightarrow> nat" where
  "project_demand h arch knobs effective_ctx backend resident mtp =
     sat_add (sat_add (sat_add resident (kv_bytes h arch (demand_options knobs effective_ctx mtp)))
                (overhead_band_bytes backend))
       (mtp_band_bytes resident mtp)"

subsection \<open>The ledger's contract\<close>

text \<open>The calls on a ledger, with the demand and the free reading each carries.\<close>

datatype ledger_op =
    Admit (op_launch: nat) (op_demand: nat) (op_free: nat)
  | Force (op_launch: nat) (op_demand: nat)
  | Release (op_launch: nat)

fun forced_bytes :: "ledger_op list \<Rightarrow> nat" where
  "forced_bytes [] = 0"
| "forced_bytes (Force i d # ops) = d + forced_bytes ops"
| "forced_bytes (_ # ops) = forced_bytes ops"

text \<open>
  What a launch flow needs of a ledger: a total of the bytes held that an admission keeps
  within the free reading it is checked against, a forced launch adds its demand to, and a
  release only lowers.
\<close>

locale budget_ledger =
  fixes held :: "'s \<Rightarrow> nat"
    and admit :: "nat \<Rightarrow> nat \<Rightarrow> nat \<Rightarrow> 's \<Rightarrow> 's"
    and force :: "nat \<Rightarrow> nat \<Rightarrow> 's \<Rightarrow> 's"
    and drop_launch :: "nat \<Rightarrow> 's \<Rightarrow> 's"
    and limit :: nat
  assumes admit_within: "held s \<le> limit \<Longrightarrow> held (admit i d free s) \<le> max (held s) free"
    and force_adds: "held (force i d s) = held s + d"
    and drop_lowers: "held (drop_launch i s) \<le> held s"
begin

fun step :: "ledger_op \<Rightarrow> 's \<Rightarrow> 's" where
  "step (Admit i d free) s = admit i d free s"
| "step (Force i d) s = force i d s"
| "step (Release i) s = drop_launch i s"

lemma run_within:
  assumes "held s \<le> budget" and "budget + forced_bytes ops \<le> limit"
    and "\<forall>op \<in> set ops. case op of Admit i d free \<Rightarrow> free \<le> budget | _ \<Rightarrow> True"
  shows "held (fold step ops s) \<le> budget + forced_bytes ops"
  using assms
proof (induction ops arbitrary: s budget)
  case (Cons op ops)
  show ?case
  proof (cases op)
    case (Admit i d free)
    then have "held (step op s) \<le> budget"
      using admit_within [of s i d free] Cons.prems by (auto simp: le_max_iff_disj)
    then show ?thesis using Cons Admit by simp
  next
    case (Force i d)
    have "held (step op s) \<le> budget + d" using Cons.prems(1) by (simp add: Force force_adds)
    moreover have "\<forall>op \<in> set ops. case op of Admit i d free \<Rightarrow> free \<le> budget + d' | _ \<Rightarrow> True" for d'
      using Cons.prems(3) by (fastforce split: ledger_op.splits)
    ultimately have "held (fold step ops (step op s)) \<le> budget + d + forced_bytes ops"
      using Cons.prems(2) by (intro Cons.IH) (simp_all add: Force)
    then show ?thesis by (simp add: Force)
  next
    case (Release i)
    then have "held (step op s) \<le> budget"
      using drop_lowers [of i s] Cons.prems(1) by simp
    then show ?thesis using Cons Release by simp
  qed
qed simp

end

text \<open>The true total, and the admission as a step of the state alone.\<close>

definition held_bytes :: "ledger \<Rightarrow> nat" where
  "held_bytes held = sum_list (map rs_bytes held)"

definition admit_step :: "nat \<Rightarrow> nat \<Rightarrow> nat \<Rightarrow> ledger \<Rightarrow> ledger" where
  "admit_step i d free held = snd (try_admit i d free held)"

lemma ledger_reserved_exact: "held_bytes held \<le> u64_max \<Longrightarrow> ledger_reserved held = held_bytes held"
  by (simp add: ledger_reserved_def held_bytes_def wrapping_sum_small)

lemma held_bytes_release: "held_bytes (release i held) \<le> held_bytes held"
  by (induction held) (auto simp: held_bytes_def release_def)

lemma held_bytes_admit:
  assumes "held_bytes held \<le> u64_max"
  shows "held_bytes (admit_step i d free held) \<le> max (held_bytes held) free"
  using ledger_reserved_exact [OF assms]
  by (auto simp: admit_step_def try_admit_def Let_def held_bytes_def)

interpretation ledger: budget_ledger held_bytes admit_step reserve release u64_max
proof unfold_locales
  show "held_bytes (reserve i d s) = held_bytes s + d" for i d s
    by (simp add: held_bytes_def reserve_def)
qed (fact held_bytes_admit held_bytes_release)+

fun ledger_step :: "ledger_op \<Rightarrow> ledger \<Rightarrow> ledger" where
  "ledger_step (Admit i d free) held = snd (try_admit i d free held)"
| "ledger_step (Force i d) held = reserve i d held"
| "ledger_step (Release i) held = release i held"

lemma ledger_step_eq: "ledger_step = ledger.step"
proof (intro ext)
  show "ledger_step op held = ledger.step op held" for op held
    by (cases op) (simp_all add: admit_step_def)
qed

text \<open>
  C1. No double booking: over any interleaving of admissions, forced launches and releases,
  the launches in flight never hold more than the largest free reading plus what was forced
  past it, as long as that sum is a \<open>u64\<close>. Without forced launches the free memory is never
  overcommitted.
\<close>

theorem no_double_booking:
  assumes "\<forall>op \<in> set ops. case op of Admit i d free \<Rightarrow> free \<le> budget | _ \<Rightarrow> True"
    and "budget + forced_bytes ops \<le> u64_max"
  shows "held_bytes (fold ledger_step ops []) \<le> budget + forced_bytes ops"
  unfolding ledger_step_eq using assms
  by (intro ledger.run_within) (simp_all add: held_bytes_def)

lemma no_double_booking_witness:
  "held_bytes (fold ledger_step [Admit 1 6 10, Admit 2 5 10, Force 3 7, Admit 4 1 10, Release 1] []) \<le> 17"
  using no_double_booking [of "[Admit 1 6 10, Admit 2 5 10, Force 3 7, Admit 4 1 10, Release 1]" 10]
  by (simp add: u64_max_def)

text \<open>
  The outcome of an admission, exactly: it is granted when the demand fits beside what
  is held, and then holds that much more; otherwise nothing changes and the refusal reports
  the demand, a smaller available figure and what is held. A forced launch counts against the
  next check. Releasing a launch removes its bytes and no others, and twice is once.
\<close>

theorem try_admit_outcome:
  assumes "held_bytes held \<le> u64_max" and "0 < d"
  shows "(d + held_bytes held \<le> free \<longrightarrow> try_admit i d free held = (Inr (), reserve i d held))
    \<and> (free < d + held_bytes held \<longrightarrow> (\<exists>r. try_admit i d free held = (Inl r, held)
         \<and> refusal_available r < d \<and> demand_bytes r = d \<and> reserved_bytes r = held_bytes held))
    \<and> held_bytes (reserve i d held) = held_bytes held + d
    \<and> release i (reserve i d held) = release i held
    \<and> release i (release i held) = release i held
    \<and> (\<forall>j. j \<noteq> i \<longrightarrow>
         filter (\<lambda>r. rs_launch_id r = j) (release i held) = filter (\<lambda>r. rs_launch_id r = j) held)"
  using ledger_reserved_exact [OF assms(1)] assms(2)
  by (auto simp: try_admit_def Let_def reserve_def held_bytes_def release_def refusal_available_def
      intro: filter_cong)

lemma try_admit_outcome_witness:
  "try_admit 7 60 100 [\<lparr>rs_launch_id = 1, rs_bytes = 40\<rparr>]
     = (Inr (), reserve 7 60 [\<lparr>rs_launch_id = 1, rs_bytes = 40\<rparr>])"
  using try_admit_outcome [of "[\<lparr>rs_launch_id = 1, rs_bytes = 40\<rparr>]" 60 100 7]
  by (simp add: held_bytes_def u64_max_def)

subsection \<open>Budgets of a shared pool\<close>

text \<open>
  C25. The cache budget handed to an engine on a unified host is between the floor and the
  default and leaves the reserve free after weights and cache; it is refused exactly when not
  even the floor fits beside them.
\<close>

theorem kv_cache_budget_keeps_reserve:
  "(\<forall>b. unified_kv_cache_budget free weights rsv = Some b \<longrightarrow>
      MIN_KV_CACHE_BYTES \<le> b \<and> b \<le> DEFAULT_KV_CACHE_BYTES \<and> weights + rsv + b \<le> free)
   \<and> (unified_kv_cache_budget free weights rsv = None \<longleftrightarrow> free < weights + rsv + MIN_KV_CACHE_BYTES)"
  by (auto simp: unified_kv_cache_budget_def Let_def MIN_KV_CACHE_BYTES_def DEFAULT_KV_CACHE_BYTES_def)

lemma kv_cache_budget_keeps_reserve_witness:
  "unified_kv_cache_budget (40 * 2 ^ 30) (20 * 2 ^ 30) (8 * 2 ^ 30) = Some (8 * 2 ^ 30)
   \<and> 20 * 2 ^ 30 + 8 * 2 ^ 30 + 8 * 2 ^ 30 \<le> (40 * 2 ^ 30 :: nat)"
proof -
  have "unified_kv_cache_budget (40 * 2 ^ 30) (20 * 2 ^ 30) (8 * 2 ^ 30) = Some (8 * 2 ^ 30)"
    by (simp add: unified_kv_cache_budget_def MIN_KV_CACHE_BYTES_def DEFAULT_KV_CACHE_BYTES_def)
  with kv_cache_budget_keeps_reserve [of "40 * 2 ^ 30" "20 * 2 ^ 30" "8 * 2 ^ 30"] show ?thesis
    by blast
qed

text \<open>
  On a unified host with a GTT pool a launch's free budget exceeds neither that pool's
  free bytes nor, unless the launch keeps nothing on the CPU inside an LXC container on AMD,
  the free system RAM. A reserve only lowers it. (For pools an \<open>f64\<close> holds exactly.)
\<close>

theorem unified_budget_bounds:
  assumes "unified snap" and "uma_shared_total_bytes snap = Some gtt_total" and "gtt_total \<le> 2 ^ 53"
  shows "effective_free_bytes_for snap (gtt_only_budget in_lxc snap gpu_resident) rsv
           \<le> gtt_total - (case uma_shared_used_bytes snap of Some u \<Rightarrow> u | None \<Rightarrow> 0)
    \<and> (\<not> (in_lxc \<and> gpu_resident \<and> gpu_backend snap = BACKEND_AMD) \<longrightarrow>
         effective_free_bytes_for snap (gtt_only_budget in_lxc snap gpu_resident) rsv
           \<le> ram_total_bytes snap - ram_used_bytes snap)"
proof -
  let ?g = "gtt_only_budget in_lxc snap gpu_resident"
  let ?a = "available_pool_bytes snap ?g"
  let ?gtt = "gtt_total - (case uma_shared_used_bytes snap of Some u \<Rightarrow> u | None \<Rightarrow> 0)"
  let ?ram = "ram_total_bytes snap - ram_used_bytes snap"
  have a: "?a = (if ?g then ?gtt else min ?ram ?gtt)"
    using assms(1,2) by (simp add: available_pool_bytes_def pool_kind_def Let_def)
  then have "?a \<le> ?gtt" by simp
  then have "?a \<le> 2 ^ 53" using assms(3) by linarith
  then have "effective_free_bytes_for snap ?g rsv \<le> ?a"
    by (simp add: effective_free_bytes_for_def admissible_bytes_le)
  moreover have "?a \<le> ?ram" if "\<not> (in_lxc \<and> gpu_resident \<and> gpu_backend snap = BACKEND_AMD)"
    using that unfolding a by (auto simp: gtt_only_budget_def lxc_amd_uma_def)
  ultimately show ?thesis using \<open>?a \<le> ?gtt\<close> by auto
qed

subsection \<open>Demand\<close>

lemma demand_options_ctx:
  "demand_options knobs c mtp = (demand_options knobs 0 mtp)\<lparr>ctx_len := c\<rparr>"
  by (simp add: demand_options_def)

lemma project_demand_eq:
  "project_demand h arch knobs c backend resident mtp =
     min (resident + kv_bytes h arch (demand_options knobs c mtp) + overhead_band_bytes backend
            + mtp_band_bytes resident mtp) u64_max"
  by (simp add: project_demand_def sat_add_def)

text \<open>
  The demand a launch is priced at is a floor that errs high: it covers the resident
  weights, never shrinks when the context grows (compressed, latent, sliding-window and hybrid
  caches included), and grows with the weights. Without attention geometry it is the weights
  and the overhead bands alone, so missing data never refuses a launch by itself.
\<close>

theorem project_demand_floor:
  assumes "resident \<le> u64_max"
  shows "resident \<le> project_demand h arch knobs c backend resident mtp
    \<and> (c \<le> c' \<longrightarrow> project_demand h arch knobs c backend resident mtp
          \<le> project_demand h arch knobs c' backend resident mtp)
    \<and> (resident' \<le> resident \<longrightarrow> project_demand h arch knobs c backend resident' mtp
          \<le> project_demand h arch knobs c backend resident mtp)
    \<and> project_demand h None knobs c backend resident mtp
        = min (resident + overhead_band_bytes backend + (if mtp then resident div 6 else 0)) u64_max"
proof -
  have "kv_bytes h arch (demand_options knobs c mtp) \<le> kv_bytes h arch (demand_options knobs c' mtp)"
    if "c \<le> c'"
    using kv_bytes_mono_ctx [OF that, of h arch "demand_options knobs 0 mtp"]
    by (simp add: demand_options_def)
  moreover have "mtp_band_bytes resident' mtp \<le> mtp_band_bytes resident mtp" if "resident' \<le> resident"
    using that by (simp add: mtp_band_bytes_def div_le_mono)
  moreover have "kv_bytes h None opts = 0" for opts by (simp add: kv_bytes_def)
  ultimately show ?thesis
    using assms unfolding project_demand_eq
    by (auto intro!: min.mono add_mono simp: mtp_band_bytes_def)
qed

lemma project_demand_floor_witness:
  "1000 \<le> project_demand gqa_sample (Some ''llama'')
     \<lparr>kv_k_type = Some ''q8_0'', kv_v_type = None, max_concurrency = None, mtp_draft_tokens = None\<rparr>
     4096 ''nvidia'' 1000 False"
  using project_demand_floor [of 1000] by (simp add: u64_max_def)

text \<open>A Strix Halo: 128 GiB shared, a 96 GiB GTT pool of which 10 GiB are in use.\<close>

definition apu_sample :: host_snapshot where
  "apu_sample = \<lparr>cpu_pct = 3, cpu_temp_c = None, ram_used_bytes = 20 * 2 ^ 30,
     ram_total_bytes = 128 * 2 ^ 30, gpu_util_pct = None, gpu_mem_used_bytes = None,
     gpu_mem_total_bytes = None, gpu_temp_c = None, gpu_backend = ''amd'', gpu_device_count = 1,
     gpu_devices = None, uma_shared_total_bytes = Some (96 * 2 ^ 30),
     uma_shared_used_bytes = Some (10 * 2 ^ 30), unified = True,
     uma_class_source = Some CarveSignature\<rparr>"

lemma unified_budget_bounds_witness:
  "effective_free_bytes_for apu_sample (gtt_only_budget False apu_sample True) AUTO \<le> 86 * 2 ^ 30"
  using unified_budget_bounds [of apu_sample "96 * 2 ^ 30" False True AUTO]
  by (simp add: apu_sample_def)

end
