(* ===== verification/Stable_Sort.thy ===== *)
theory Stable_Sort
  imports Main "HOL-Library.Multiset"
begin

text \<open>
  \<open>slice::sort_by\<close> and \<open>sort_by_key\<close>: the stable sort of the standard library, as an insertion
  sort over the comparator's "not greater". The laws a comparator has to obey are a locale;
  inside it the sort is a sorted, stable permutation whose head is the first least element.
\<close>

datatype ordering = Less | Equal | Greater

definition reverse_ordering :: "ordering \<Rightarrow> ordering" where
  "reverse_ordering r = (case r of Less \<Rightarrow> Greater | Equal \<Rightarrow> Equal | Greater \<Rightarrow> Less)"

definition compare_nat :: "nat \<Rightarrow> nat \<Rightarrow> ordering" where
  "compare_nat a b = (if a < b then Less else if a = b then Equal else Greater)"

lemma compare_nat_iff [simp]:
  "compare_nat a b = Less \<longleftrightarrow> a < b" "compare_nat a b = Equal \<longleftrightarrow> a = b"
  "compare_nat a b = Greater \<longleftrightarrow> b < a"
  by (auto simp: compare_nat_def)

fun insert_by :: "('a \<Rightarrow> 'a \<Rightarrow> ordering) \<Rightarrow> 'a \<Rightarrow> 'a list \<Rightarrow> 'a list" where
  "insert_by cmp x [] = [x]"
| "insert_by cmp x (y # ys) = (if cmp x y = Greater then y # insert_by cmp x ys else x # y # ys)"

definition sort_by :: "('a \<Rightarrow> 'a \<Rightarrow> ordering) \<Rightarrow> 'a list \<Rightarrow> 'a list" where
  "sort_by cmp xs = foldr (insert_by cmp) xs []"

lemma sort_by_simps [simp]:
  "sort_by cmp [] = []" "sort_by cmp (x # xs) = insert_by cmp x (sort_by cmp xs)"
  by (simp_all add: sort_by_def)

lemma mset_insert_by [simp]: "mset (insert_by cmp x ys) = add_mset x (mset ys)"
  by (induction ys) auto

lemma mset_sort_by [simp]: "mset (sort_by cmp xs) = mset xs"
  by (induction xs) auto

lemma set_sort_by [simp]: "set (sort_by cmp xs) = set xs"
  by (metis mset_sort_by set_mset_mset)

lemma length_sort_by [simp]: "length (sort_by cmp xs) = length xs"
  by (metis mset_sort_by size_mset)

lemma set_insert_by [simp]: "set (insert_by cmp x ys) = insert x (set ys)"
  by (metis mset_insert_by set_mset_add_mset_insert set_mset_mset)

locale total_preorder =
  fixes cmp :: "'a \<Rightarrow> 'a \<Rightarrow> ordering"
  assumes total: "cmp a b = Greater \<Longrightarrow> cmp b a \<noteq> Greater"
    and trans: "cmp a b \<noteq> Greater \<Longrightarrow> cmp b c \<noteq> Greater \<Longrightarrow> cmp a c \<noteq> Greater"
begin

lemma self: "cmp a a \<noteq> Greater"
  using total by blast

lemma sorted_insert_by:
  "sorted_wrt (\<lambda>a b. cmp a b \<noteq> Greater) ys \<Longrightarrow> sorted_wrt (\<lambda>a b. cmp a b \<noteq> Greater) (insert_by cmp x ys)"
  by (induction ys) (auto dest: total trans)

lemma sorted_sort_by: "sorted_wrt (\<lambda>a b. cmp a b \<noteq> Greater) (sort_by cmp xs)"
  by (induction xs) (auto intro: sorted_insert_by)

lemma head_first_least:
  "sort_by cmp xs = y # ys \<Longrightarrow>
     \<exists>pre post. xs = pre @ y # post \<and> (\<forall>x \<in> set pre. cmp x y = Greater) \<and> (\<forall>x \<in> set post. cmp y x \<noteq> Greater)"
proof (induction xs arbitrary: y ys)
  case (Cons x xs)
  show ?case
  proof (cases "sort_by cmp xs")
    case Nil
    then have "xs = []" by (metis length_0_conv length_sort_by)
    with Cons.prems show ?thesis by (intro exI[of _ "[]"] exI[of _ "[]"]) simp
  next
    case (Cons z zs)
    then obtain pre post where z: "xs = pre @ z # post" "\<forall>x \<in> set pre. cmp x z = Greater"
      "\<forall>x \<in> set post. cmp z x \<noteq> Greater"
      using Cons.IH by blast
    show ?thesis
    proof (cases "cmp x z = Greater")
      case True
      then have "y = z" using Cons.prems Cons by simp
      with z True show ?thesis by (intro exI[of _ "x # pre"] exI[of _ post]) simp
    next
      case False
      then have "y = x" using Cons.prems Cons by simp
      moreover have "cmp x a \<noteq> Greater" if "a \<in> set xs" for a
      proof -
        have "cmp z a \<noteq> Greater" using that z self total by auto
        then show ?thesis using trans[OF False] by blast
      qed
      ultimately show ?thesis by (intro exI[of _ "[]"] exI[of _ xs]) simp
    qed
  qed
qed simp

end

end
