(* ===== verification/Eviction.thy ===== *)
theory Eviction
  imports Supervisor Admission Stable_Sort
begin

text \<open>
  Giving launches back, \<open>src/proxy/eviction.rs\<close>: the idle sweep and the make-room unloading for
  an auto-start that admission refused; and the daemon's own idle shutdown,
  \<open>src/daemon/idle.rs\<close>. Shown: nothing but an idle auto-started launch is ever stopped,
  make-room is all-or-nothing, least recently used first, never unloads more than it needs and
  never refuses while enough is free for the taking, and the daemon only shuts down after the
  whole timeout has passed without activity.
\<close>

subsection \<open>The sweep\<close>

text \<open>Durations and instants in nanoseconds.\<close>

definition secs :: "nat \<Rightarrow> nat" where
  "secs n = n * 1000000000"

definition DURATION_MAX :: nat where
  "DURATION_MAX = u64_max * 1000000000 + 999999999"

definition sweep_cadence :: "nat \<Rightarrow> nat" where
  "sweep_cadence ttl = (if ttl = 0 then secs 30 else max (min ttl (secs 30)) (secs 5))"

datatype sweep_decision = Skip | Evict

definition decide ::
  "launch_origin \<Rightarrow> managed_state \<Rightarrow> nat \<Rightarrow> nat option \<Rightarrow> nat \<Rightarrow> sweep_decision" where
  "decide org st inflight idle_for ttl =
     (if org \<noteq> AutoStart then Skip
      else if st \<noteq> MsReady then Skip
      else if inflight > 0 then Skip
      else (case idle_for of
              Some elapsed \<Rightarrow> if elapsed \<ge> ttl then Evict else Skip
            | None \<Rightarrow> Skip))"

text \<open>
  What a pass reads of one launch: its supervisor, its stamp in the MRU tracker, the TTL its
  preset pins (\<open>launch_ttls\<close>), and of its running row the demand it was admitted at and what
  \<open>launch_resident_bytes\<close> measures (\<open>None\<close> without a row).
\<close>

record launch_view =
  lv_id :: string
  lv_origin :: launch_origin
  lv_state :: managed_state
  lv_inflight :: nat
  lv_touched :: "nat option"
  lv_ttl :: "nat option"
  lv_row :: "(nat option \<times> nat) option"

text \<open>A launch once more, at the moment of its stop.\<close>

record recheck =
  rc_state :: managed_state
  rc_inflight :: nat

definition still_idle :: "recheck \<Rightarrow> bool" where
  "still_idle r \<longleftrightarrow> rc_state r = MsReady \<and> rc_inflight r = 0"

definition launch_ttl :: "nat \<Rightarrow> launch_view \<Rightarrow> nat" where
  "launch_ttl default_ttl v = (case lv_ttl v of Some t \<Rightarrow> t | None \<Rightarrow> default_ttl)"

text \<open>
  One pass: the launches the spawned tasks stop. \<open>later\<close> is what the task of a launch reads when
  it runs.
\<close>

definition sweep_evicts :: "nat \<Rightarrow> nat \<Rightarrow> launch_view \<Rightarrow> bool" where
  "sweep_evicts default_ttl now v \<longleftrightarrow>
     launch_ttl default_ttl v \<noteq> 0 \<and>
     decide (lv_origin v) (lv_state v) (lv_inflight v) (map_option (\<lambda>t. now - t) (lv_touched v))
       (launch_ttl default_ttl v) = Evict"

definition sweep_once ::
  "nat \<Rightarrow> nat \<Rightarrow> (string \<Rightarrow> recheck) \<Rightarrow> launch_view list \<Rightarrow> string list" where
  "sweep_once default_ttl now later snap =
     filter (\<lambda>i. still_idle (later i)) (map lv_id (filter (sweep_evicts default_ttl now) snap))"

text \<open>
  A sweep stops exactly the auto-started, ready launches with no request in flight that were
  touched, have been idle for a time-to-live that is not zero (the preset's, else the
  configured one), and are still ready and idle when the stop runs. A manual launch, a launch
  pinned to 0, and one that was never touched are never stopped.
\<close>

theorem sweep_stops_idle_only:
  "i \<in> set (sweep_once default_ttl now later snap) \<longleftrightarrow>
     (\<exists>v \<in> set snap. lv_id v = i \<and> lv_origin v = AutoStart \<and> lv_state v = MsReady \<and> lv_inflight v = 0 \<and>
        (\<exists>t. lv_touched v = Some t \<and> 0 < launch_ttl default_ttl v \<and> launch_ttl default_ttl v \<le> now - t)) \<and>
     rc_state (later i) = MsReady \<and> rc_inflight (later i) = 0"
  by (auto simp: sweep_once_def sweep_evicts_def decide_def still_idle_def image_iff
      split: option.splits if_splits; fastforce)

subsection \<open>Make-room\<close>

record room_candidate =
  cd_bytes :: nat
  cd_last_request_at :: "nat option"
  cd_target :: string

definition resident_estimate :: "nat option \<Rightarrow> nat \<Rightarrow> nat option" where
  "resident_estimate demand measured =
     (case demand of Some d \<Rightarrow> Some d | None \<Rightarrow> if measured > 0 then Some measured else None)"

definition room_credit :: "launch_view \<Rightarrow> nat option" where
  "room_credit v =
     (case lv_row v of Some (demand, measured) \<Rightarrow> resident_estimate demand measured | None \<Rightarrow> None)"

definition room_eligible :: "launch_view \<Rightarrow> bool" where
  "room_eligible v \<longleftrightarrow> lv_state v = MsReady \<and> \<not> lv_inflight v > 0 \<and> lv_origin v = AutoStart
     \<and> lv_ttl v \<noteq> Some 0 \<and> (case room_credit v of Some b \<Rightarrow> b > 0 | None \<Rightarrow> False)"

definition candidate_of :: "launch_view \<Rightarrow> room_candidate" where
  "candidate_of v = \<lparr>cd_bytes = the (room_credit v), cd_last_request_at = lv_touched v, cd_target = lv_id v\<rparr>"

text \<open>The sort key; the clock is read once here, where the code reads it per comparison.\<close>

definition idle_key :: "nat \<Rightarrow> room_candidate \<Rightarrow> nat" where
  "idle_key now c = (case cd_last_request_at c of Some t \<Rightarrow> now - t | None \<Rightarrow> DURATION_MAX)"

definition lru_cmp :: "nat \<Rightarrow> room_candidate \<Rightarrow> room_candidate \<Rightarrow> ordering" where
  "lru_cmp now a b = reverse_ordering (compare_nat (idle_key now a) (idle_key now b))"

definition room_candidates :: "nat \<Rightarrow> launch_view list \<Rightarrow> room_candidate list" where
  "room_candidates now snap = sort_by (lru_cmp now) (map candidate_of (filter room_eligible snap))"

fun pick_room :: "nat \<Rightarrow> nat \<Rightarrow> room_candidate list \<Rightarrow> room_candidate list \<times> nat" where
  "pick_room short freed [] = ([], freed)"
| "pick_room short freed (c # cs) =
     (let freed' = sat_add freed (cd_bytes c)
      in if freed' \<ge> short then ([c], freed')
         else (let (picked, total_freed) = pick_room short freed' cs in (c # picked, total_freed)))"

text \<open>\<open>make_room\<close>: the launches it stops and its answer.\<close>

definition make_room ::
  "refusal \<Rightarrow> nat \<Rightarrow> (string \<Rightarrow> recheck) \<Rightarrow> launch_view list \<Rightarrow> string list \<times> bool" where
  "make_room r now later snap =
     (let short = demand_bytes r - refusal_available r
      in if short = 0 then ([], False)
         else (let (picked, freed) = pick_room short 0 (room_candidates now snap)
               in if freed < short then ([], False)
                  else (let go = filter (\<lambda>c. still_idle (later (cd_target c))) picked;
                            freed_now = sat_sum (map cd_bytes go)
                        in if freed_now < short then ([], False) else (map cd_target go, True))))"

definition room_wait_window :: "nat \<Rightarrow> nat" where
  "room_wait_window sample_interval = max (secs 20) (min (sample_interval * 2) DURATION_MAX)"

interpretation lru_order: total_preorder "lru_cmp now"
  by unfold_locales (auto simp: lru_cmp_def reverse_ordering_def split: ordering.splits)

lemma lru_cmp_greater: "lru_cmp now a b = Greater \<longleftrightarrow> idle_key now a < idle_key now b"
  by (auto simp: lru_cmp_def reverse_ordering_def split: ordering.splits)

lemma room_candidates_sorted:
  "sorted_wrt (\<lambda>a b. idle_key now b \<le> idle_key now a) (room_candidates now snap)"
  using lru_order.sorted_sort_by[of now "map candidate_of (filter room_eligible snap)"]
  by (simp add: room_candidates_def lru_cmp_greater linorder_not_less)

text \<open>The picks are the shortest prefix whose credit covers the shortfall.\<close>

lemma pick_room_prefix:
  assumes "acc < short" "short \<le> u64_max" "pick_room short acc cs = (picked, freed)"
  shows "freed = min (acc + sum_list (map cd_bytes picked)) u64_max \<and> picked = take (length picked) cs \<and>
    (short \<le> freed \<longleftrightarrow> short \<le> acc + sum_list (map cd_bytes cs)) \<and>
    (picked \<noteq> [] \<longrightarrow> acc + sum_list (map cd_bytes (butlast picked)) < short)"
  using assms
proof (induction cs arbitrary: acc picked freed)
  case (Cons c cs)
  show ?case
  proof (cases "short \<le> sat_add acc (cd_bytes c)")
    case True
    then show ?thesis using Cons.prems by (auto simp: sat_add_def)
  next
    case False
    then have less: "acc + cd_bytes c < short" and add: "sat_add acc (cd_bytes c) = acc + cd_bytes c"
      using Cons.prems(2) by (auto simp: sat_add_def min_def split: if_splits)
    obtain more where more: "pick_room short (acc + cd_bytes c) cs = (more, freed)" "picked = c # more"
      using Cons.prems(3) False by (auto simp: add Let_def split: prod.splits)
    show ?thesis using Cons.IH[OF less Cons.prems(2) more(1)] more(2) less
      by (auto simp: add.assoc)
  qed
qed auto

text \<open>
  C8. Make-room answers no and stops nothing, or answers yes and stops launches that are
  together credited for at least the shortfall. Each of them is auto-started, ready and idle,
  both when it was chosen and again before the first stop, and not pinned to stay. They come
  from the least recently used ones, and without the last of the chosen the shortfall would not
  have been covered. It answers yes whenever the candidates cover the shortfall and stay idle.
\<close>

theorem make_room_all_or_nothing:
  assumes "make_room r now later snap = (stops, ok)" and "demand_bytes r \<le> u64_max"
  defines "short \<equiv> demand_bytes r - (effective_free_bytes r - reserved_bytes r)"
  shows "(\<not> ok \<longrightarrow> stops = []) \<and>
    (ok \<longrightarrow> (\<exists>chosen rest. room_candidates now snap = chosen @ rest \<and>
       stops = map cd_target (filter (\<lambda>c. still_idle (later (cd_target c))) chosen) \<and>
       0 < short \<and> short \<le> sum_list (map cd_bytes (filter (\<lambda>c. still_idle (later (cd_target c))) chosen)) \<and>
       sum_list (map cd_bytes (butlast chosen)) < short \<and>
       (\<forall>c \<in> set chosen. \<forall>c' \<in> set rest. idle_key now c' \<le> idle_key now c))) \<and>
    (\<forall>i \<in> set stops. still_idle (later i) \<and> (\<exists>v \<in> set snap. lv_id v = i \<and> lv_origin v = AutoStart \<and>
       lv_state v = MsReady \<and> lv_inflight v = 0 \<and> lv_ttl v \<noteq> Some 0)) \<and>
    (0 < short \<and> short \<le> sum_list (map cd_bytes (room_candidates now snap)) \<and>
       (\<forall>c \<in> set (room_candidates now snap). still_idle (later (cd_target c))) \<longrightarrow> ok)"
    (is "?nothing \<and> ?all \<and> ?idle \<and> ?complete")
proof -
  let ?cs = "room_candidates now snap"
  obtain picked freed where pick: "pick_room short 0 ?cs = (picked, freed)" by fastforce
  let ?go = "filter (\<lambda>c. still_idle (later (cd_target c))) picked"
  have run: "(stops, ok) = (if short = 0 then ([], False) else if freed < short then ([], False)
      else if sat_sum (map cd_bytes ?go) < short then ([], False) else (map cd_target ?go, True))"
    using assms(1)[symmetric]
    unfolding make_room_def refusal_available_def short_def[symmetric] Let_def pick prod.case .
  have bound: "short \<le> u64_max" using assms(2) by (simp add: short_def)
  have prefix: "freed = min (sum_list (map cd_bytes picked)) u64_max \<and> picked = take (length picked) ?cs \<and>
      (short \<le> freed \<longleftrightarrow> short \<le> sum_list (map cd_bytes ?cs)) \<and>
      (picked \<noteq> [] \<longrightarrow> sum_list (map cd_bytes (butlast picked)) < short)" if "0 < short"
    using pick_room_prefix[OF that bound pick] unfolding add_0 .
  have refused: ?nothing using run by (auto split: if_splits)
  have all: "stops = map cd_target ?go \<and> ?all" if ok
  proof -
    have r: "0 < short" "short \<le> freed" "short \<le> sat_sum (map cd_bytes ?go)" "stops = map cd_target ?go"
      using run that by (auto split: if_splits)
    note p = prefix[OF r(1)]
    have split: "?cs = picked @ drop (length picked) ?cs" using p by (metis append_take_drop_id)
    have "short \<le> sum_list (map cd_bytes ?go)" using r(3) sat_sum_le_sum order_trans by blast
    moreover have "sum_list (map cd_bytes (butlast picked)) < short" using p r(1) by (cases "picked = []") auto
    moreover have "\<forall>c \<in> set picked. \<forall>c' \<in> set (drop (length picked) ?cs). idle_key now c' \<le> idle_key now c"
      using room_candidates_sorted[of now snap] by (subst (asm) split) (simp add: sorted_wrt_append)
    ultimately show ?thesis using r split by blast
  qed
  have from_snap: "\<exists>v \<in> set snap. lv_id v = cd_target c \<and> room_eligible v" if "c \<in> set ?cs" for c
    using that by (auto simp: room_candidates_def candidate_of_def)
  have ?idle
  proof (cases ok)
    case True
    then have "stops = map cd_target ?go" "0 < short" using all run by (auto split: if_splits)
    moreover have "set picked \<subseteq> set ?cs" using prefix[OF \<open>0 < short\<close>] by (metis set_take_subset)
    ultimately show ?thesis using from_snap by (fastforce simp: room_eligible_def)
  next
    case False
    with refused have "stops = []" by simp
    then show ?thesis by simp
  qed
  moreover have ?complete
  proof (intro impI)
    assume h: "0 < short \<and> short \<le> sum_list (map cd_bytes ?cs) \<and> (\<forall>c \<in> set ?cs. still_idle (later (cd_target c)))"
    then have p: "short \<le> freed" "freed = sat_sum (map cd_bytes picked)" "set picked \<subseteq> set ?cs"
      using prefix set_take_subset[of "length picked" ?cs] by (auto simp: sat_sum_eq)
    then have "?go = picked" using h by (simp add: filter_id_conv subset_iff)
    then show ok using run h p by (simp split: if_splits)
  qed
  ultimately show ?thesis using refused all by blast
qed

definition sample_view :: "string \<Rightarrow> nat option \<Rightarrow> nat \<Rightarrow> launch_view" where
  "sample_view i touched b = \<lparr>lv_id = i, lv_origin = AutoStart, lv_state = MsReady,
     lv_inflight = 0, lv_touched = touched, lv_ttl = None, lv_row = Some (None, b)\<rparr>"

lemma sample_view_sel [simp]:
  "0 < b \<Longrightarrow> cd_bytes (candidate_of (sample_view i touched b)) = b"
  "cd_target (candidate_of (sample_view i touched b)) = i"
  "idle_key now (candidate_of (sample_view i touched b)) = (case touched of Some t \<Rightarrow> now - t | None \<Rightarrow> DURATION_MAX)"
  "0 < b \<Longrightarrow> room_eligible (sample_view i touched b)"
  by (simp_all add: candidate_of_def sample_view_def idle_key_def room_eligible_def room_credit_def
      resident_estimate_def)

theorem make_room_all_or_nothing_witness:
  "let r = \<lparr>demand_bytes = 10, effective_free_bytes = 6, reserved_bytes = 2\<rparr>;
       later = (\<lambda>_. \<lparr>rc_state = MsReady, rc_inflight = 0\<rparr>);
       snap = [sample_view ''L1'' (Some 90) 8, sample_view ''L2'' (Some 20) 7]
   in snd (make_room r 100 later snap)"
proof -
  let ?r = "\<lparr>demand_bytes = 10, effective_free_bytes = 6, reserved_bytes = 2\<rparr>"
  let ?later = "\<lambda>_::string. \<lparr>rc_state = MsReady, rc_inflight = 0\<rparr>"
  let ?snap = "[sample_view ''L1'' (Some 90) 8, sample_view ''L2'' (Some 20) 7]"
  have c: "room_candidates 100 ?snap = [candidate_of (sample_view ''L2'' (Some 20) 7), candidate_of (sample_view ''L1'' (Some 90) 8)]"
    by (simp add: room_candidates_def lru_cmp_greater)
  have "demand_bytes ?r \<le> u64_max" by (simp add: u64_max_def)
  note t = make_room_all_or_nothing[OF prod.collapse[symmetric] this, of 100 ?later ?snap,
      THEN conjunct2, THEN conjunct2, THEN conjunct2]
  have "snd (make_room ?r 100 ?later ?snap)"
    by (rule t[THEN mp]) (simp add: c still_idle_def)
  then show ?thesis by (simp only: Let_def)
qed

subsection \<open>Idle shutdown\<close>

text \<open>
  The activity clock: milliseconds since the base, kept at their maximum. Instants are
  nanoseconds since the base.
\<close>

definition millis :: "nat \<Rightarrow> nat" where
  "millis n = n * 1000000"

definition mark :: "nat \<Rightarrow> nat \<Rightarrow> nat" where
  "mark now stamp0 = max stamp0 ((now div 1000000) mod 2 ^ 64)"

definition idle_for :: "nat \<Rightarrow> nat \<Rightarrow> nat" where
  "idle_for now stamp0 = now - millis stamp0"

text \<open>A child in a terminal state is not work; a client attached or any other launch is.\<close>

definition is_busy :: "nat \<Rightarrow> managed_state list \<Rightarrow> bool" where
  "is_busy connections states \<longleftrightarrow>
     connections > 0 \<or> (\<exists>st \<in> set states. \<not> (st = Stopped \<or> (case st of MsError _ \<Rightarrow> True | _ \<Rightarrow> False)))"

text \<open>
  What happens to the poller: a connection marks the clock, or its timer fires and it looks at
  the connections and the launches. The result is the clock and whether it triggered.
\<close>

datatype idle_event = Marked | Polled nat "managed_state list"

fun idle_step :: "nat \<Rightarrow> nat \<times> idle_event \<Rightarrow> nat \<times> bool \<Rightarrow> nat \<times> bool" where
  "idle_step timeout (now, Marked) (stamp0, fired) = (mark now stamp0, fired)"
| "idle_step timeout (now, Polled connections states) (stamp0, fired) =
     (if fired then (stamp0, fired)
      else if is_busy connections states then (mark now stamp0, fired)
      else (stamp0, idle_for now stamp0 \<ge> timeout))"

definition idle_run :: "nat \<Rightarrow> (nat \<times> idle_event) list \<Rightarrow> nat \<times> bool" where
  "idle_run timeout es = fold (idle_step timeout) es (0, False)"

text \<open>The events that stamp the clock.\<close>

fun active :: "nat \<times> idle_event \<Rightarrow> bool" where
  "active (t, Marked) \<longleftrightarrow> True"
| "active (t, Polled connections states) \<longleftrightarrow> is_busy connections states"

lemma mark_covers:
  assumes "now div 1000000 < 2 ^ 64"
  shows "now < millis (mark now stamp0) + 1000000"
proof -
  have "mark now stamp0 = max stamp0 (now div 1000000)"
    unfolding mark_def using assms by (simp only: mod_less)
  then have "now div 1000000 * 1000000 \<le> millis (mark now stamp0)" by (simp add: millis_def)
  moreover have "now < now div 1000000 * 1000000 + 1000000"
    using dividend_less_div_times[of 1000000 now] by simp
  ultimately show ?thesis by linarith
qed

lemma mark_mono: "stamp0 \<le> mark now stamp0"
  by (simp add: mark_def)

lemma idle_step_active:
  "idle_step timeout (t, ev) (l, False) = (l', f') \<Longrightarrow> l' = (if active (t, ev) then mark t l else l)"
  by (cases ev) (auto split: if_splits)

lemma idle_step_fired: "snd s \<Longrightarrow> snd (idle_step timeout e s)"
  by (induction timeout e s rule: idle_step.induct) auto

definition clock_inv :: "(nat \<times> idle_event) list \<Rightarrow> nat \<Rightarrow> bool" where
  "clock_inv es l \<longleftrightarrow> (\<forall>e \<in> set es. active e \<longrightarrow> fst e < millis l + 1000000) \<and>
     (l = 0 \<or> (\<exists>e \<in> set es. active e \<and> l = fst e div 1000000))"

lemma clock_inv_mark:
  assumes "clock_inv es l" "t div 1000000 < 2 ^ 64" "active (t, ev)"
  shows "clock_inv (es @ [(t, ev)]) (mark t l)"
proof -
  have mono: "millis l \<le> millis (mark t l)" using mark_mono[of l t] by (simp add: millis_def)
  have "fst e < millis (mark t l) + 1000000" if "e \<in> set es" "active e" for e
    using assms(1) that mono unfolding clock_inv_def by fastforce
  moreover have "t < millis (mark t l) + 1000000" using assms(2) by (rule mark_covers)
  moreover have "mark t l = l \<or> mark t l = t div 1000000"
    unfolding mark_def max_def using mod_less[OF assms(2)] by simp
  ultimately show ?thesis using assms(1,3) by (auto simp: clock_inv_def)
qed

lemma idle_clock:
  assumes "\<forall>e \<in> set es. fst e div 1000000 < 2 ^ 64" and "idle_run timeout es = (l, False)"
  shows "clock_inv es l"
  using assms
proof (induction es arbitrary: l rule: rev_induct)
  case Nil
  then show ?case by (simp add: idle_run_def clock_inv_def)
next
  case (snoc e es)
  obtain l0 f0 where run: "idle_run timeout es = (l0, f0)" by fastforce
  obtain t ev where e: "e = (t, ev)" by fastforce
  have step: "idle_step timeout (t, ev) (l0, f0) = (l, False)"
    using snoc.prems(2) run by (simp add: idle_run_def e)
  then have f0: "\<not> f0" using idle_step_fired[of "(l0, f0)" timeout "(t, ev)"] by auto
  then have inv: "clock_inv es l0" using snoc.IH snoc.prems(1) run by simp
  have l: "l = (if active (t, ev) then mark t l0 else l0)"
    using step f0 idle_step_active[of timeout t ev l0 l False] by simp
  show ?case
  proof (cases "active (t, ev)")
    case True
    then show ?thesis using clock_inv_mark[OF inv _ True] snoc.prems(1) l by (simp add: e)
  next
    case False
    then show ?thesis using inv l by (auto simp: clock_inv_def e)
  qed
qed

text \<open>
  The idle poller shuts the daemon down exactly at a poll that finds no client and no live
  launch once the timeout has passed since the last activity, to within the millisecond the
  clock rounds down by: no activity is newer than that, and it does fire when none is.
\<close>

theorem idle_shutdown_after_timeout:
  assumes "\<forall>e \<in> set es. fst e div 1000000 < 2 ^ 64" and past: "\<forall>e \<in> set es. fst e \<le> t"
    and idle: "\<not> snd (idle_run timeout es)"
  shows "(snd (idle_run timeout (es @ [(t, Polled connections states)])) \<longrightarrow>
      connections = 0 \<and> (\<forall>st \<in> set states. terminal st) \<and> timeout \<le> t \<and>
      (\<forall>e \<in> set es. active e \<longrightarrow> fst e + timeout < t + 1000000)) \<and>
    (connections = 0 \<and> (\<forall>st \<in> set states. terminal st) \<and> timeout \<le> t \<and>
      (\<forall>e \<in> set es. active e \<longrightarrow> fst e + timeout \<le> t) \<longrightarrow>
      snd (idle_run timeout (es @ [(t, Polled connections states)])))"
proof -
  obtain l where run: "idle_run timeout es = (l, False)" using idle by (cases "idle_run timeout es") simp
  note clock = idle_clock[OF assms(1) run, unfolded clock_inv_def]
  have over: "terminal st \<longleftrightarrow> st = Stopped \<or> (case st of MsError _ \<Rightarrow> True | _ \<Rightarrow> False)" for st
    by (cases st) simp_all
  have busy: "is_busy connections states \<longleftrightarrow> \<not> (connections = 0 \<and> (\<forall>st \<in> set states. terminal st))"
    by (auto simp: is_busy_def over)
  have fires: "snd (idle_run timeout (es @ [(t, Polled connections states)])) \<longleftrightarrow>
      \<not> is_busy connections states \<and> timeout \<le> t - millis l"
    using run by (simp add: idle_run_def idle_for_def)
  have "fst e + timeout < t + 1000000" if "timeout \<le> t - millis l" "e \<in> set es" "active e" for e
  proof (cases "millis l \<le> t")
    case True
    moreover have "fst e < millis l + 1000000" using clock that by blast
    ultimately show ?thesis using that(1) by linarith
  next
    case False
    then have "timeout = 0" using that(1) by simp
    then show ?thesis using past that(2) by fastforce
  qed
  moreover have "timeout \<le> t - millis l"
    if h: "timeout \<le> t" "\<forall>e \<in> set es. active e \<longrightarrow> fst e + timeout \<le> t"
  proof (cases "l = 0")
    case True
    then show ?thesis using h(1) by (simp add: millis_def)
  next
    case False
    then obtain e where "e \<in> set es" "active e" "l = fst e div 1000000" using clock by blast
    then have "millis l \<le> fst e" "fst e + timeout \<le> t" using h(2) by (auto simp: millis_def)
    then show ?thesis by linarith
  qed
  ultimately show ?thesis unfolding fires busy by auto
qed

theorem idle_shutdown_after_timeout_witness:
  "snd (idle_run 5000000 [(1000000, Marked), (7000000, Polled 0 [Stopped])])"
  using idle_shutdown_after_timeout[of "[(1000000, Marked)]" 7000000 5000000 0 "[Stopped]"]
  by (simp add: idle_run_def)

end
