(* ===== verification/Fallback.thy ===== *)
theory Fallback
  imports Identity Headroom Stable_Sort
begin

text \<open>
  What the proxy does when an auto-start fails: \<open>src/proxy/mru.rs\<close> (which running model serves
  instead) and \<open>src/proxy/failure_tracker.rs\<close> (when to stop trying). Shown: the fallback is
  the first of the freshest of the requested family, and auto-start is suppressed exactly while
  the sliding window holds the limit of failures.
\<close>

subsection \<open>Most recently used\<close>

text \<open>Instants are nanoseconds on the monotone clock.\<close>

type_synonym mru_tracker = "model_id \<rightharpoonup> nat"

definition touch :: "model_id \<Rightarrow> nat \<Rightarrow> mru_tracker \<Rightarrow> mru_tracker" where
  "touch i now m = m(i \<mapsto> now)"

definition last_request_at :: "model_id \<Rightarrow> mru_tracker \<Rightarrow> nat option" where
  "last_request_at i m = m i"

record fallback_candidate =
  fc_model_id :: model_id
  fc_arch :: "string option"
  fc_last_request_at :: "nat option"
  fc_port :: nat
  fc_served_model_id :: string

definition arch_rank :: "string option \<Rightarrow> fallback_candidate \<Rightarrow> nat" where
  "arch_rank failed_arch c =
     (case (failed_arch, fc_arch c) of
        (Some want, Some have_arch) \<Rightarrow> if want = have_arch then 0 else 1
      | (Some _, _) \<Rightarrow> 1
      | (None, _) \<Rightarrow> 0)"

definition fallback_cmp :: "string option \<Rightarrow> fallback_candidate \<Rightarrow> fallback_candidate \<Rightarrow> ordering" where
  "fallback_cmp failed_arch a b =
     (let a_rank = arch_rank failed_arch a; b_rank = arch_rank failed_arch b
      in if a_rank \<noteq> b_rank then compare_nat a_rank b_rank
         else (case (fc_last_request_at a, fc_last_request_at b) of
                 (Some ta, Some tb) \<Rightarrow> compare_nat tb ta
               | (Some _, None) \<Rightarrow> Less
               | (None, Some _) \<Rightarrow> Greater
               | (None, None) \<Rightarrow> Equal))"

definition pick_fallback ::
  "fallback_candidate list \<Rightarrow> string option \<Rightarrow> fallback_candidate option" where
  "pick_fallback candidates failed_arch =
     (if candidates = [] then None
      else (case sort_by (fallback_cmp failed_arch) candidates of [] \<Rightarrow> None | c # _ \<Rightarrow> Some c))"

text \<open>Freshness: a stamp beats no stamp, a later one an earlier one.\<close>

definition fresher :: "nat option \<Rightarrow> nat option \<Rightarrow> bool" where
  "fresher s t \<longleftrightarrow> (case (s, t) of (Some a, Some b) \<Rightarrow> b < a | (Some _, None) \<Rightarrow> True | (None, _) \<Rightarrow> False)"

lemma fallback_cmp_greater:
  "fallback_cmp w a b = Greater \<longleftrightarrow> arch_rank w b < arch_rank w a \<or>
     arch_rank w a = arch_rank w b \<and> fresher (fc_last_request_at b) (fc_last_request_at a)"
  by (auto simp: fallback_cmp_def fresher_def Let_def split: option.splits)

interpretation fallback_order: total_preorder "fallback_cmp failed_arch"
  by unfold_locales (auto simp: fallback_cmp_greater fresher_def split: option.splits)

lemma arch_rank_zero:
  "arch_rank (Some w) c = 0 \<longleftrightarrow> fc_arch c = Some w" "arch_rank None c = 0"
  by (auto simp: arch_rank_def split: option.splits)

text \<open>
  A fallback is found exactly when a candidate is ready. It is of the requested family when
  any candidate is, no candidate of its standing is fresher, and among equally good candidates it is
  the first.
\<close>

theorem pick_fallback_best:
  "(pick_fallback cs failed_arch = None \<longleftrightarrow> cs = []) \<and>
   (\<forall>c. pick_fallback cs failed_arch = Some c \<longrightarrow>
      (\<exists>pre post. cs = pre @ c # post \<and>
         (\<forall>x \<in> set cs. failed_arch \<noteq> None \<and> fc_arch x = failed_arch \<longrightarrow> fc_arch c = failed_arch) \<and>
         (\<forall>x \<in> set cs. (failed_arch = None \<or> (fc_arch x = failed_arch \<longleftrightarrow> fc_arch c = failed_arch)) \<longrightarrow>
            \<not> fresher (fc_last_request_at x) (fc_last_request_at c)) \<and>
         (\<forall>x \<in> set pre. fallback_cmp failed_arch x c = Greater)))"
proof (intro conjI allI impI)
  show "pick_fallback cs failed_arch = None \<longleftrightarrow> cs = []"
    using length_sort_by[of "fallback_cmp failed_arch" cs]
    by (cases "sort_by (fallback_cmp failed_arch) cs") (auto simp: pick_fallback_def)
next
  fix c assume "pick_fallback cs failed_arch = Some c"
  then obtain ys where "sort_by (fallback_cmp failed_arch) cs = c # ys"
    by (auto simp: pick_fallback_def split: if_splits list.splits)
  from fallback_order.head_first_least[OF this]
  obtain pre post where split: "cs = pre @ c # post"
    "\<forall>x \<in> set pre. fallback_cmp failed_arch x c = Greater"
    "\<forall>x \<in> set post. fallback_cmp failed_arch c x \<noteq> Greater"
    by blast
  have least: "fallback_cmp failed_arch c x \<noteq> Greater" if "x \<in> set cs" for x
    using that split fallback_order.total fallback_order.self by auto
  have "fc_arch c = failed_arch" if fam: "x \<in> set cs" "failed_arch \<noteq> None" "fc_arch x = failed_arch" for x
  proof -
    obtain w where w: "failed_arch = Some w" using fam(2) by auto
    then have "arch_rank failed_arch x = 0" using fam(3) arch_rank_zero(1) by simp
    then have "arch_rank failed_arch c = 0" using least[OF fam(1)] by (auto simp: fallback_cmp_greater)
    then show ?thesis using w arch_rank_zero(1) by simp
  qed
  moreover have "\<not> fresher (fc_last_request_at x) (fc_last_request_at c)"
    if "x \<in> set cs" "failed_arch = None \<or> (fc_arch x = failed_arch \<longleftrightarrow> fc_arch c = failed_arch)" for x
  proof -
    have "arch_rank failed_arch x = arch_rank failed_arch c"
      using that(2) by (auto simp: arch_rank_def split: option.splits)
    then show ?thesis using least[OF that(1)] by (simp add: fallback_cmp_greater)
  qed
  ultimately show "\<exists>pre post. cs = pre @ c # post \<and>
         (\<forall>x \<in> set cs. failed_arch \<noteq> None \<and> fc_arch x = failed_arch \<longrightarrow> fc_arch c = failed_arch) \<and>
         (\<forall>x \<in> set cs. (failed_arch = None \<or> (fc_arch x = failed_arch \<longleftrightarrow> fc_arch c = failed_arch)) \<longrightarrow>
            \<not> fresher (fc_last_request_at x) (fc_last_request_at c)) \<and>
         (\<forall>x \<in> set pre. fallback_cmp failed_arch x c = Greater)"
    using split(1,2) by blast
qed

definition sample_candidate :: "string \<Rightarrow> string option \<Rightarrow> nat option \<Rightarrow> fallback_candidate" where
  "sample_candidate name arch stamp =
     \<lparr>fc_model_id = \<lparr>mid_path = name, mid_header_blake3 = []\<rparr>, fc_arch = arch,
      fc_last_request_at = stamp, fc_port = 18000, fc_served_model_id = name\<rparr>"

theorem pick_fallback_best_witness:
  "let family = sample_candidate ''/m/old.gguf'' (Some ''qwen3'') (Some 10);
       other = sample_candidate ''/m/new.gguf'' (Some ''llama'') (Some 90)
   in \<exists>c. pick_fallback [other, family] (Some ''qwen3'') = Some c \<and> fc_arch c = Some ''qwen3''"
  using pick_fallback_best[of "[sample_candidate ''/m/new.gguf'' (Some ''llama'') (Some 90),
      sample_candidate ''/m/old.gguf'' (Some ''qwen3'') (Some 10)]" "Some ''qwen3''"]
  by (auto simp: Let_def sample_candidate_def)

subsection \<open>Recent failures\<close>

definition MAX_FAILURES :: nat where
  "MAX_FAILURES = 3"

definition WINDOW_SECS :: nat where
  "WINDOW_SECS = 60"

definition nanos :: "nat \<Rightarrow> int" where
  "nanos secs = int secs * 1000000000"

text \<open>Instants as signed nanoseconds: the cutoff may lie before the clock's origin.\<close>

type_synonym failure_tracker = "model_id \<rightharpoonup> int list"

definition retain_recent :: "int \<Rightarrow> int list \<Rightarrow> int list" where
  "retain_recent now bucket = filter (\<lambda>t. t \<ge> now - nanos WINDOW_SECS) bucket"

definition note_failure :: "model_id \<Rightarrow> int \<Rightarrow> failure_tracker \<Rightarrow> failure_tracker" where
  "note_failure i now tr =
     tr(i \<mapsto> retain_recent now (case tr i of Some bucket \<Rightarrow> bucket | None \<Rightarrow> []) @ [now])"

definition suppressed_cause :: "nat \<Rightarrow> nat \<Rightarrow> string" where
  "suppressed_cause failed elapsed = ''auto-start suppressed: '' @ show_nat failed
     @ '' failed attempts in the last '' @ show_nat elapsed @ '' s (limit '' @ show_nat MAX_FAILURES
     @ '' in '' @ show_nat WINDOW_SECS
     @ '' s); restart the daemon or run `llamastash start` manually to see the underlying error''"

definition over_limit :: "model_id \<Rightarrow> int \<Rightarrow> failure_tracker \<Rightarrow> string option \<times> failure_tracker" where
  "over_limit i now tr =
     (case tr i of
        None \<Rightarrow> (None, tr)
      | Some b \<Rightarrow>
          (let bucket = retain_recent now b; failed = length bucket
           in (if failed \<ge> MAX_FAILURES
               then (let oldest = (case bucket of [] \<Rightarrow> now | t # _ \<Rightarrow> t);
                         elapsed = nat (max 0 (now - oldest)) div 1000000000
                     in Some (suppressed_cause failed elapsed))
               else None,
               tr(i \<mapsto> bucket))))"

definition clear :: "model_id \<Rightarrow> failure_tracker \<Rightarrow> failure_tracker" where
  "clear i tr = tr(i := None)"

text \<open>What the proxy calls, each at its instant.\<close>

datatype failure_op = Noted model_id | Checked model_id | Cleared model_id

fun failure_step :: "int \<times> failure_op \<Rightarrow> failure_tracker \<Rightarrow> failure_tracker" where
  "failure_step (t, Noted i) tr = note_failure i t tr"
| "failure_step (t, Checked i) tr = snd (over_limit i t tr)"
| "failure_step (t, Cleared i) tr = clear i tr"

text \<open>The failures of a model since it was last cleared, oldest first.\<close>

fun failures_of :: "model_id \<Rightarrow> (int \<times> failure_op) list \<Rightarrow> int list \<Rightarrow> int list" where
  "failures_of i [] acc = acc"
| "failures_of i ((t, Noted j) # ops) acc = failures_of i ops (if j = i then acc @ [t] else acc)"
| "failures_of i ((t, Checked j) # ops) acc = failures_of i ops acc"
| "failures_of i ((t, Cleared j) # ops) acc = failures_of i ops (if j = i then [] else acc)"

definition bucket_of :: "model_id \<Rightarrow> failure_tracker \<Rightarrow> int list" where
  "bucket_of i tr = (case tr i of Some b \<Rightarrow> b | None \<Rightarrow> [])"

lemma retain_retain:
  "now \<le> later \<Longrightarrow> retain_recent later (retain_recent now b) = retain_recent later b"
  unfolding retain_recent_def filter_filter by (rule filter_cong) auto

lemma retain_append [simp]: "retain_recent now (a @ b) = retain_recent now a @ retain_recent now b"
  by (simp add: retain_recent_def)

lemma failures_run:
  assumes "sorted_wrt (\<lambda>a b. fst a \<le> fst b) ops" "\<forall>op \<in> set ops. fst op \<le> now"
    and "\<forall>later \<ge> (case ops of [] \<Rightarrow> now | op # _ \<Rightarrow> fst op).
      retain_recent later (bucket_of i tr) = retain_recent later acc"
  shows "retain_recent now (bucket_of i (fold failure_step ops tr)) = retain_recent now (failures_of i ops acc)"
  using assms
proof (induction ops arbitrary: tr acc)
  case Nil
  then show ?case by simp
next
  case (Cons op ops)
  obtain t act where op: "op = (t, act)" by fastforce
  define acc' where "acc' = failures_of i [op] acc"
  have later: "t \<le> (case ops of [] \<Rightarrow> now | op # _ \<Rightarrow> fst op)"
    using Cons.prems(1,2) by (auto simp: op split: list.splits)
  have same: "retain_recent s (bucket_of i (failure_step op tr)) = retain_recent s acc'" if "t \<le> s" for s
  proof -
    have hyp: "retain_recent s (bucket_of i tr) = retain_recent s acc"
      using Cons.prems(3) that by (simp add: op)
    show ?thesis
    proof (cases act)
      case (Noted j)
      then show ?thesis using hyp that
        by (cases "tr i") (auto simp: op acc'_def bucket_of_def note_failure_def retain_retain)
    next
      case (Checked j)
      then show ?thesis using hyp that
        by (auto simp: op acc'_def bucket_of_def over_limit_def Let_def retain_retain split: option.splits)
    next
      case (Cleared j)
      then show ?thesis using hyp by (simp add: op acc'_def bucket_of_def clear_def)
    qed
  qed
  have "retain_recent now (bucket_of i (fold failure_step ops (failure_step op tr)))
      = retain_recent now (failures_of i ops acc')"
    by (rule Cons.IH) (use Cons.prems(1,2) same later in auto)
  moreover have "failures_of i (op # ops) acc = failures_of i ops acc'"
    by (cases act) (simp_all add: op acc'_def)
  ultimately show ?case by simp
qed

text \<open>
  Over any history of failures, checks and clears at non-decreasing instants, a check
  suppresses the auto-start of a model exactly when at least three of its failures since it was
  last cleared lie within the last 60 s; the pruning on the way never loses one that counts.
\<close>

theorem over_limit_iff_recent:
  assumes "sorted_wrt (\<lambda>a b. fst a \<le> fst b) ops" and "\<forall>op \<in> set ops. fst op \<le> now"
  shows "fst (over_limit i now (fold failure_step ops (\<lambda>_. None))) \<noteq> None \<longleftrightarrow>
    3 \<le> length (filter (\<lambda>t. now - 60000000000 \<le> t) (failures_of i ops []))"
proof -
  let ?tr = "fold failure_step ops (\<lambda>_. None)"
  have "retain_recent now (bucket_of i ?tr) = retain_recent now (failures_of i ops [])"
    by (rule failures_run[OF assms]) (simp add: bucket_of_def)
  moreover have "fst (over_limit i now ?tr) \<noteq> None \<longleftrightarrow> MAX_FAILURES \<le> length (retain_recent now (bucket_of i ?tr))"
    by (auto simp: over_limit_def bucket_of_def Let_def MAX_FAILURES_def retain_recent_def split: option.splits)
  ultimately show ?thesis by (simp add: retain_recent_def MAX_FAILURES_def WINDOW_SECS_def nanos_def)
qed

theorem over_limit_iff_recent_witness:
  "let m = \<lparr>mid_path = ''/m.gguf'', mid_header_blake3 = []\<rparr>;
       ops = [(1, Noted m), (2, Noted m), (5, Checked m), (7, Noted m)]
   in fst (over_limit m 9 (fold failure_step ops (\<lambda>_. None))) \<noteq> None"
  using over_limit_iff_recent[of "[(1, Noted m), (2, Noted m), (5, Checked m), (7, Noted m)]" 9 m
    for m :: model_id]
  by (simp add: Let_def)

end
