(* ===== verification/Launch_Log.thy ===== *)
theory Launch_Log
  imports Gguf_Header
begin

text \<open>
  The log of one launch, \<open>src/daemon/supervisor.rs\<close>: the ring of its last lines, the rotating
  writer over a file system of a base file and its numbered segments, and the pump that feeds
  both. Shown: the ring holds the last lines in order, a rotation loses the oldest segment
  alone and keeps the rest in order, and what the writer was given is still on disk, in order,
  up to the segments it was entitled to drop.
\<close>

subsection \<open>The ring\<close>

record ring =
  rb_inner :: "string list"
  rb_capacity :: nat

definition with_capacity :: "nat \<Rightarrow> ring" where
  "with_capacity c = \<lparr>rb_inner = [], rb_capacity = c\<rparr>"

definition push_copy :: "string \<Rightarrow> ring \<Rightarrow> ring" where
  "push_copy line r =
     (if rb_capacity r = 0 then r
      else if length (rb_inner r) = rb_capacity r
      then r\<lparr>rb_inner := (case rb_inner r of [] \<Rightarrow> [line] | _ # rest \<Rightarrow> rest @ [line])\<rparr>
      else r\<lparr>rb_inner := rb_inner r @ [line]\<rparr>)"

definition ring_tail :: "nat \<Rightarrow> ring \<Rightarrow> string list" where
  "ring_tail limit r =
     (let take_n = min limit (length (rb_inner r))
      in drop (length (rb_inner r) - take_n) (rb_inner r))"

text \<open>The last \<open>n\<close> elements.\<close>

definition last_n :: "nat \<Rightarrow> 'a list \<Rightarrow> 'a list" where
  "last_n n xs = drop (length xs - n) xs"

lemma last_n_last_n [simp]: "last_n m (last_n n xs) = last_n (min m n) xs"
  by (cases "n \<le> length xs") (auto simp: last_n_def min_def intro!: arg_cong2[where f = drop])

lemma length_last_n [simp]: "length (last_n n xs) = min n (length xs)"
  by (simp add: last_n_def min_def)

lemma last_n_snoc: "0 < n \<Longrightarrow> last_n n (xs @ [x]) = last_n (n - 1) xs @ [x]"
  by (simp add: last_n_def drop_Cons' Suc_diff_le split: nat_diff_split)

lemma last_n_all: "length xs \<le> n \<Longrightarrow> last_n n xs = xs"
  by (simp add: last_n_def)

lemma push_copy_last:
  assumes "rb_inner r = last_n (rb_capacity r) xs"
  shows "rb_inner (push_copy line r) = last_n (rb_capacity r) (xs @ [line])"
    and "rb_capacity (push_copy line r) = rb_capacity r"
proof -
  show "rb_capacity (push_copy line r) = rb_capacity r" by (simp add: push_copy_def)
  show "rb_inner (push_copy line r) = last_n (rb_capacity r) (xs @ [line])"
  proof (cases "length xs < rb_capacity r")
    case True
    then show ?thesis using assms by (simp add: push_copy_def last_n_all)
  next
    case False
    have "tl (last_n (rb_capacity r) xs) = last_n (rb_capacity r - 1) xs"
      if "0 < rb_capacity r"
    proof -
      have "length xs - (rb_capacity r - 1) = Suc (length xs - rb_capacity r)" using that False by simp
      then show ?thesis by (simp add: last_n_def drop_Suc tl_drop)
    qed
    with False assms show ?thesis
      by (auto simp: push_copy_def last_n_snoc last_n_def[of 0] split: list.splits)
  qed
qed

text \<open>The ring holds the last lines, as many as its capacity, in the order they arrived.\<close>

lemma ring_keeps_last:
  "rb_inner (fold push_copy lines (with_capacity c)) = last_n c lines \<and>
   ring_tail limit (fold push_copy lines (with_capacity c)) = last_n (min limit c) lines"
proof -
  have "rb_inner (fold push_copy lines (with_capacity c)) = last_n c lines \<and>
      rb_capacity (fold push_copy lines (with_capacity c)) = c"
  proof (induction lines rule: rev_induct)
    case Nil
    then show ?case by (simp add: with_capacity_def last_n_def)
  next
    case (snoc line lines)
    then show ?case using push_copy_last by simp
  qed
  then show ?thesis
    by (simp add: ring_tail_def last_n_def Let_def min_def)
qed

subsection \<open>The files\<close>

definition LOG_ROTATE_BYTES :: nat where
  "LOG_ROTATE_BYTES = 10 * 1024 * 1024"

definition LOG_KEEP_SEGMENTS :: nat where
  "LOG_KEEP_SEGMENTS = 5"

text \<open>
  The base file and its segments \<open>.n\<close> by content, and the file the writer's descriptor is open
  on: a rename takes the open file along, and an unlinked file has no name left.
\<close>

datatype open_file = AtBase | AtSegment nat | Unlinked

record log_disk =
  base_file :: "string option"
  segment_file :: "nat \<Rightarrow> string option"
  fd :: open_file
  written :: nat

datatype fs_op = RemoveSegment nat | RenameSegment nat nat | RenameBase nat | OpenBase

text \<open>
  What the file system answers during one call of the writer: which operations succeed, and
  how many bytes of the line get out when the write itself fails.
\<close>

record disk_io =
  io_ok :: "fs_op \<Rightarrow> bool"
  io_short :: "nat option"

definition remove_segment :: "nat \<Rightarrow> log_disk \<Rightarrow> log_disk" where
  "remove_segment n d = d\<lparr>segment_file := (segment_file d)(n := None),
     fd := (if fd d = AtSegment n then Unlinked else fd d)\<rparr>"

text \<open>A rename onto a name unlinks what the name stood for.\<close>

definition rename_segment :: "nat \<Rightarrow> nat \<Rightarrow> log_disk \<Rightarrow> log_disk" where
  "rename_segment n k d = d\<lparr>segment_file := (segment_file d)(k := segment_file d n, n := None),
     fd := (if fd d = AtSegment n then AtSegment k else if fd d = AtSegment k then Unlinked else fd d)\<rparr>"

definition rename_base :: "nat \<Rightarrow> log_disk \<Rightarrow> log_disk" where
  "rename_base k d = d\<lparr>base_file := None, segment_file := (segment_file d)(k := base_file d),
     fd := (if fd d = AtBase then AtSegment k else if fd d = AtSegment k then Unlinked else fd d)\<rparr>"

fun shift_segments :: "(fs_op \<Rightarrow> bool) \<Rightarrow> nat \<Rightarrow> log_disk \<Rightarrow> bool \<times> log_disk" where
  "shift_segments ok 0 d = (True, d)"
| "shift_segments ok (Suc n) d =
     (if segment_file d (Suc n) = None then shift_segments ok n d
      else if ok (RenameSegment (Suc n) (Suc (Suc n)))
      then shift_segments ok n (rename_segment (Suc n) (Suc (Suc n)) d)
      else (False, d))"

definition drop_oldest :: "nat \<Rightarrow> log_disk \<Rightarrow> log_disk" where
  "drop_oldest keep d = (if segment_file d keep \<noteq> None then remove_segment keep d else d)"

text \<open>\<open>rotate_segments\<close>: whether it succeeded, and what it did up to there.\<close>

definition rotate_segments :: "(fs_op \<Rightarrow> bool) \<Rightarrow> nat \<Rightarrow> log_disk \<Rightarrow> bool \<times> log_disk" where
  "rotate_segments ok keep d =
     (if segment_file d keep \<noteq> None \<and> \<not> ok (RemoveSegment keep) then (False, d)
      else
        (let (shifted, d2) = shift_segments ok (keep - 1) (drop_oldest keep d)
         in if \<not> shifted then (False, d2)
            else if base_file d2 = None then (True, d2)
            else if ok (RenameBase 1) then (True, rename_base 1 d2)
            else (False, d2)))"

text \<open>\<open>LogWriter::open\<close> on a disk (the directory can be made), and opening the base again.\<close>

definition open_writer :: "log_disk \<Rightarrow> log_disk" where
  "open_writer d = d\<lparr>base_file := Some (case base_file d of Some b \<Rightarrow> b | None \<Rightarrow> []), fd := AtBase,
     written := (case base_file d of Some b \<Rightarrow> length b | None \<Rightarrow> 0)\<rparr>"

definition rotate :: "(fs_op \<Rightarrow> bool) \<Rightarrow> log_disk \<Rightarrow> bool \<times> log_disk" where
  "rotate ok d =
     (let (rotated, d1) = rotate_segments ok LOG_KEEP_SEGMENTS d
      in if \<not> rotated then (False, d1)
         else if ok OpenBase then (True, (open_writer d1)\<lparr>written := 0\<rparr>)
         else (False, d1))"

definition append_open :: "string \<Rightarrow> log_disk \<Rightarrow> log_disk" where
  "append_open bs d =
     (case fd d of
        AtBase \<Rightarrow> d\<lparr>base_file := map_option (\<lambda>b. b @ bs) (base_file d)\<rparr>
      | AtSegment n \<Rightarrow>
          d\<lparr>segment_file := (segment_file d)(n := map_option (\<lambda>b. b @ bs) (segment_file d n))\<rparr>
      | Unlinked \<Rightarrow> d)"

text \<open>\<open>write_line\<close>: whether the line was written; a failed rotation is swallowed.\<close>

definition write_line :: "disk_io \<Rightarrow> string \<Rightarrow> log_disk \<Rightarrow> bool \<times> log_disk" where
  "write_line io body d =
     (case io_short io of
        Some k \<Rightarrow> (False, append_open (take k (body @ [CHR 0x0A])) d)
      | None \<Rightarrow>
          (let d1 = (append_open (body @ [CHR 0x0A]) d)\<lparr>written := written d + (length body + 1)\<rparr>
           in (True, if LOG_ROTATE_BYTES \<le> written d1 then snd (rotate (io_ok io) d1) else d1)))"

subsection \<open>Rotation\<close>

lemma shift_segments_ok:
  assumes "\<And>n k. ok (RenameSegment n k)"
  shows "fst (shift_segments ok n d) \<and>
    segment_file (snd (shift_segments ok n d)) =
      (\<lambda>k. if k = 0 then segment_file d 0
           else if k = 1 then (if n = 0 then segment_file d 1 else None)
           else if k \<le> n then segment_file d (k - 1)
           else if k = Suc n \<and> segment_file d n \<noteq> None then segment_file d n
           else segment_file d k)
    \<and> base_file (snd (shift_segments ok n d)) = base_file d
    \<and> (fd d = AtBase \<longrightarrow> fd (snd (shift_segments ok n d)) = AtBase)
    \<and> written (snd (shift_segments ok n d)) = written d"
proof (induction n arbitrary: d)
  case 0
  then show ?case by (auto simp: fun_eq_iff)
next
  case (Suc n)
  show ?case
  proof (cases "segment_file d (Suc n) = None")
    case True
    with Suc[of d] show ?thesis by (auto simp: fun_eq_iff le_Suc_eq)
  next
    case False
    with Suc[of "rename_segment (Suc n) (Suc (Suc n)) d"] assms show ?thesis
      by (auto simp: fun_eq_iff le_Suc_eq rename_segment_def)
  qed
qed

text \<open>A shift that may fail half-way, into a free last segment.\<close>

lemma shift_segments_keeps:
  assumes "segment_file d (Suc n) = None" and "shift_segments ok n d = (done_all, d')"
  shows "(segment_file d k = Some c \<longrightarrow> segment_file d' k = Some c \<or> segment_file d' (Suc k) = Some c)
    \<and> base_file d' = base_file d \<and> (done_all \<longrightarrow> segment_file d' 1 = None)
    \<and> (Suc n < k \<longrightarrow> segment_file d' k = segment_file d k)"
  using assms
proof (induction n arbitrary: d k)
  case (Suc n)
  show ?case
  proof (cases "segment_file d (Suc n) = None")
    case True
    with Suc.IH[of d k] Suc.prems show ?thesis by auto
  next
    case False
    show ?thesis
    proof (cases "ok (RenameSegment (Suc n) (Suc (Suc n)))")
      case ok: True
      let ?r = "rename_segment (Suc n) (Suc (Suc n)) d"
      have free: "segment_file ?r (Suc n) = None" by (simp add: rename_segment_def)
      have run: "shift_segments ok n ?r = (done_all, d')" using Suc.prems False ok by simp
      note IH = Suc.IH[OF free run]
      have "segment_file d' (Suc (Suc n)) = segment_file d (Suc n)"
        using IH[of "Suc (Suc n)"] by (simp add: rename_segment_def)
      moreover have "segment_file ?r k = segment_file d k" if "k \<noteq> Suc n" "k \<noteq> Suc (Suc n)"
        using that by (simp add: rename_segment_def)
      moreover have "base_file ?r = base_file d" by (simp add: rename_segment_def)
      ultimately show ?thesis using IH[of k] Suc.prems(1) by (cases "k = Suc n"; cases "k = Suc (Suc n)") auto
    qed (use Suc.prems False in auto)
  qed
qed auto

lemma rotate_segments_ok:
  assumes "\<And>n. ok (RemoveSegment n)" "\<And>n k. ok (RenameSegment n k)" "ok (RenameBase 1)" "0 < keep"
  shows "fst (rotate_segments ok keep d) \<and>
    segment_file (snd (rotate_segments ok keep d)) =
      (\<lambda>k. if k = 1 then base_file d
           else if 1 < k \<and> k \<le> keep then segment_file d (k - 1) else segment_file d k)
    \<and> base_file (snd (rotate_segments ok keep d)) = None
    \<and> written (snd (rotate_segments ok keep d)) = written d"
proof -
  obtain n where n: "keep = Suc n" using assms(4) by (cases keep) auto
  define d1 where "d1 = drop_oldest keep d"
  have d1: "segment_file d1 = (segment_file d)(Suc n := None)" "base_file d1 = base_file d"
    "written d1 = written d"
    by (auto simp: d1_def n drop_oldest_def remove_segment_def fun_eq_iff)
  obtain fin d2 where run: "shift_segments ok n d1 = (fin, d2)" by fastforce
  have s: "fin" "base_file d2 = base_file d" "written d2 = written d"
    using shift_segments_ok[of ok n d1, OF assms(2)] run by (simp_all add: d1)
  have segs: "segment_file d2 k = (if k = 1 then None
      else if 1 < k \<and> k \<le> keep then segment_file d (k - 1) else segment_file d k)" for k
  proof -
    have "segment_file d2 k = (if k = 0 then segment_file d1 0
           else if k = 1 then (if n = 0 then segment_file d1 1 else None)
           else if k \<le> n then segment_file d1 (k - 1)
           else if k = Suc n \<and> segment_file d1 n \<noteq> None then segment_file d1 n
           else segment_file d1 k)"
      using shift_segments_ok[of ok n d1, OF assms(2)] run by simp
    then show ?thesis by (cases "k = Suc n") (auto simp: d1 n)
  qed
  have "rotate_segments ok keep d = (True, if base_file d2 = None then d2 else rename_base 1 d2)"
    using assms(1,3) run s(1) by (simp add: rotate_segments_def n d1_def)
  then show ?thesis using s(2,3) by (auto simp: rename_base_def segs fun_eq_iff)
qed

text \<open>A rotation that succeeds met no failure.\<close>

lemma shift_segments_success:
  "shift_segments ok n d = (True, d') \<Longrightarrow> shift_segments (\<lambda>_. True) n d = (True, d')"
  by (induction n arbitrary: d) (auto split: if_splits)

lemma rotate_segments_success:
  "rotate_segments ok keep d = (True, d') \<Longrightarrow> rotate_segments (\<lambda>_. True) keep d = (True, d')"
  by (auto simp: rotate_segments_def split: if_splits prod.splits dest: shift_segments_success)

text \<open>
  C15. A rotation that fails at any point, like one that succeeds, loses the oldest segment at
  most: the active file and every younger segment keep their content, in place or one segment
  up. One that succeeds moves each of them up by exactly one.
\<close>

theorem rotation_loses_oldest_only:
  assumes "0 < keep" and "rotate_segments ok keep d = (rotated, d')"
  shows "((base_file d = Some c \<longrightarrow> base_file d' = Some c \<or> segment_file d' 1 = Some c) \<and>
    (\<forall>n. 0 < n \<and> n < keep \<and> segment_file d n = Some c \<longrightarrow>
       segment_file d' n = Some c \<or> segment_file d' (Suc n) = Some c) \<and>
    (\<forall>n > keep. segment_file d' n = segment_file d n)) \<and>
    (rotated \<longrightarrow> base_file d' = None \<and> segment_file d' 1 = base_file d \<and>
       (\<forall>n. 0 < n \<and> n < keep \<longrightarrow> segment_file d' (Suc n) = segment_file d n))"
    (is "?young \<and> ?done")
proof
  show ?done
    using rotate_segments_ok[of "\<lambda>_. True" keep d] rotate_segments_success[of ok keep d d'] assms
    by auto
  obtain n where n: "keep = Suc n" using assms(1) by (cases keep) auto
  define d1 where "d1 = drop_oldest keep d"
  have d1: "segment_file d1 = (segment_file d)(Suc n := None)" "base_file d1 = base_file d"
    by (auto simp: d1_def n drop_oldest_def remove_segment_def fun_eq_iff)
  obtain fin d2 where run: "shift_segments ok n d1 = (fin, d2)" by fastforce
  have k: "(segment_file d1 k = Some c \<longrightarrow> segment_file d2 k = Some c \<or> segment_file d2 (Suc k) = Some c)
      \<and> base_file d2 = base_file d1 \<and> (fin \<longrightarrow> segment_file d2 1 = None)
      \<and> (Suc n < k \<longrightarrow> segment_file d2 k = segment_file d1 k)" for k
    by (rule shift_segments_keeps[OF _ run]) (simp add: d1)
  have "d' = d \<or> d' = d2 \<or> fin \<and> d' = rename_base 1 d2"
    using assms(2) run by (auto simp: rotate_segments_def n d1_def split: if_splits prod.splits)
  then show ?young
  proof (elim disjE conjE)
    assume "d' = d2" then show ?young using k by (auto simp: d1 n)
  next
    assume r: "fin" "d' = rename_base 1 d2"
    then have "segment_file d' 1 = base_file d" using k[of 1] by (simp add: rename_base_def d1)
    moreover have "segment_file d' j = segment_file d2 j" if "j \<noteq> 1" for j
      using that r by (simp add: rename_base_def)
    moreover have "segment_file d2 1 = None" using k[of 1] r(1) by simp
    ultimately show ?young
      using k by (auto simp: d1 n) (metis One_nat_def k option.distinct(1) fun_upd_apply d1(1))+
  qed simp
qed

definition sample_disk :: log_disk where
  "sample_disk = \<lparr>base_file = Some ''new'',
     segment_file = (\<lambda>n. if n = 1 then Some ''mid'' else if n = 2 then Some ''old'' else None),
     fd = AtBase, written = 3\<rparr>"

theorem rotation_loses_oldest_only_witness:
  "let d' = snd (rotate_segments (\<lambda>_. True) 2 sample_disk)
   in segment_file d' 1 = Some ''new'' \<and> segment_file d' 2 = Some ''mid'' \<and> segment_file d' 3 = None"
proof -
  define d' where "d' = snd (rotate_segments (\<lambda>_. True) 2 sample_disk)"
  have "fst (rotate_segments (\<lambda>_. True) 2 sample_disk)"
    by (rule rotate_segments_ok[THEN conjunct1]) simp_all
  then have r: "rotate_segments (\<lambda>_. True) 2 sample_disk = (True, d')"
    by (simp add: d'_def prod_eq_iff)
  note t = rotation_loses_oldest_only[OF _ r, of "''mid''"]
  have "segment_file d' 1 = base_file sample_disk" "segment_file d' 3 = segment_file sample_disk 3"
    using t by simp_all
  moreover have "segment_file d' (Suc 1) = segment_file sample_disk 1"
    using t by simp
  ultimately have "segment_file d' 1 = Some ''new'' \<and> segment_file d' 2 = Some ''mid'' \<and> segment_file d' 3 = None"
    by (simp add: sample_disk_def numeral_2_eq_2)
  then show ?thesis by (simp only: Let_def d'_def)
qed

subsection \<open>What stays on disk\<close>

definition bytes_of :: "string option \<Rightarrow> string" where
  "bytes_of f = (case f of Some b \<Rightarrow> b | None \<Rightarrow> [])"

lemma bytes_of_simps [simp]: "bytes_of None = []" "bytes_of (Some b) = b"
  by (simp_all add: bytes_of_def)

text \<open>All the log files hold, oldest first.\<close>

definition log_history :: "log_disk \<Rightarrow> string" where
  "log_history d = bytes_of (segment_file d 5) @ bytes_of (segment_file d 4) @ bytes_of (segment_file d 3)
     @ bytes_of (segment_file d 2) @ bytes_of (segment_file d 1) @ bytes_of (base_file d)"

definition sound_io :: "disk_io \<Rightarrow> bool" where
  "sound_io io \<longleftrightarrow> io_short io = None \<and> (\<forall>op. io_ok io op)"

text \<open>The writer is on the base file, which is short; older segments are full and gapless.\<close>

definition writer_inv :: "log_disk \<Rightarrow> bool" where
  "writer_inv d \<longleftrightarrow> fd d = AtBase \<and>
     (\<exists>b. base_file d = Some b \<and> written d = length b \<and> length b < LOG_ROTATE_BYTES) \<and>
     (\<forall>n c. 0 < n \<and> n \<le> LOG_KEEP_SEGMENTS \<and> segment_file d n = Some c \<longrightarrow> LOG_ROTATE_BYTES \<le> length c) \<and>
     (\<forall>n. 0 < n \<and> n < LOG_KEEP_SEGMENTS \<and> segment_file d (Suc n) \<noteq> None \<longrightarrow> segment_file d n \<noteq> None)"

lemma rotate_ok:
  assumes "\<And>op. ok op"
  shows "snd (rotate ok d) = d\<lparr>base_file := Some [], fd := AtBase, written := 0,
    segment_file := (\<lambda>k. if k = 1 then base_file d
      else if 1 < k \<and> k \<le> LOG_KEEP_SEGMENTS then segment_file d (k - 1) else segment_file d k)\<rparr>"
proof -
  have r: "fst (rotate_segments ok LOG_KEEP_SEGMENTS d) \<and>
    segment_file (snd (rotate_segments ok LOG_KEEP_SEGMENTS d)) =
      (\<lambda>k. if k = 1 then base_file d
           else if 1 < k \<and> k \<le> LOG_KEEP_SEGMENTS then segment_file d (k - 1) else segment_file d k)
    \<and> base_file (snd (rotate_segments ok LOG_KEEP_SEGMENTS d)) = None
    \<and> written (snd (rotate_segments ok LOG_KEEP_SEGMENTS d)) = written d"
    by (rule rotate_segments_ok) (simp_all add: assms LOG_KEEP_SEGMENTS_def)
  then show ?thesis
    using assms by (cases "rotate_segments ok LOG_KEEP_SEGMENTS d")
      (simp add: rotate_def open_writer_def)
qed

text \<open>One line, as the files see it.\<close>

lemma write_line_effect:
  assumes "sound_io io" "fd d = AtBase" "base_file d = Some b" "written d = length b"
  shows "snd (write_line io body d) =
    (let b' = b @ body @ [CHR 0x0A]
     in if length b' < LOG_ROTATE_BYTES then d\<lparr>base_file := Some b', written := length b'\<rparr>
        else d\<lparr>base_file := Some [], fd := AtBase, written := 0,
          segment_file := (\<lambda>k. if k = 1 then Some b'
            else if 1 < k \<and> k \<le> LOG_KEEP_SEGMENTS then segment_file d (k - 1) else segment_file d k)\<rparr>)"
  using assms by (cases d) (auto simp: write_line_def sound_io_def append_open_def rotate_ok Let_def)

lemma writer_inv_step:
  assumes inv: "writer_inv d" and io: "sound_io io"
  shows "writer_inv (snd (write_line io body d)) \<and>
    (\<exists>dropped. log_history d @ body @ [CHR 0x0A] = dropped @ log_history (snd (write_line io body d)) \<and>
       (dropped \<noteq> [] \<longrightarrow> segment_file d LOG_KEEP_SEGMENTS \<noteq> None) \<and>
       (segment_file d LOG_KEEP_SEGMENTS \<noteq> None \<longrightarrow>
          segment_file (snd (write_line io body d)) LOG_KEEP_SEGMENTS \<noteq> None))"
proof -
  obtain b where b: "fd d = AtBase" "base_file d = Some b" "written d = length b"
    using inv by (auto simp: writer_inv_def)
  note eff = write_line_effect[OF io b, of body]
  let ?b = "b @ body @ [CHR 0x0A]"
  show ?thesis
  proof (cases "length ?b < LOG_ROTATE_BYTES")
    case True
    then have "snd (write_line io body d) = d\<lparr>base_file := Some ?b, written := length ?b\<rparr>"
      by (simp add: eff)
    then show ?thesis using inv b True
      by (simp add: writer_inv_def log_history_def)
  next
    case False
    define d' where "d' = snd (write_line io body d)"
    have d': "fd d' = AtBase" "base_file d' = Some []" "written d' = 0"
      "segment_file d' = (\<lambda>k. if k = 1 then Some ?b
         else if 1 < k \<and> k \<le> LOG_KEEP_SEGMENTS then segment_file d (k - 1) else segment_file d k)"
      using False by (simp_all add: d'_def eff)
    have gap: "segment_file d n \<noteq> None" if "0 < n" "n < LOG_KEEP_SEGMENTS" "segment_file d (Suc n) \<noteq> None" for n
      using inv that by (simp add: writer_inv_def)
    have "log_history d @ body @ [CHR 0x0A] = bytes_of (segment_file d 5) @ log_history d'"
      by (simp add: log_history_def d' b LOG_KEEP_SEGMENTS_def)
    moreover have "bytes_of (segment_file d 5) \<noteq> [] \<longrightarrow> segment_file d LOG_KEEP_SEGMENTS \<noteq> None"
      by (cases "segment_file d 5") (simp_all add: LOG_KEEP_SEGMENTS_def)
    moreover have "segment_file d LOG_KEEP_SEGMENTS \<noteq> None \<longrightarrow> segment_file d' LOG_KEEP_SEGMENTS \<noteq> None"
      using gap[of 4] by (simp add: d' LOG_KEEP_SEGMENTS_def)
    moreover have "writer_inv d'"
    proof -
      have full: "LOG_ROTATE_BYTES \<le> length c"
        if "0 < n" "n \<le> LOG_KEEP_SEGMENTS" "segment_file d n = Some c" for n c
        using inv that by (simp add: writer_inv_def)
      have "LOG_ROTATE_BYTES \<le> length c"
        if "0 < n" "n \<le> LOG_KEEP_SEGMENTS" "segment_file d' n = Some c" for n c
        using that False full[of "n - 1" c] by (auto simp: d' split: if_splits)
      moreover have "segment_file d' n \<noteq> None"
        if "0 < n" "n < LOG_KEEP_SEGMENTS" "segment_file d' (Suc n) \<noteq> None" for n
        using that gap[of "n - 1"] by (auto simp: d' split: if_splits)
      moreover have "0 < LOG_ROTATE_BYTES" by (simp add: LOG_ROTATE_BYTES_def)
      ultimately show ?thesis using d'(1-3) unfolding writer_inv_def by auto
    qed
    ultimately show ?thesis unfolding d'_def by blast
  qed
qed

definition empty_disk :: log_disk where
  "empty_disk = \<lparr>base_file = None, segment_file = (\<lambda>_. None), fd = Unlinked, written = 0\<rparr>"

definition write_lines :: "disk_io \<Rightarrow> string list \<Rightarrow> log_disk \<Rightarrow> log_disk" where
  "write_lines io ls d = fold (\<lambda>l d. snd (write_line io l d)) ls d"

lemma write_lines_history:
  assumes "sound_io io"
  shows "writer_inv (write_lines io ls (open_writer empty_disk)) \<and>
    (\<exists>dropped. concat (map (\<lambda>l. l @ [CHR 0x0A]) ls)
         = dropped @ log_history (write_lines io ls (open_writer empty_disk)) \<and>
       (dropped \<noteq> [] \<longrightarrow> segment_file (write_lines io ls (open_writer empty_disk)) LOG_KEEP_SEGMENTS \<noteq> None))"
proof (induction ls rule: rev_induct)
  case Nil
  then show ?case
    by (simp add: write_lines_def writer_inv_def open_writer_def empty_disk_def log_history_def LOG_ROTATE_BYTES_def)
next
  case (snoc l ls)
  let ?d = "write_lines io ls (open_writer empty_disk)"
  have step: "write_lines io (ls @ [l]) (open_writer empty_disk) = snd (write_line io l ?d)"
    by (simp add: write_lines_def)
  obtain old where old: "concat (map (\<lambda>l. l @ [CHR 0x0A]) ls) = old @ log_history ?d"
    "old \<noteq> [] \<longrightarrow> segment_file ?d LOG_KEEP_SEGMENTS \<noteq> None"
    using snoc by blast
  obtain new where new: "log_history ?d @ l @ [CHR 0x0A] = new @ log_history (snd (write_line io l ?d))"
    "new \<noteq> [] \<longrightarrow> segment_file ?d LOG_KEEP_SEGMENTS \<noteq> None"
    "segment_file ?d LOG_KEEP_SEGMENTS \<noteq> None \<longrightarrow>
       segment_file (snd (write_line io l ?d)) LOG_KEEP_SEGMENTS \<noteq> None"
    using writer_inv_step[OF _ assms, of ?d l] snoc by blast
  have "concat (map (\<lambda>l. l @ [CHR 0x0A]) (ls @ [l])) = (old @ new) @ log_history (snd (write_line io l ?d))"
    using old(1) new(1) by simp
  moreover have "old @ new \<noteq> [] \<longrightarrow> segment_file (snd (write_line io l ?d)) LOG_KEEP_SEGMENTS \<noteq> None"
    using old(2) new(2,3) by auto
  ultimately show ?case
    using writer_inv_step[OF _ assms, of ?d l] snoc unfolding step by blast
qed

lemma writer_inv_full:
  assumes "writer_inv d" "segment_file d LOG_KEEP_SEGMENTS \<noteq> None"
  shows "LOG_KEEP_SEGMENTS * LOG_ROTATE_BYTES \<le> length (log_history d)"
proof -
  have gap: "segment_file d n \<noteq> None" if "0 < n" "n < LOG_KEEP_SEGMENTS" "segment_file d (Suc n) \<noteq> None" for n
    using assms(1) that by (simp add: writer_inv_def)
  have two: "Suc 1 = 2" by simp
  have some: "segment_file d 4 \<noteq> None" "segment_file d 3 \<noteq> None" "segment_file d 2 \<noteq> None"
    "segment_file d 1 \<noteq> None"
    using gap[of 4] gap[of 3] gap[of 2] gap[of 1, unfolded two] assms(2)
    by (simp_all add: LOG_KEEP_SEGMENTS_def)
  have full: "LOG_ROTATE_BYTES \<le> length (bytes_of (segment_file d n))"
    if "0 < n" "n \<le> LOG_KEEP_SEGMENTS" "segment_file d n \<noteq> None" for n
    using assms(1) that by (auto simp: writer_inv_def)
  show ?thesis
    using full[of 5] full[of 4] full[of 3] full[of 2] full[of 1] some assms(2)
    by (simp add: log_history_def LOG_KEEP_SEGMENTS_def)
qed

text \<open>
  C14. Whatever lines a launch writes to a fresh log, and as long as the disk does not fail, the files
  together hold the latest of them, byte for byte and in order; the active file stays below the
  rotation size, and nothing is dropped while they hold less than five full segments.
\<close>

theorem log_keeps_latest:
  assumes "sound_io io" and "d = write_lines io ls (open_writer empty_disk)"
  shows "\<exists>dropped. concat (map (\<lambda>l. l @ [CHR 0x0A]) ls) = dropped @ log_history d \<and>
    length (bytes_of (base_file d)) < LOG_ROTATE_BYTES \<and>
    (dropped = [] \<or> LOG_KEEP_SEGMENTS * LOG_ROTATE_BYTES \<le> length (log_history d))"
  using write_lines_history[OF assms(1), of ls] writer_inv_full[of d] assms(2)
  by (auto simp: writer_inv_def)

theorem log_keeps_latest_witness:
  "let io = \<lparr>io_ok = (\<lambda>_. True), io_short = None\<rparr>;
       d = write_lines io [''hello'', ''world''] (open_writer empty_disk)
   in \<exists>dropped. ''hello'' @ [CHR 0x0A] @ ''world'' @ [CHR 0x0A] = dropped @ log_history d"
  using log_keeps_latest[OF _ refl, of "\<lparr>io_ok = (\<lambda>_. True), io_short = None\<rparr>" "[''hello'', ''world'']"]
  by (auto simp: sound_io_def Let_def)

subsection \<open>A rotation that cannot reopen\<close>

lemma failed_reopen_step:
  assumes "io_short io = None" "io_ok io = (\<lambda>op. op \<noteq> OpenBase)"
    and "LOG_ROTATE_BYTES \<le> written d + (length l + 1)"
  shows "let d' = snd (write_line io l d) in base_file d' = None \<and> LOG_ROTATE_BYTES \<le> written d' \<and>
    (segment_file d' 1 = None \<longleftrightarrow> base_file d = None) \<and>
    (\<forall>n. 0 < n \<and> n < LOG_KEEP_SEGMENTS \<longrightarrow> (segment_file d' (Suc n) = None \<longleftrightarrow> segment_file d n = None))"
proof -
  define d1 where "d1 = (append_open (l @ [CHR 0x0A]) d)\<lparr>written := written d + (length l + 1)\<rparr>"
  define d2 where "d2 = snd (rotate_segments (io_ok io) LOG_KEEP_SEGMENTS d1)"
  have none: "base_file d1 = None \<longleftrightarrow> base_file d = None" "segment_file d1 n = None \<longleftrightarrow> segment_file d n = None" for n
    by (simp_all add: d1_def append_open_def split: open_file.split)
  have r: "fst (rotate_segments (io_ok io) LOG_KEEP_SEGMENTS d1) \<and>
    segment_file d2 = (\<lambda>k. if k = 1 then base_file d1
           else if 1 < k \<and> k \<le> LOG_KEEP_SEGMENTS then segment_file d1 (k - 1) else segment_file d1 k)
    \<and> base_file d2 = None \<and> written d2 = written d1"
    unfolding d2_def by (rule rotate_segments_ok) (simp_all add: assms(2) LOG_KEEP_SEGMENTS_def)
  then have "snd (rotate (io_ok io) d1) = d2"
    using assms(2) by (cases "rotate_segments (io_ok io) LOG_KEEP_SEGMENTS d1") (simp add: rotate_def d2_def)
  then have "snd (write_line io l d) = d2"
    using assms(1,3) by (simp add: write_line_def Let_def d1_def)
  then show ?thesis using r none assms(3) by (simp add: Let_def d1_def)
qed

lemma failed_reopen_run:
  assumes "io_short io = None" "io_ok io = (\<lambda>op. op \<noteq> OpenBase)"
    and "LOG_ROTATE_BYTES \<le> written d" "base_file d = None"
    and "\<forall>n. 0 < n \<and> n \<le> k \<longrightarrow> segment_file d n = None"
  shows "base_file (write_lines io ls d) = None \<and>
    (\<forall>n. 0 < n \<and> n \<le> k + length ls \<and> n \<le> LOG_KEEP_SEGMENTS \<longrightarrow> segment_file (write_lines io ls d) n = None)"
  using assms(3-5)
proof (induction ls arbitrary: d k)
  case Nil
  then show ?case by (simp add: write_lines_def)
next
  case (Cons l ls)
  define d' where "d' = snd (write_line io l d)"
  have step: "base_file d' = None" "LOG_ROTATE_BYTES \<le> written d'"
    "segment_file d' 1 = None" "\<And>n. 0 < n \<Longrightarrow> n < LOG_KEEP_SEGMENTS \<Longrightarrow> segment_file d n = None \<Longrightarrow> segment_file d' (Suc n) = None"
    using failed_reopen_step[OF assms(1,2), of d l] Cons.prems(1,2) by (simp_all add: Let_def d'_def)
  have d': "\<forall>n. 0 < n \<and> n \<le> min (Suc k) LOG_KEEP_SEGMENTS \<longrightarrow> segment_file d' n = None"
  proof (intro allI impI)
    fix n assume n: "0 < n \<and> n \<le> min (Suc k) LOG_KEEP_SEGMENTS"
    show "segment_file d' n = None"
    proof (cases "n = 1")
      case True
      then show ?thesis using step(3) by simp
    next
      case False
      then obtain m where "n = Suc m" "0 < m" using n by (cases n) auto
      then show ?thesis using step(4)[of m] n Cons.prems(3) by simp
    qed
  qed
  have "write_lines io (l # ls) d = write_lines io ls d'" by (simp add: write_lines_def d'_def)
  moreover note Cons.IH[OF step(2,1) d']
  ultimately show ?case by auto
qed

text \<open>
  When the active file cannot be opened again after a rotation, the counter is not reset and
  every further line rotates again: six lines later no file of the log is left, neither the
  segments of the past nor the lines just written.
\<close>

theorem failed_reopen_loses_log:
  assumes "io_short io = None" "io_ok io = (\<lambda>op. op \<noteq> OpenBase)"
    and "LOG_ROTATE_BYTES \<le> written d + (length l + 1)" and "LOG_KEEP_SEGMENTS \<le> length ls"
  shows "base_file (write_lines io (l # ls) d) = None \<and>
    (\<forall>n. 0 < n \<and> n \<le> LOG_KEEP_SEGMENTS \<longrightarrow> segment_file (write_lines io (l # ls) d) n = None)"
proof -
  define d' where "d' = snd (write_line io l d)"
  have "base_file d' = None" "LOG_ROTATE_BYTES \<le> written d'"
    using failed_reopen_step[OF assms(1-3)] by (simp_all add: Let_def d'_def)
  then have "base_file (write_lines io ls d') = None \<and>
      (\<forall>n. 0 < n \<and> n \<le> 0 + length ls \<and> n \<le> LOG_KEEP_SEGMENTS \<longrightarrow> segment_file (write_lines io ls d') n = None)"
    by (intro failed_reopen_run[OF assms(1,2)]) simp_all
  moreover have "write_lines io (l # ls) d = write_lines io ls d'" by (simp add: write_lines_def d'_def)
  ultimately show ?thesis using assms(4) by auto
qed

theorem failed_reopen_loses_log_witness:
  "let io = \<lparr>io_ok = (\<lambda>op. op \<noteq> OpenBase), io_short = None\<rparr>;
       d = sample_disk\<lparr>written := LOG_ROTATE_BYTES\<rparr>;
       d' = write_lines io [''a'', ''b'', ''c'', ''d'', ''e'', ''f''] d
   in segment_file d 1 = Some ''mid'' \<and> segment_file d' 1 = None \<and> segment_file d' 2 = None \<and> base_file d' = None"
  using failed_reopen_loses_log[of "\<lparr>io_ok = (\<lambda>op. op \<noteq> OpenBase), io_short = None\<rparr>"
      "sample_disk\<lparr>written := LOG_ROTATE_BYTES\<rparr>" "''a''" "[''b'', ''c'', ''d'', ''e'', ''f'']"]
  by (simp add: Let_def sample_disk_def LOG_KEEP_SEGMENTS_def)

subsection \<open>The pump\<close>

text \<open>
  \<open>read_line\<close> on the bytes left in the pipe: the line with its newline, the end, or the error it
  gives on a line that is not UTF-8.
\<close>

datatype line_read = Eof | Line string string | BadLine

definition utf8_line :: "string \<Rightarrow> bool" where
  "utf8_line l \<longleftrightarrow> utf8_ok (map of_char l)"

definition first_line :: "string \<Rightarrow> string \<times> string" where
  "first_line bs =
     (let l = takeWhile (\<lambda>c. c \<noteq> CHR 0x0A) bs; rest = dropWhile (\<lambda>c. c \<noteq> CHR 0x0A) bs
      in case rest of [] \<Rightarrow> (l, []) | c # rest' \<Rightarrow> (l @ [c], rest'))"

definition read_line :: "string \<Rightarrow> line_read" where
  "read_line bs =
     (if bs = [] then Eof
      else let (l, rest) = first_line bs in if utf8_line l then Line l rest else BadLine)"

definition trim_newlines :: "string \<Rightarrow> string" where
  "trim_newlines l = rev (dropWhile (\<lambda>c. c = CHR 0x0A \<or> c = CHR 0x0D) (rev l))"

record pump_state =
  ps_ring :: ring
  ps_disk :: log_disk
  ps_disabled :: bool

definition pump_line :: "string \<Rightarrow> disk_io \<Rightarrow> string \<Rightarrow> pump_state \<Rightarrow> pump_state" where
  "pump_line source io line s =
     (let text = ''['' @ source @ ''] '' @ trim_newlines line;
          s1 = s\<lparr>ps_ring := push_copy text (ps_ring s)\<rparr>
      in if ps_disabled s then s1
         else (let (ok, d) = write_line io text (ps_disk s)
               in s1\<lparr>ps_disk := d, ps_disabled := \<not> ok\<rparr>))"

lemma first_line_split:
  assumes "bs \<noteq> []"
  shows "fst (first_line bs) @ snd (first_line bs) = bs" "fst (first_line bs) \<noteq> []"
proof -
  let ?other = "\<lambda>c. c \<noteq> CHR 0x0A"
  have bs: "takeWhile ?other bs @ dropWhile ?other bs = bs" by (rule takeWhile_dropWhile_id)
  have "fst (first_line bs) @ snd (first_line bs) = bs \<and> fst (first_line bs) \<noteq> []"
  proof (cases "dropWhile ?other bs")
    case Nil
    with bs have "takeWhile ?other bs = bs" by (metis append_Nil2)
    with Nil have "first_line bs = (bs, [])"
      by (simp only: first_line_def Let_def list.case)
    then show ?thesis using assms by simp
  next
    case (Cons c rest)
    then have "first_line bs = (takeWhile ?other bs @ [c], rest)"
      by (simp only: first_line_def Let_def list.case)
    then show ?thesis using bs Cons by simp
  qed
  then show "fst (first_line bs) @ snd (first_line bs) = bs" "fst (first_line bs) \<noteq> []" by simp_all
qed

lemma first_line_shorter: "bs \<noteq> [] \<Longrightarrow> length (snd (first_line bs)) < length bs"
  using first_line_split[of bs] by (metis append_eq_append_conv append_Nil length_append less_add_same_cancel2 length_greater_0_conv)

lemma read_line_shorter: "read_line bs = Line l rest \<Longrightarrow> length rest < length bs"
  using first_line_shorter[of bs] by (auto simp: read_line_def split: if_splits prod.splits)

text \<open>The disk answers the \<open>i\<close>th line with \<open>ios i\<close>.\<close>

function pump_stream :: "string \<Rightarrow> (nat \<Rightarrow> disk_io) \<Rightarrow> nat \<Rightarrow> string \<Rightarrow> pump_state \<Rightarrow> pump_state" where
  "pump_stream source ios i bs s =
     (case read_line bs of
        Eof \<Rightarrow> s
      | Line l rest \<Rightarrow> pump_stream source ios (Suc i) rest (pump_line source (ios i) l s)
      | BadLine \<Rightarrow> s)"
  by pat_completeness auto
termination
  by (relation "measure (\<lambda>(source, ios, i, bs, s). length bs)")
    (auto dest: read_line_shorter)

declare pump_stream.simps [simp del]

lemma ps_ring_pump_line [simp]:
  "ps_ring (pump_line source io line s) =
     push_copy (''['' @ source @ ''] '' @ trim_newlines line) (ps_ring s)"
  by (simp add: pump_line_def Let_def split: prod.splits)

text \<open>The lines of a stream, each with its newline.\<close>

fun line_chunks :: "string \<Rightarrow> string list" where
  "line_chunks [] = []"
| "line_chunks (c # cs) =
     (if c = CHR 0x0A then [c] # line_chunks cs
      else (case line_chunks cs of [] \<Rightarrow> [[c]] | l # ls \<Rightarrow> (c # l) # ls))"

lemma line_chunks_first:
  "bs \<noteq> [] \<Longrightarrow> line_chunks bs = fst (first_line bs) # line_chunks (snd (first_line bs))"
proof (induction bs)
  case (Cons c cs)
  show ?case
  proof (cases "c = CHR 0x0A")
    case True
    then show ?thesis by (simp add: first_line_def)
  next
    case other: False
    show ?thesis
    proof (cases "cs = []")
      case True
      then show ?thesis using other by (simp add: first_line_def)
    next
      case False
      have "first_line (c # cs) = (c # fst (first_line cs), snd (first_line cs))"
        using other by (cases "dropWhile (\<lambda>c. c \<noteq> CHR 0x0A) cs")
          (simp_all only: first_line_def Let_def list.case takeWhile.simps dropWhile.simps if_True
            fst_conv snd_conv append_Cons not_False_eq_True)
      then show ?thesis using other Cons.IH[OF False] by simp
    qed
  qed
qed simp

lemma pump_captures:
  "ps_ring (pump_stream source ios i bs s) =
     fold (\<lambda>l. push_copy (''['' @ source @ ''] '' @ trim_newlines l))
       (takeWhile utf8_line (line_chunks bs)) (ps_ring s)"
proof (induction source ios i bs s rule: pump_stream.induct)
  case (1 source ios i bs s)
  show ?case
  proof (cases "bs = []")
    case True
    then show ?thesis by (simp add: pump_stream.simps read_line_def)
  next
    case False
    obtain l rest where lr: "first_line bs = (l, rest)" by fastforce
    then have chunks: "line_chunks bs = l # line_chunks rest"
      using line_chunks_first[OF False] by simp
    show ?thesis
    proof (cases "utf8_line l")
      case True
      then have "read_line bs = Line l rest" using False lr by (simp add: read_line_def)
      then show ?thesis using 1 True by (simp add: pump_stream.simps[of _ _ _ bs] chunks)
    next
      case bad: False
      then have "read_line bs = BadLine" using False lr by (simp add: read_line_def)
      then show ?thesis using bad by (simp add: pump_stream.simps[of _ _ _ bs] chunks)
    qed
  qed
qed

definition captured :: "string \<Rightarrow> string \<Rightarrow> string list" where
  "captured source bs =
     map (\<lambda>l. ''['' @ source @ ''] '' @ trim_newlines l) (takeWhile utf8_line (line_chunks bs))"

text \<open>
  The pump always ends, and whatever the disk does, the ring then holds, prefixed and without
  their newlines and up to its capacity, the last lines of the stream before the first that is
  not UTF-8, and \<open>tail\<close> returns the last of those: a failing disk does not end the capture, a
  line that is not UTF-8 does.
\<close>

theorem pump_captures_lines:
  assumes "ps_ring s = with_capacity c"
  shows "rb_inner (ps_ring (pump_stream source ios i bs s)) = last_n c (captured source bs) \<and>
    ring_tail limit (ps_ring (pump_stream source ios i bs s)) = last_n (min limit c) (captured source bs)"
proof -
  have "ps_ring (pump_stream source ios i bs s) = fold push_copy (captured source bs) (with_capacity c)"
    by (simp add: pump_captures assms fold_map comp_def captured_def)
  then show ?thesis by (simp add: ring_keeps_last)
qed

theorem pump_captures_lines_witness:
  "rb_inner (ps_ring (pump_stream ''stdout'' (\<lambda>_. \<lparr>io_ok = (\<lambda>_. True), io_short = None\<rparr>) 0
      (''a'' @ [CHR 0x0A] @ ''b'' @ [CHR 0x0A, CHR 0xFF, CHR 0x0A] @ ''c'')
      \<lparr>ps_ring = with_capacity 9, ps_disk = empty_disk, ps_disabled = False\<rparr>))
    = [''[stdout] a'', ''[stdout] b'']"
  using pump_captures_lines[of "\<lparr>ps_ring = with_capacity 9, ps_disk = empty_disk, ps_disabled = False\<rparr>" 9
      "''stdout''" _ 0 "''a'' @ [CHR 0x0A] @ ''b'' @ [CHR 0x0A, CHR 0xFF, CHR 0x0A] @ ''c''"]
  by (simp add: captured_def trim_newlines_def utf8_line_def last_n_def utf8_second_def)

end
