(* ===== verification/Text.thy ===== *)
theory Text
  imports Headroom "HOL-Library.List_Lexorder" "HOL-Library.Char_ord"
begin

text \<open>
  The string operations of the standard library the launch parameters, the routes and the
  config files use beyond those of the prelude, on strings of UTF-8 bytes.
\<close>

subsection \<open>Splitting\<close>

text \<open>\<open>split(c)\<close>: always at least one piece.\<close>

fun split_on :: "char \<Rightarrow> string \<Rightarrow> string list" where
  "split_on d [] = [[]]"
| "split_on d (c # cs) =
     (if c = d then [] # split_on d cs
      else (case split_on d cs of [] \<Rightarrow> [[c]] | p # ps \<Rightarrow> (c # p) # ps))"

lemma split_on_not_Nil [simp]: "split_on d s \<noteq> []"
  by (induction s) (auto split: list.splits)

text \<open>\<open>split('=').next()\<close>: the part before the first separator.\<close>

definition before :: "char \<Rightarrow> string \<Rightarrow> string" where
  "before d s = takeWhile (\<lambda>c. c \<noteq> d) s"

lemma hd_split_on: "hd (split_on d s) = before d s"
  by (induction s) (auto simp: before_def split: list.splits)

text \<open>\<open>split_once\<close>.\<close>

definition split_once :: "char \<Rightarrow> string \<Rightarrow> (string \<times> string) option" where
  "split_once d s =
     (case dropWhile (\<lambda>c. c \<noteq> d) s of [] \<Rightarrow> None | _ # rest \<Rightarrow> Some (before d s, rest))"

lemma split_once_None: "split_once d s = None \<longleftrightarrow> d \<notin> set s"
proof -
  have "dropWhile (\<lambda>c. c \<noteq> d) s = [] \<longleftrightarrow> d \<notin> set s" by auto
  moreover have "split_once d s = None \<longleftrightarrow> dropWhile (\<lambda>c. c \<noteq> d) s = []"
    unfolding split_once_def by (simp only: split: list.split) simp
  ultimately show ?thesis by blast
qed

lemma split_once_Some:
  "split_once d s = Some (a, b) \<longleftrightarrow> s = a @ d # b \<and> d \<notin> set a"
proof
  assume "split_once d s = Some (a, b)"
  then obtain c rest where r: "dropWhile (\<lambda>c. c \<noteq> d) s = c # rest" "a = before d s" "b = rest"
    by (auto simp: split_once_def split: list.splits)
  then have "c = d" by (metis (mono_tags, lifting) hd_dropWhile list.distinct(1) list.sel(1))
  then show "s = a @ d # b \<and> d \<notin> set a"
    using r takeWhile_dropWhile_id[of "\<lambda>c. c \<noteq> d" s] by (auto simp: before_def dest: set_takeWhileD)
next
  assume "s = a @ d # b \<and> d \<notin> set a"
  then have "takeWhile (\<lambda>c. c \<noteq> d) s = a" "dropWhile (\<lambda>c. c \<noteq> d) s = d # b"
    by (auto simp: takeWhile_append dropWhile_append)
  then show "split_once d s = Some (a, b)" by (simp add: split_once_def before_def)
qed

lemma before_append [simp]: "d \<notin> set a \<Longrightarrow> before d (a @ d # b) = a"
  by (auto simp: before_def takeWhile_append)

lemma before_id [simp]: "d \<notin> set s \<Longrightarrow> before d s = s"
  by (auto simp: before_def takeWhile_eq_all_conv)

lemma before_clean [simp]: "d \<notin> set (before d s)"
  by (auto simp: before_def dest: set_takeWhileD)

text \<open>\<open>split_whitespace\<close>: the non-empty pieces between white space.\<close>

fun split_white :: "nat \<Rightarrow> string \<Rightarrow> string \<Rightarrow> string list" where
  "split_white 0 piece s = (if piece = [] then [] else [piece])"
| "split_white (Suc n) piece [] = (if piece = [] then [] else [piece])"
| "split_white (Suc n) piece (c # cs) =
     (case List.find (starts_with (c # cs)) white_spellings of
        Some w \<Rightarrow> (if piece = [] then [] else [piece]) @ split_white n [] (drop (length w) (c # cs))
      | None \<Rightarrow> split_white n (piece @ [c]) cs)"

lemma split_white_code [code]:
  "split_white n piece s =
     (if n = 0 \<or> s = [] then (if piece = [] then [] else [piece])
      else (case List.find (starts_with s) white_spellings of
              Some w \<Rightarrow> (if piece = [] then [] else [piece]) @ split_white (n - 1) [] (drop (length w) s)
            | None \<Rightarrow> split_white (n - 1) (piece @ [hd s]) (tl s)))"
  by (cases "(n, piece, s)" rule: split_white.cases) (simp_all split: option.split)

definition split_whitespace :: "string \<Rightarrow> string list" where
  "split_whitespace s = split_white (length s) [] s"

subsection \<open>Joining\<close>

fun join :: "string \<Rightarrow> string list \<Rightarrow> string" where
  "join sep [] = []"
| "join sep [p] = p"
| "join sep (p # ps) = p @ sep @ join sep ps"

lemma join_split_on: "join [d] (split_on d s) = s"
proof (induction s)
  case (Cons c s)
  then show ?case by (cases "split_on d s"; cases "tl (split_on d s)") auto
qed simp

lemma split_on_clean: "p \<in> set (split_on d s) \<Longrightarrow> d \<notin> set p"
proof (induction s arbitrary: p)
  case (Cons c s)
  then show ?case by (cases "split_on d s") (auto split: if_splits)
qed simp

lemma split_on_append: "d \<notin> set a \<Longrightarrow> split_on d (a @ d # b) = a # split_on d b"
  by (induction a) auto

lemma split_on_single: "d \<notin> set a \<Longrightarrow> split_on d a = [a]"
  by (induction a) auto

lemma split_on_join: "ps \<noteq> [] \<Longrightarrow> \<forall>p \<in> set ps. d \<notin> set p \<Longrightarrow> split_on d (join [d] ps) = ps"
  by (induction "[d]" ps rule: join.induct) (auto simp: split_on_append split_on_single)

subsection \<open>Case\<close>

definition same_ignoring_case :: "string \<Rightarrow> string \<Rightarrow> bool" where
  "same_ignoring_case a b \<longleftrightarrow> ascii_lower a = ascii_lower b"

lemma ascii_lower_char_idem [simp]: "ascii_lower_char (ascii_lower_char c) = ascii_lower_char c"
proof -
  have "of_char c < (256 :: nat)" by simp
  then show ?thesis by (simp add: ascii_lower_char_def Let_def)
qed

lemma ascii_lower_idem [simp]: "ascii_lower (ascii_lower s) = ascii_lower s"
  by (simp add: ascii_lower_def)

lemma length_ascii_lower [simp]: "length (ascii_lower s) = length s"
  by (simp add: ascii_lower_def)

lemma ascii_lower_append [simp]: "ascii_lower (a @ b) = ascii_lower a @ ascii_lower b"
  by (simp add: ascii_lower_def)

lemma ascii_lower_Nil [simp]: "ascii_lower [] = []"
  by (simp add: ascii_lower_def)

lemma same_ignoring_case_refl [simp]: "same_ignoring_case a a"
  by (simp add: same_ignoring_case_def)

text \<open>\<open>char::is_ascii_*\<close> and \<open>replace\<close> of one character by another.\<close>

definition is_lower :: "char \<Rightarrow> bool" where
  "is_lower c \<longleftrightarrow> 97 \<le> (of_char c :: nat) \<and> (of_char c :: nat) \<le> 122"

definition is_upper :: "char \<Rightarrow> bool" where
  "is_upper c \<longleftrightarrow> 65 \<le> (of_char c :: nat) \<and> (of_char c :: nat) \<le> 90"

definition is_digit :: "char \<Rightarrow> bool" where
  "is_digit c \<longleftrightarrow> 48 \<le> (of_char c :: nat) \<and> (of_char c :: nat) \<le> 57"

definition is_alpha :: "char \<Rightarrow> bool" where
  "is_alpha c \<longleftrightarrow> is_lower c \<or> is_upper c"

definition is_alnum :: "char \<Rightarrow> bool" where
  "is_alnum c \<longleftrightarrow> is_alpha c \<or> is_digit c"

definition replace_char :: "char \<Rightarrow> char \<Rightarrow> string \<Rightarrow> string" where
  "replace_char a b s = map (\<lambda>c. if c = a then b else c) s"

subsection \<open>Text that trimming leaves alone\<close>

definition printable :: "char \<Rightarrow> bool" where
  "printable c \<longleftrightarrow> 33 \<le> (of_char c :: nat) \<and> (of_char c :: nat) \<le> 126"

definition unprintable_code :: "nat list \<Rightarrow> bool" where
  "unprintable_code ns = (case ns of [] \<Rightarrow> False | n # _ \<Rightarrow> n < 33 \<or> (126 < n \<and> n < 256))"

lemma white_codes:
  "list_all unprintable_code white_spaces" "list_all (\<lambda>ns. unprintable_code (rev ns)) white_spaces"
  by code_simp+

lemma unprintable_head:
  assumes "unprintable_code ns"
  shows "\<exists>c cs. map char_of ns = c # cs \<and> \<not> printable c"
  using assms by (cases ns) (auto simp: unprintable_code_def printable_def)

lemma white_heads:
  "w \<in> set white_spellings \<Longrightarrow> \<exists>c cs. w = c # cs \<and> \<not> printable c"
  "w \<in> set (map rev white_spellings) \<Longrightarrow> \<exists>c cs. w = c # cs \<and> \<not> printable c"
proof -
  show "w \<in> set white_spellings \<Longrightarrow> \<exists>c cs. w = c # cs \<and> \<not> printable c"
    using white_codes(1) unprintable_head by (auto simp: white_spellings_def list_all_iff)
  show "w \<in> set (map rev white_spellings) \<Longrightarrow> \<exists>c cs. w = c # cs \<and> \<not> printable c"
    using white_codes(2) unprintable_head[of "rev _"]
    by (auto simp: white_spellings_def list_all_iff rev_map)
qed

lemma find_starts_None:
  assumes "\<And>w. w \<in> set ws \<Longrightarrow> \<exists>c cs. w = c # cs \<and> \<not> printable c"
    and "s = [] \<or> printable (hd s)"
  shows "List.find (starts_with s) ws = None"
  unfolding find_None_iff
proof
  assume "\<exists>w. w \<in> set ws \<and> starts_with s w"
  then obtain w where w: "w \<in> set ws" "starts_with s w" by blast
  then obtain c cs where "w = c # cs" "\<not> printable c" using assms(1) by blast
  with w(2) assms(2) show False by (cases s) simp_all
qed

lemma trim_with_unmoved:
  assumes "List.find (starts_with s) ws = None"
  shows "trim_with ws n s = s"
  using assms by (cases n) simp_all

lemma trim_with_printable:
  assumes "s = [] \<or> printable (hd s)"
  shows "trim_with white_spellings n s = s" "trim_with (map rev white_spellings) n s = s"
  subgoal
    by (rule trim_with_unmoved, rule find_starts_None, erule white_heads(1), rule assms)
  subgoal
    by (rule trim_with_unmoved, rule find_starts_None, erule white_heads(2), rule assms)
  done

lemma trim_printable:
  assumes "list_all printable s"
  shows "trim s = s"
proof -
  have h: "s = [] \<or> printable (hd s)" using assms by (cases s) simp_all
  have "list_all printable (rev s)" using assms by (simp only: list_all_rev)
  then have r: "rev s = [] \<or> printable (hd (rev s))" by (cases "rev s") simp_all
  show ?thesis
    by (simp only: trim_def trim_start_def trim_end_def trim_with_printable(1)[OF h]
        trim_with_printable(2)[OF r] rev_rev_ident)
qed

text \<open>Evaluation skips the search for white space in printable text.\<close>

lemma trim_code [code]: "trim s = (if list_all printable s then s else trim_end (trim_start s))"
  using trim_printable[of s] by (simp add: trim_def)

lemma split_white_printable:
  "list_all printable s \<Longrightarrow>
     split_white (length s) piece s = (if piece @ s = [] then [] else [piece @ s])"
proof (induction s arbitrary: piece)
  case (Cons c s)
  have "List.find (starts_with (c # s)) white_spellings = None"
    by (rule find_starts_None, erule white_heads(1)) (use Cons.prems in simp)
  with Cons show ?case by simp
qed simp

lemma split_whitespace_printable:
  "s \<noteq> [] \<Longrightarrow> list_all printable s \<Longrightarrow> split_whitespace s = [s]"
  by (simp add: split_whitespace_def split_white_printable)

lemma split_whitespace_code [code]:
  "split_whitespace s =
     (if s \<noteq> [] \<and> list_all printable s then [s] else split_white (length s) [] s)"
  using split_whitespace_printable[of s] by (auto simp: split_whitespace_def)

lemma digit_char_digit: "d < 10 \<Longrightarrow> is_digit (digit_char d)"
  by (simp add: is_digit_def digit_char_def)

lemma show_nat_digits: "list_all is_digit (show_nat n)"
proof (induction n rule: show_nat.induct)
  case (1 n)
  then show ?case by (cases "n < 10") (simp_all add: show_nat.simps[of n] digit_char_digit)
qed

lemma digit_printable: "is_digit c \<Longrightarrow> printable c"
  by (simp add: is_digit_def printable_def)

lemma show_nat_printable: "list_all printable (show_nat n)"
  using show_nat_digits[of n] digit_printable by (simp add: list_all_iff)

lemma trim_show_nat [simp]: "trim (show_nat n) = show_nat n"
  by (rule trim_printable[OF show_nat_printable])

subsection \<open>What trimming leaves\<close>

lemma starts_with_append: "starts_with s w \<Longrightarrow> starts_with (s @ r) w"
  by (auto simp: starts_with_iff)

lemma trim_with_unmovable:
  assumes "length s \<le> n" "\<forall>w \<in> set ws. w \<noteq> []"
  shows "List.find (starts_with (trim_with ws n s)) ws = None"
  using assms(1)
proof (induction n arbitrary: s)
  case 0
  have "\<not> starts_with [] w" if "w \<in> set ws" for w using assms(2) that by (cases w) auto
  then show ?case using 0 by (auto simp: find_None_iff)
next
  case (Suc n)
  show ?case
  proof (cases "List.find (starts_with s) ws")
    case None
    then show ?thesis by simp
  next
    case (Some w)
    then have "w \<in> set ws" "starts_with s w" by (auto simp: find_Some_iff intro: nth_mem)
    then have "0 < length w" using assms(2) by simp
    then have "length (drop (length w) s) \<le> n" using Suc.prems unfolding length_drop by linarith
    from Suc.IH[OF this] Some show ?thesis by simp
  qed
qed

lemma trim_with_tail: "\<exists>p. s = p @ trim_with ws n s"
proof (induction n arbitrary: s)
  case (Suc n)
  show ?case
  proof (cases "List.find (starts_with s) ws")
    case (Some w)
    from Suc.IH[of "drop (length w) s"] obtain p where "drop (length w) s = p @ trim_with ws n (drop (length w) s)" by blast
    then have "s = (take (length w) s @ p) @ trim_with ws n (drop (length w) s)" by (metis append.assoc append_take_drop_id)
    then show ?thesis using Some by (metis option.simps(5) trim_with.simps(2))
  qed simp
qed simp

definition unmovable :: "string \<Rightarrow> bool" where
  "unmovable s \<longleftrightarrow>
     (\<forall>w \<in> set white_spellings. \<not> starts_with s w) \<and> (\<forall>w \<in> set (map rev white_spellings). \<not> starts_with (rev s) w)"

lemma trim_unmovable: "unmovable s \<Longrightarrow> trim s = s"
proof -
  assume u: "unmovable s"
  then have "List.find (starts_with s) white_spellings = None" "List.find (starts_with (rev s)) (map rev white_spellings) = None"
    by (auto simp: unmovable_def find_None_iff)
  then show ?thesis by (simp add: trim_def trim_start_def trim_end_def trim_with_unmoved)
qed

lemma unmovable_trim: "unmovable (trim s)"
proof -
  have ne: "\<forall>w \<in> set white_spellings. w \<noteq> []" "\<forall>w \<in> set (map rev white_spellings). w \<noteq> []"
    using white_heads by blast+
  define t where "t = trim_start s"
  have t: "List.find (starts_with t) white_spellings = None"
    unfolding t_def trim_start_def by (rule trim_with_unmovable[OF order_refl ne(1)])
  define u where "u = trim_with (map rev white_spellings) (length t) (rev t)"
  have u: "List.find (starts_with u) (map rev white_spellings) = None"
    unfolding u_def by (rule trim_with_unmovable[OF _ ne(2)]) simp
  from trim_with_tail[of "rev t" "map rev white_spellings" "length t"] obtain p where "rev t = p @ u"
    by (auto simp: u_def)
  then have "t = rev u @ rev p" by (metis rev_append rev_rev_ident)
  then have "\<not> starts_with (rev u) w" if "w \<in> set white_spellings" for w
    using t that starts_with_append[of "rev u" w "rev p"] by (auto simp: find_None_iff)
  moreover have "trim s = rev u" by (simp add: trim_def trim_end_def t_def u_def)
  ultimately show ?thesis using u by (auto simp: unmovable_def find_None_iff)
qed

lemma trim_idem [simp]: "trim (trim s) = trim s"
  by (rule trim_unmovable[OF unmovable_trim])

text \<open>Folding the case of ASCII letters moves no white space.\<close>

lemma white_not_lower:
  "list_all (\<lambda>ns. list_all (\<lambda>n. n < 97 \<or> 122 < n) ns \<and> list_all (\<lambda>n. n < 256) ns) white_spaces"
  by code_simp

lemma starts_with_lower:
  assumes "\<forall>c \<in> set w. \<not> is_lower c" "starts_with (ascii_lower s) w"
  shows "starts_with s w"
  using assms
proof (induction s w rule: starts_with.induct)
  case (3 c s p ps)
  have "ascii_lower_char c = c"
  proof (rule ccontr)
    assume ne: "ascii_lower_char c \<noteq> c"
    then have "65 \<le> (of_char c :: nat) \<and> of_char c \<le> (90 :: nat)"
      by (auto simp: ascii_lower_char_def Let_def split: if_splits)
    then have "is_lower (ascii_lower_char c)" by (simp add: ascii_lower_char_def is_lower_def)
    then show False using 3 by (simp add: ascii_lower_def)
  qed
  then show ?case using 3 by (simp add: ascii_lower_def)
qed (simp_all add: ascii_lower_def)

lemma white_no_lower: "w \<in> set white_spellings \<Longrightarrow> c \<in> set w \<Longrightarrow> \<not> is_lower c"
proof -
  assume "w \<in> set white_spellings" "c \<in> set w"
  then obtain ns n where "ns \<in> set white_spaces" "n \<in> set ns" "c = char_of n" by (auto simp: white_spellings_def)
  moreover from this have "n < 97 \<or> 122 < n" "n < 256" using white_not_lower unfolding list_all_iff by blast+
  ultimately show ?thesis by (auto simp: is_lower_def)
qed

lemma trim_ascii_lower: "trim (ascii_lower (trim s)) = ascii_lower (trim s)"
proof (rule trim_unmovable)
  have "rev (ascii_lower t) = ascii_lower (rev t)" for t by (simp add: ascii_lower_def rev_map)
  then show "unmovable (ascii_lower (trim s))"
    using unmovable_trim[of s] starts_with_lower white_no_lower by (auto simp: unmovable_def)
qed

end
