(* ===== verification/Float_Text.thy ===== *)
theory Float_Text
  imports F64 Text
begin

text \<open>
  Binary floating-point numbers as text (standard library): \<open>str::parse\<close> of \<open>f32\<close> and \<open>f64\<close>, and
  their \<open>Display\<close>. A finite float is its sign and the rational magnitude it denotes; parsing
  rounds the exact decimal to the precision of the format, ties to even, and printing takes the
  shortest decimal that reads back to the same float. Nine digits identify an \<open>f32\<close> and
  seventeen an \<open>f64\<close>, which is how far the search for that decimal goes.
\<close>

datatype fp = Fin bool rat | Infinite bool | NotANumber

fun is_finite :: "fp \<Rightarrow> bool" where
  "is_finite (Fin _ _) = True"
| "is_finite _ = False"

record fp_format =
  ff_digits :: int
  ff_min_exp :: int
  ff_max_exp :: int
  ff_decimals :: nat

definition f32_format :: fp_format where
  "f32_format = \<lparr>ff_digits = 24, ff_min_exp = - 149, ff_max_exp = 128, ff_decimals = 9\<rparr>"

definition f64_format :: fp_format where
  "f64_format = \<lparr>ff_digits = 53, ff_min_exp = - 1074, ff_max_exp = 1024, ff_decimals = 17\<rparr>"

text \<open>Rounding a magnitude: subnormals keep the least exponent, overflow is infinity.\<close>

definition round_fp :: "fp_format \<Rightarrow> bool \<Rightarrow> rat \<Rightarrow> fp" where
  "round_fp fmt neg q =
     (if q \<le> 0 then Fin neg 0
      else let e = max (log_floor q - (ff_digits fmt - 1)) (ff_min_exp fmt);
               r = of_int (round_even (q / 2 powi e)) * 2 powi e
           in if 2 powi ff_max_exp fmt \<le> r then Infinite neg else Fin neg r)"

text \<open>
  Evaluation compares with the overflow threshold only where the leading bit is close to it; the
  magnitude rounds to at most the next power of two.
\<close>

lemma round_even_scaled:
  assumes "0 < q" "0 \<le> d" "e = log_floor q - (d - 1)" "log_floor q + 1 < m"
  shows "of_int (round_even (q / 2 powi e)) * (2 :: rat) powi e < 2 powi m"
proof -
  have "q / 2 powi e < 2 powi (log_floor q + 1) / 2 powi e"
    using log_floor_bounds(2)[of q] assms(1) by (intro divide_strict_right_mono) simp_all
  also have "2 powi (log_floor q + 1) / 2 powi e = (2 :: rat) powi d"
    by (simp add: assms(3) flip: power_int_diff)
  also have "(2 :: rat) powi d = of_int (2 ^ nat d)"
    using assms(2) by (simp add: power_int_def)
  finally have "round_even (q / 2 powi e) \<le> 2 ^ nat d"
    by (intro round_even_le_int less_imp_le)
  then have "(of_int (round_even (q / 2 powi e)) :: rat) \<le> of_int (2 ^ nat d)"
    by (simp only: of_int_le_iff)
  also have "\<dots> = 2 powi d" using assms(2) by (simp add: power_int_def)
  finally have "of_int (round_even (q / 2 powi e)) * (2 :: rat) powi e \<le> 2 powi d * 2 powi e"
    by (intro mult_right_mono) simp_all
  also have "\<dots> = 2 powi (log_floor q + 1)" by (simp add: assms(3) flip: power_int_add)
  also have "\<dots> < 2 powi m" using assms(4) by (intro power_int_strict_increasing) simp_all
  finally show ?thesis .
qed

definition normal_range :: "fp_format \<Rightarrow> int \<Rightarrow> bool" where
  "normal_range fmt lg \<longleftrightarrow>
     ff_min_exp fmt \<le> lg - (ff_digits fmt - 1) \<and> 0 \<le> ff_digits fmt \<and> lg + 1 < ff_max_exp fmt"

lemma round_fp_code [code]:
  "round_fp fmt neg q =
     (if q \<le> 0 then Fin neg 0
      else if normal_range fmt (log_floor q)
      then let e = log_floor q - (ff_digits fmt - 1)
           in Fin neg (of_int (round_even (q / 2 powi e)) * 2 powi e)
      else let e = max (log_floor q - (ff_digits fmt - 1)) (ff_min_exp fmt);
               r = of_int (round_even (q / 2 powi e)) * 2 powi e
           in if 2 powi ff_max_exp fmt \<le> r then Infinite neg else Fin neg r)"
proof (cases "0 < q \<and> normal_range fmt (log_floor q)")
  case True
  define e where "e = log_floor q - (ff_digits fmt - 1)"
  have small: "\<not> 2 powi ff_max_exp fmt \<le> of_int (round_even (q / 2 powi e)) * (2 :: rat) powi e"
    using round_even_scaled[of q "ff_digits fmt" e "ff_max_exp fmt"] True
    unfolding normal_range_def e_def not_le by blast
  have e: "max e (ff_min_exp fmt) = e" and q: "\<not> q \<le> 0" and n: "normal_range fmt (log_floor q)"
    using True by (simp_all add: e_def normal_range_def)
  show ?thesis
    unfolding round_fp_def Let_def e_def[symmetric] by (simp only: e q n small if_True if_False)
next
  case False
  show ?thesis
  proof (cases "q \<le> 0")
    case True
    then show ?thesis by (simp only: round_fp_def if_True)
  next
    case q: False
    with False have n: "\<not> normal_range fmt (log_floor q)" by simp
    show ?thesis by (simp only: round_fp_def q n if_False)
  qed
qed

text \<open>The value read as a signed rational, for comparisons.\<close>

fun fp_less :: "fp \<Rightarrow> fp \<Rightarrow> bool" where
  "fp_less (Fin n a) (Fin m b) \<longleftrightarrow> (if n then - a else a) < (if m then - b else b)"
| "fp_less (Infinite n) (Fin m b) \<longleftrightarrow> n"
| "fp_less (Fin n a) (Infinite m) \<longleftrightarrow> \<not> m"
| "fp_less (Infinite n) (Infinite m) \<longleftrightarrow> n \<and> \<not> m"
| "fp_less NotANumber _ \<longleftrightarrow> False"
| "fp_less _ NotANumber \<longleftrightarrow> False"

subsection \<open>Parsing\<close>

fun digits_value :: "nat \<Rightarrow> string \<Rightarrow> nat" where
  "digits_value acc [] = acc"
| "digits_value acc (c # cs) = digits_value (acc * 10 + (of_char c - 48)) cs"

text \<open>The exponent part: nothing, or \<open>e\<close>, an optional sign and at least one digit.\<close>

definition parse_exponent :: "string \<Rightarrow> int option" where
  "parse_exponent s =
     (case s of
        [] \<Rightarrow> Some 0
      | c # cs \<Rightarrow>
          if c \<noteq> CHR ''e'' \<and> c \<noteq> CHR ''E'' then None
          else
            (let neg = (cs \<noteq> [] \<and> hd cs = CHR ''-'');
                 ds = (if cs \<noteq> [] \<and> (hd cs = CHR ''-'' \<or> hd cs = CHR ''+'') then tl cs else cs)
             in if ds = [] \<or> \<not> list_all is_digit ds then None
                else Some (if neg then - int (digits_value 0 ds) else int (digits_value 0 ds))))"

definition parse_number :: "fp_format \<Rightarrow> bool \<Rightarrow> string \<Rightarrow> fp option" where
  "parse_number fmt neg s =
     (let whole = takeWhile is_digit s;
          rest = dropWhile is_digit s;
          dot = (rest \<noteq> [] \<and> hd rest = CHR ''.'');
          part = (if dot then takeWhile is_digit (tl rest) else []);
          tail_part = (if dot then dropWhile is_digit (tl rest) else rest)
      in if whole @ part = [] then None
         else map_option (\<lambda>e. round_fp fmt neg
                (of_nat (digits_value 0 (whole @ part)) * 10 powi (e - int (length part))))
                (parse_exponent tail_part))"

definition parse_fp :: "fp_format \<Rightarrow> string \<Rightarrow> fp option" where
  "parse_fp fmt s =
     (let neg = (s \<noteq> [] \<and> hd s = CHR ''-'');
          body = (if s \<noteq> [] \<and> (hd s = CHR ''-'' \<or> hd s = CHR ''+'') then tl s else s);
          low = ascii_lower body
      in if low = ''nan'' then Some NotANumber
         else if low = ''inf'' \<or> low = ''infinity'' then Some (Infinite neg)
         else parse_number fmt neg body)"

subsection \<open>Printing\<close>

text \<open>The position of the leading digit: \<open>10^(k-1) \<le> v < 10^k\<close>.\<close>

definition dec_guess :: "rat \<Rightarrow> int" where
  "dec_guess v = (let (a, b) = quotient_of v
     in int (length (show_nat (nat a))) - int (length (show_nat (nat b))))"

definition dec_exp :: "rat \<Rightarrow> int" where
  "dec_exp v = (let k = dec_guess v in if v < 10 powi k then k else k + 1)"

text \<open>
  The decimals with \<open>n\<close> significant digits on either side of \<open>v\<close>, as integers scaled by
  \<open>10^(k-n)\<close>, and the nearer of those that read back to \<open>v\<close>, the upper one on a tie.
\<close>

definition reads_back :: "fp_format \<Rightarrow> rat \<Rightarrow> int \<Rightarrow> int \<Rightarrow> bool" where
  "reads_back fmt v e c \<longleftrightarrow> round_fp fmt False (of_int c * 10 powi e) = Fin False v"

definition decimal_with :: "fp_format \<Rightarrow> rat \<Rightarrow> nat \<Rightarrow> (int \<times> int) option" where
  "decimal_with fmt v n =
     (let e = dec_exp v - int n; x = v / 10 powi e; c = \<lfloor>x\<rfloor>;
          low = reads_back fmt v e c; high = reads_back fmt v e (c + 1)
      in if high \<and> (\<not> low \<or> x - of_int c \<ge> 1 / 2) then Some (c + 1, e)
         else if low then Some (c, e) else None)"

fun shortest_from :: "fp_format \<Rightarrow> rat \<Rightarrow> nat \<Rightarrow> nat \<Rightarrow> int \<times> int" where
  "shortest_from fmt v n 0 = (\<lfloor>v / 10 powi (dec_exp v - int n)\<rfloor>, dec_exp v - int n)"
| "shortest_from fmt v n (Suc fuel) =
     (case decimal_with fmt v n of Some d \<Rightarrow> d | None \<Rightarrow> shortest_from fmt v (Suc n) fuel)"

text \<open>An integer times a power of ten in positional notation, never with an exponent.\<close>

definition positional :: "int \<Rightarrow> int \<Rightarrow> string" where
  "positional c e =
     (let ds = show_nat (nat c)
      in if 0 \<le> e then ds @ replicate (nat e) (CHR ''0'')
         else let k = nat (- e)
              in if k < length ds then take (length ds - k) ds @ ''.'' @ drop (length ds - k) ds
                 else ''0.'' @ replicate (k - length ds) (CHR ''0'') @ ds)"

definition sign_text :: "bool \<Rightarrow> string" where
  "sign_text neg = (if neg then ''-'' else [])"

fun show_fp :: "fp_format \<Rightarrow> fp \<Rightarrow> string" where
  "show_fp fmt NotANumber = ''NaN''"
| "show_fp fmt (Infinite neg) = sign_text neg @ ''inf''"
| "show_fp fmt (Fin neg v) = sign_text neg @
     (if v = 0 then ''0'' else (let (c, e) = shortest_from fmt v 1 (ff_decimals fmt - 1) in positional c e))"

text \<open>\<open>fract() == 0.0\<close>, and \<open>{:.1}\<close> of such a number.\<close>

definition is_whole :: "rat \<Rightarrow> bool" where
  "is_whole v \<longleftrightarrow> of_int \<lfloor>v\<rfloor> = v"

definition show_whole :: "bool \<Rightarrow> rat \<Rightarrow> string" where
  "show_whole neg v = sign_text neg @ show_nat (nat \<lfloor>v\<rfloor>) @ ''.0''"

end
