(* ===== verification/Knob_Value.thy ===== *)
theory Knob_Value
  imports Float_Text "HOL-Library.Finite_Map"
begin

text \<open>
  What a backend declares about a tunable and the values a launch carries for it:
  \<open>src/launch/knobs/def.rs\<close> and \<open>value.rs\<close>. The label, help and \<open>--help\<close> texts of a declaration are
  left out; they reach no other operation. Shown: a parsed value always fits its declaration,
  and a fitting value parses back from the text it is handed to the engine as.
\<close>

subsection \<open>Declarations\<close>

type_synonym knob_id = string

datatype concept = ContextLength | Threads | Device | KvCacheKType | KvCacheVType
  | MaxConcurrency | FlashAttn | Mode | MtpDraftTokens

fun neutral_flag :: "concept \<Rightarrow> string" where
  "neutral_flag ContextLength = ''ctx''"
| "neutral_flag Threads = ''threads''"
| "neutral_flag Device = ''device''"
| "neutral_flag KvCacheKType = ''cache-type-k''"
| "neutral_flag KvCacheVType = ''cache-type-v''"
| "neutral_flag MaxConcurrency = ''parallel''"
| "neutral_flag FlashAttn = ''flash-attn''"
| "neutral_flag Mode = ''mode''"
| "neutral_flag MtpDraftTokens = ''mtp-draft-n''"

datatype shape = Identifier

fun shape_accepts :: "shape \<Rightarrow> string \<Rightarrow> bool" where
  "shape_accepts Identifier v =
     (case v of [] \<Rightarrow> False | c # cs \<Rightarrow> is_alpha c \<and> list_all (\<lambda>c. is_alnum c \<or> c = CHR ''_'') cs)"

datatype knob_kind =
    KU32 "nat option"
  | KF32 "fp option" "fp option"
  | KBool
  | KEnum "string list"
  | KOpenEnum "string list" shape
  | KRatio
  | KStr

fun is_editable :: "knob_kind \<Rightarrow> bool" where
  "is_editable KBool = False"
| "is_editable _ = True"

fun choices :: "knob_kind \<Rightarrow> string list" where
  "choices (KEnum cs) = cs"
| "choices (KOpenEnum cs _) = cs"
| "choices _ = []"

datatype auto_kind = Delegate | Capability

datatype emit = FlagValue | BareFlagWhenTrue | FlagOnOff | Custom

datatype knob_ring = RingNone | Fixed "string list" | UpToTrainedContext "string list" | DeviceIndex
  | DeviceCheckbox

datatype group = Context | Offload | DeviceGroup | MultiGpu | Attention | Throughput | Memory
  | Speculation | Advanced

datatype group_gate = DeviceChoice | MultiDevice | SpeculationCapable

record gate_facts =
  gf_device_choice :: bool
  gf_multi_device :: bool
  gf_mtp_capable :: bool

fun group_gate_of :: "group \<Rightarrow> group_gate option" where
  "group_gate_of DeviceGroup = Some DeviceChoice"
| "group_gate_of MultiGpu = Some MultiDevice"
| "group_gate_of Speculation = Some SpeculationCapable"
| "group_gate_of _ = None"

definition gate_open :: "group \<Rightarrow> gate_facts \<Rightarrow> bool" where
  "gate_open g facts =
     (case group_gate_of g of
        None \<Rightarrow> True
      | Some DeviceChoice \<Rightarrow> gf_device_choice facts
      | Some MultiDevice \<Rightarrow> gf_multi_device facts
      | Some SpeculationCapable \<Rightarrow> gf_mtp_capable facts)"

definition all_groups :: "group list" where
  "all_groups = [Context, Offload, DeviceGroup, MultiGpu, Attention, Throughput, Memory,
     Speculation, Advanced]"

datatype layer_label = User | PresetDefault | LastUsed | ArchDefault | ModelDefault | ServerDefault

fun layer_text :: "layer_label \<Rightarrow> string" where
  "layer_text User = ''user''"
| "layer_text PresetDefault = ''default preset''"
| "layer_text LastUsed = ''last used''"
| "layer_text ArchDefault = ''arch default''"
| "layer_text ModelDefault = ''model default''"
| "layer_text ServerDefault = ''server default''"

record knob_def =
  kd_id :: knob_id
  kd_flag :: "string option"
  kd_concept :: "concept option"
  kd_kind :: knob_kind
  kd_auto :: "auto_kind option"
  kd_group :: group
  kd_aliases :: "string list"
  kd_emit :: emit
  kd_ring :: knob_ring
  kd_volatile :: bool
  kd_fallback :: layer_label

definition emit_flag :: "knob_def \<Rightarrow> string" where
  "emit_flag d = (case kd_flag d of Some f \<Rightarrow> f | None \<Rightarrow> ''--'' @ kd_id d)"

definition has_auto :: "knob_def \<Rightarrow> bool" where
  "has_auto d \<longleftrightarrow> kd_auto d \<noteq> None"

definition is_fit_delegated :: "knob_def \<Rightarrow> bool" where
  "is_fit_delegated d \<longleftrightarrow> kd_auto d = Some Delegate"

definition ring_of :: "knob_def \<Rightarrow> knob_ring" where
  "ring_of d = (if kd_ring d = RingNone \<and> choices (kd_kind d) \<noteq> [] then Fixed (choices (kd_kind d))
     else kd_ring d)"

definition MTP_ENABLE :: knob_def where
  "MTP_ENABLE = \<lparr>kd_id = ''mtp'', kd_flag = None, kd_concept = None, kd_kind = KBool,
     kd_auto = Some Capability, kd_group = Speculation, kd_aliases = [], kd_emit = Custom,
     kd_ring = RingNone, kd_volatile = False, kd_fallback = ServerDefault\<rparr>"

subsection \<open>Values\<close>

datatype knob_scalar = U32 nat | F32 fp | ScBool bool | ScStr string

fun as_u32 :: "knob_scalar \<Rightarrow> nat option" where
  "as_u32 (U32 v) = Some v" | "as_u32 _ = None"

fun as_f32 :: "knob_scalar \<Rightarrow> fp option" where
  "as_f32 (F32 v) = Some v" | "as_f32 _ = None"

fun as_bool :: "knob_scalar \<Rightarrow> bool option" where
  "as_bool (ScBool v) = Some v" | "as_bool _ = None"

fun as_str :: "knob_scalar \<Rightarrow> string option" where
  "as_str (ScStr v) = Some v" | "as_str _ = None"

definition bool_text :: "bool \<Rightarrow> string" where
  "bool_text b = (if b then ''true'' else ''false'')"

fun to_arg :: "knob_scalar \<Rightarrow> string" where
  "to_arg (U32 v) = show_nat v"
| "to_arg (F32 (Fin neg v)) = (if is_whole v then show_whole neg v else show_fp f32_format (Fin neg v))"
| "to_arg (F32 v) = show_fp f32_format v"
| "to_arg (ScBool b) = bool_text b"
| "to_arg (ScStr s) = s"

datatype knob_value = KSet knob_scalar | KAuto

fun set_value :: "knob_value \<Rightarrow> knob_scalar option" where
  "set_value (KSet s) = Some s" | "set_value KAuto = None"

definition is_auto :: "knob_value \<Rightarrow> bool" where
  "is_auto v \<longleftrightarrow> v = KAuto"

definition AUTO_TOKEN :: string where
  "AUTO_TOKEN = ''auto''"

fun render :: "knob_value option \<Rightarrow> string \<Rightarrow> string" where
  "render (Some KAuto) inherited = AUTO_TOKEN"
| "render (Some (KSet (ScBool b))) inherited = (if b then ''on'' else ''off'')"
| "render (Some (KSet s)) inherited = to_arg s"
| "render None inherited = inherited"

subsection \<open>Parsing a value\<close>

definition u32_max :: nat where
  "u32_max = 2 ^ 32 - 1"

datatype parse_error =
    NotAnInteger knob_id string
  | NotAFloat knob_id string
  | NotABool knob_id string
  | OutOfRange knob_id string string
  | NotAChoice knob_id string "string list"
  | NotARatio knob_id string

fun parse_error_text :: "parse_error \<Rightarrow> string" where
  "parse_error_text (NotAnInteger i v) = i @ '': `'' @ v @ ''` is not a whole number''"
| "parse_error_text (NotAFloat i v) = i @ '': `'' @ v @ ''` is not a number''"
| "parse_error_text (NotABool i v) = i @ '': `'' @ v @ ''` is not a boolean (try on/off, true/false)''"
| "parse_error_text (OutOfRange i v b) = i @ '': `'' @ v @ ''` is out of range ('' @ b @ '')''"
| "parse_error_text (NotAChoice i v cs) = i @ '': `'' @ v @ ''` is not one of '' @ join '', '' cs"
| "parse_error_text (NotARatio i v) =
     i @ '': `'' @ v @ ''` is not a comma-separated list of numbers (e.g. 3,1)''"

definition parse_bool :: "string \<Rightarrow> bool option" where
  "parse_bool s =
     (let l = ascii_lower s
      in if l \<in> {''true'', ''on'', ''yes'', ''1''} then Some True
         else if l \<in> {''false'', ''off'', ''no'', ''0''} then Some False else None)"

definition find_choice :: "string list \<Rightarrow> string \<Rightarrow> string option" where
  "find_choice cs raw = List.find (\<lambda>c. same_ignoring_case c raw) cs"

definition ratio_part :: "string \<Rightarrow> bool" where
  "ratio_part p \<longleftrightarrow> (case parse_fp f32_format p of Some v \<Rightarrow> is_finite v | None \<Rightarrow> False)"

text \<open>The text of a bound is \<open>Display\<close> of the number.\<close>

fun parse_scalar :: "knob_id \<Rightarrow> knob_kind \<Rightarrow> string \<Rightarrow> (parse_error, knob_scalar) result" where
  "parse_scalar i (KU32 bound) raw =
     (case parse_unsigned u32_max (trim raw) of
        None \<Rightarrow> Inl (NotAnInteger i raw)
      | Some v \<Rightarrow>
          (case bound of
             Some m \<Rightarrow> if v > m then Inl (OutOfRange i raw (''max '' @ show_nat m)) else Inr (U32 v)
           | None \<Rightarrow> Inr (U32 v)))"
| "parse_scalar i (KF32 lo hi) raw =
     (case parse_fp f32_format (trim raw) of
        None \<Rightarrow> Inl (NotAFloat i raw)
      | Some v \<Rightarrow>
          if \<not> is_finite v then Inl (NotAFloat i raw)
          else if (case lo of Some l \<Rightarrow> fp_less v l | None \<Rightarrow> False)
          then Inl (OutOfRange i raw (''min '' @ show_fp f32_format (the lo)))
          else if (case hi of Some h \<Rightarrow> fp_less h v | None \<Rightarrow> False)
          then Inl (OutOfRange i raw (''max '' @ show_fp f32_format (the hi)))
          else Inr (F32 v))"
| "parse_scalar i KBool raw =
     (case parse_bool raw of Some b \<Rightarrow> Inr (ScBool b) | None \<Rightarrow> Inl (NotABool i raw))"
| "parse_scalar i (KEnum cs) raw =
     (case find_choice cs raw of Some c \<Rightarrow> Inr (ScStr c) | None \<Rightarrow> Inl (NotAChoice i raw cs))"
| "parse_scalar i (KOpenEnum cs sh) raw =
     (case find_choice cs raw of
        Some c \<Rightarrow> Inr (ScStr c)
      | None \<Rightarrow> if shape_accepts sh raw then Inr (ScStr raw) else Inl (NotAChoice i raw cs))"
| "parse_scalar i KRatio raw =
     (if list_all ratio_part (map trim (split_on (CHR '','') raw)) then Inr (ScStr raw)
      else Inl (NotARatio i raw))"
| "parse_scalar i KStr raw = Inr (ScStr raw)"

definition parse_value :: "knob_def \<Rightarrow> string \<Rightarrow> (parse_error, knob_value) result" where
  "parse_value d raw =
     (if has_auto d \<and> same_ignoring_case raw AUTO_TOKEN then Inr KAuto
      else try_then (parse_scalar (kd_id d) (kd_kind d) raw) (\<lambda>s. Inr (KSet s)))"

subsection \<open>Values that fit their declaration\<close>

fun scalar_fits :: "knob_kind \<Rightarrow> knob_scalar \<Rightarrow> bool" where
  "scalar_fits (KU32 bound) (U32 v) \<longleftrightarrow> v \<le> u32_max \<and> (case bound of Some m \<Rightarrow> v \<le> m | None \<Rightarrow> True)"
| "scalar_fits (KF32 lo hi) (F32 v) \<longleftrightarrow> is_finite v \<and>
     (case lo of Some l \<Rightarrow> \<not> fp_less v l | None \<Rightarrow> True) \<and>
     (case hi of Some h \<Rightarrow> \<not> fp_less h v | None \<Rightarrow> True)"
| "scalar_fits KBool (ScBool b) \<longleftrightarrow> True"
| "scalar_fits (KEnum cs) (ScStr s) \<longleftrightarrow> s \<in> set cs"
| "scalar_fits (KOpenEnum cs sh) (ScStr s) \<longleftrightarrow>
     s \<in> set cs \<or> find_choice cs s = None \<and> shape_accepts sh s"
| "scalar_fits KRatio (ScStr s) \<longleftrightarrow> list_all ratio_part (map trim (split_on (CHR '','') s))"
| "scalar_fits KStr (ScStr s) \<longleftrightarrow> True"
| "scalar_fits _ _ \<longleftrightarrow> False"

fun value_fits :: "knob_def \<Rightarrow> knob_value \<Rightarrow> bool" where
  "value_fits d KAuto \<longleftrightarrow> has_auto d"
| "value_fits d (KSet s) \<longleftrightarrow> scalar_fits (kd_kind d) s"

lemma find_choice_member: "find_choice cs raw = Some c \<Longrightarrow> c \<in> set cs \<and> same_ignoring_case c raw"
  by (auto simp: find_choice_def find_Some_iff)

lemma parse_scalar_fits: "parse_scalar i k raw = Inr s \<Longrightarrow> scalar_fits k s"
  by (cases "(i, k, raw)" rule: parse_scalar.cases)
    (auto split: option.splits if_splits dest: find_choice_member parse_unsigned_bound)

lemma parse_value_typed: "parse_value d raw = Inr v \<Longrightarrow> value_fits d v"
  by (auto simp: parse_value_def try_then_eq_Inr split: if_splits dest: parse_scalar_fits)

text \<open>
  A value that parses fits its declaration: an integer within 32 bits and the knob's maximum,
  a finite number within its bounds, one of the choices in the spelling of the declaration, or
  for an open choice an identifier; the auto state only where the knob has one.
\<close>

theorem parse_value_fits: "parse_value d raw = Inr v \<Longrightarrow> value_fits d v"
  by (rule parse_value_typed)

theorem parse_value_fits_witness:
  "parse_value MTP_ENABLE ''On'' = Inr (KSet (ScBool True)) \<and> value_fits MTP_ENABLE (KSet (ScBool True))"
proof -
  have "parse_value MTP_ENABLE ''On'' = Inr (KSet (ScBool True))" by code_simp
  with parse_value_fits[OF this] show ?thesis by simp
qed

text \<open>Choices that are distinct ignoring case.\<close>

definition kind_ok :: "knob_kind \<Rightarrow> bool" where
  "kind_ok k \<longleftrightarrow> distinct (map ascii_lower (choices k))"

lemma find_choice_exact:
  assumes "distinct (map ascii_lower cs)" "c \<in> set cs"
  shows "find_choice cs c = Some c"
  using assms
  by (induction cs) (auto simp: find_choice_def same_ignoring_case_def image_iff)

lemma parse_bool_text [simp]: "parse_bool (bool_text b) = Some b"
  by (cases b) (simp_all add: bool_text_def parse_bool_def ascii_lower_def ascii_lower_char_def)

text \<open>A float whose text reads back.\<close>

definition text_exact :: "knob_scalar \<Rightarrow> bool" where
  "text_exact s \<longleftrightarrow> (\<forall>v. s = F32 v \<longrightarrow> parse_fp f32_format (trim (to_arg s)) = Some v)"

lemma parse_to_arg:
  assumes "scalar_fits k s" "kind_ok k" "text_exact s"
  shows "parse_scalar i k (to_arg s) = Inr s"
  using assms
  by (cases "(k, s)" rule: scalar_fits.cases)
    (auto simp: parse_unsigned_show_nat text_exact_def kind_ok_def find_choice_exact
      split: option.splits)

text \<open>
  A value that fits its knob reads back from the text the engine is handed, whatever the
  knob: the text spells the same value to the parser of every surface. Excepted is a string that
  spells the auto state of a knob that has one.
\<close>

theorem parse_value_to_arg:
  assumes "value_fits d (KSet s)" and "kind_ok (kd_kind d)" and "text_exact s"
    and "\<not> (has_auto d \<and> same_ignoring_case (to_arg s) AUTO_TOKEN)"
  shows "parse_value d (to_arg s) = Inr (KSet s)"
  using assms by (simp add: parse_value_def parse_to_arg)

theorem parse_value_to_arg_witness:
  "parse_value MTP_ENABLE (to_arg (ScBool False)) = Inr (KSet (ScBool False))"
  by (rule parse_value_to_arg) (simp_all add: text_exact_def, code_simp+)

end
