(* ===== verification/Launch_Args.thy ===== *)
theory Launch_Args
  imports Text "HOL-Library.Sublist"
begin

text \<open>
  The denylist on the arguments a user hands through to an engine, and the launch choices that
  are not knobs: \<open>src/launch/params.rs\<close>. An argument is a string of UTF-8 bytes, so
  \<open>to_string_lossy\<close> is the identity; log lines are left out. Shown: what the denylist strips is
  exactly what it refuses, nothing it refuses is left, and which secrets a displayed argument
  list still holds.
\<close>

subsection \<open>The denylist\<close>

definition FORBIDDEN_ADVANCED_PREFIXES :: "string list" where
  "FORBIDDEN_ADVANCED_PREFIXES =
     [''--host'', ''--listen'', ''--bind'', ''--api-key'', ''--ssl-'', ''--port'']"

definition head_hits_prefixes :: "string \<Rightarrow> string list \<Rightarrow> bool" where
  "head_hits_prefixes head denied =
     (let l = ascii_lower head
      in list_ex (\<lambda>p. l = p \<or> (ends_with p ''-'' \<and> starts_with l (ascii_lower p))) denied)"

definition is_forbidden_head :: "string \<Rightarrow> bool" where
  "is_forbidden_head head = head_hits_prefixes head FORBIDDEN_ADVANCED_PREFIXES"

definition is_forbidden_head_ext :: "string \<Rightarrow> string list \<Rightarrow> bool" where
  "is_forbidden_head_ext head extra \<longleftrightarrow> is_forbidden_head head \<or> head_hits_prefixes head extra"

text \<open>The head of an argument: what stands before its \<open>=\<close>.\<close>

definition arg_head :: "string \<Rightarrow> string" where
  "arg_head e = before (CHR ''='') e"

datatype flag_values = NoValue | Exactly nat | OneOrMore

definition values_of :: "(string \<times> flag_values) list \<Rightarrow> string \<Rightarrow> nat \<times> bool" where
  "values_of counts head =
     (case map_option snd (List.find (\<lambda>(h, _). h = ascii_lower head) counts) of
        None \<Rightarrow> (1, False)
      | Some NoValue \<Rightarrow> (0, False)
      | Some (Exactly n) \<Rightarrow> (n, False)
      | Some OneOrMore \<Rightarrow> (1, True))"

text \<open>What is left of the arguments after the values of a stripped head.\<close>

definition skip_values :: "(string \<times> flag_values) list \<Rightarrow> string \<Rightarrow> string list \<Rightarrow> string list" where
  "skip_values counts e es =
     (let (fixed, open_end) = values_of counts (arg_head e);
          es = drop (fixed - (if CHR ''='' \<in> set e then 1 else 0)) es
      in if open_end then dropWhile (\<lambda>t. \<not> starts_with t ''-'') es else es)"

lemma length_skip_values [termination_simp]: "length (skip_values counts e es) \<le> length es"
  by (auto simp: skip_values_def Let_def split: prod.splits
      intro: order_trans[OF length_dropWhile_le])

function strip_forbidden_extras ::
  "string list \<Rightarrow> string list \<Rightarrow> (string \<times> flag_values) list \<Rightarrow> string list" where
  "strip_forbidden_extras [] extra counts = []"
| "strip_forbidden_extras (e # es) extra counts =
     (if \<not> is_forbidden_head_ext (arg_head e) extra then e # strip_forbidden_extras es extra counts
      else strip_forbidden_extras (skip_values counts e es) extra counts)"
  by pat_completeness auto
termination
  by (relation "measure (\<lambda>(es, _, _). length es)")
    (auto simp: le_imp_less_Suc length_skip_values)

subsection \<open>Refusal and display\<close>

definition SECRET_BEARING_PREFIXES :: "string list" where
  "SECRET_BEARING_PREFIXES = [''--api-key'', ''--ssl-'']"

definition is_secret_head :: "string \<Rightarrow> bool" where
  "is_secret_head head =
     (let l = ascii_lower head
      in list_ex (\<lambda>p. l = p \<or> (ends_with p ''-'' \<and> starts_with l p)) SECRET_BEARING_PREFIXES)"

definition REDACTED :: string where
  "REDACTED = ''<value-redacted>''"

definition forbidden_in_extras_ext :: "string list \<Rightarrow> string list \<Rightarrow> string list" where
  "forbidden_in_extras_ext extras extra =
     List.map_filter (\<lambda>s.
       if \<not> is_forbidden_head_ext (arg_head s) extra then None
       else if is_secret_head (arg_head s) \<and> CHR ''='' \<in> set s then Some (arg_head s @ ''='' @ REDACTED)
       else Some s) extras"

definition forbidden_in_extras :: "string list \<Rightarrow> string list" where
  "forbidden_in_extras extras = forbidden_in_extras_ext extras []"

text \<open>The pieces \<open>redact_for_display\<close> pushes; they are separated by single blanks.\<close>

fun redacted_pieces :: "string list \<Rightarrow> string list" where
  "redacted_pieces [] = []"
| "redacted_pieces (t # ts) =
     (case split_once (CHR ''='') t of
        Some (h, _) \<Rightarrow>
          (if is_secret_head h then (h @ ''='' @ REDACTED) # redacted_pieces ts
           else t # redacted_pieces ts)
      | None \<Rightarrow>
          (if \<not> is_secret_head t then t # redacted_pieces ts
           else (case ts of
                   [] \<Rightarrow> [t]
                 | nxt # rest \<Rightarrow>
                     if starts_with nxt ''-'' then t # redacted_pieces ts
                     else t # REDACTED # redacted_pieces rest)))"

text \<open>
  The separating blank is pushed only once the text is not empty, which it is again only when all
  the pieces so far were empty strings.
\<close>

fun spaced :: "string \<Rightarrow> string list \<Rightarrow> string" where
  "spaced acc [] = acc"
| "spaced acc (p # ps) = spaced (if acc = [] then p else acc @ '' '' @ p) ps"

definition redact_for_display :: "string list \<Rightarrow> string" where
  "redact_for_display extras = spaced [] (redacted_pieces extras)"

definition extras_have_flag :: "string list \<Rightarrow> string \<Rightarrow> bool" where
  "extras_have_flag extras head = list_ex (\<lambda>e. same_ignoring_case (arg_head e) head) extras"

subsection \<open>Launch choices\<close>

datatype backend_choice = AutoBackend | Explicit string

fun explicit_id :: "backend_choice \<Rightarrow> string option" where
  "explicit_id AutoBackend = None"
| "explicit_id (Explicit i) = Some i"

fun choice_label :: "backend_choice \<Rightarrow> string" where
  "choice_label AutoBackend = ''auto''"
| "choice_label (Explicit i) = i"

definition choice_from_id :: "string \<Rightarrow> backend_choice" where
  "choice_from_id i = (if i = ''auto'' then AutoBackend else Explicit i)"

datatype mtp_enable = MtpAuto | MtpOn | MtpOff

fun mtp_label :: "mtp_enable \<Rightarrow> string" where
  "mtp_label MtpAuto = ''auto''"
| "mtp_label MtpOn = ''on''"
| "mtp_label MtpOff = ''off''"

definition mtp_from_token :: "string \<Rightarrow> mtp_enable option" where
  "mtp_from_token s =
     (let l = ascii_lower s
      in if l = ''auto'' then Some MtpAuto
         else if l \<in> {''on'', ''true'', ''1''} then Some MtpOn
         else if l \<in> {''off'', ''false'', ''0''} then Some MtpOff else None)"

record mtp_directive =
  md_draft_model :: "string option"

definition mtp_forced_warning :: string where
  "mtp_forced_warning = ''MTP forced on (`--mtp on`) but this model is not MTP-capable (no embedded nextn head, no `mtp-*.gguf` drafter sibling) ''
     @ map char_of [226, 128, 148 :: nat] @ '' skipping.''"

definition resolve_mtp_directive ::
  "mtp_enable \<Rightarrow> bool \<Rightarrow> string option \<Rightarrow> string list \<Rightarrow> mtp_directive option \<times> string list" where
  "resolve_mtp_directive intent embedded_capable separate_head warnings =
     (let directive = \<lparr>md_draft_model = (if embedded_capable then None else separate_head)\<rparr>;
          capable = embedded_capable \<or> separate_head \<noteq> None
      in case intent of
           MtpOff \<Rightarrow> (None, warnings)
         | MtpAuto \<Rightarrow> (if capable then Some directive else None, warnings)
         | MtpOn \<Rightarrow> if capable then (Some directive, warnings)
                    else (None, warnings @ [mtp_forced_warning]))"

subsection \<open>What stripping leaves\<close>

lemma strip_keeps: "list_all (\<lambda>e. \<not> is_forbidden_head_ext (arg_head e) extra) es \<Longrightarrow>
    strip_forbidden_extras (es @ fs) extra counts = es @ strip_forbidden_extras fs extra counts"
  by (induction es) simp_all

lemma forbidden_in_extras_none:
  "forbidden_in_extras_ext es extra = [] \<longleftrightarrow>
     list_all (\<lambda>e. \<not> is_forbidden_head_ext (arg_head e) extra) es"
  by (induction es) (auto simp: forbidden_in_extras_ext_def map_filter_simps split: if_splits)

lemma skip_values_suffix: "suffix (skip_values counts e es) es"
  by (auto simp: skip_values_def Let_def suffix_drop split: prod.splits
      intro: suffix_order.trans[OF suffix_dropWhile suffix_drop])

lemma strip_clean:
  "list_all (\<lambda>e. \<not> is_forbidden_head_ext (arg_head e) extra) (strip_forbidden_extras es extra counts)"
  by (induction es extra counts rule: strip_forbidden_extras.induct) simp_all

lemma strip_subseq:
  "subseq (strip_forbidden_extras es extra counts) es"
proof (induction es extra counts rule: strip_forbidden_extras.induct)
  case (2 e es extra counts)
  then show ?case
    using suffix_imp_subseq[OF skip_values_suffix[of counts e es]]
    by (auto intro: subseq_order.trans)
qed simp


subsection \<open>What a display leaves\<close>

text \<open>A secret in the equals form: its head.\<close>

definition inline_secret :: "string \<Rightarrow> bool" where
  "inline_secret t \<longleftrightarrow> (case split_once (CHR ''='') t of Some (h, _) \<Rightarrow> is_secret_head h | None \<Rightarrow> False)"

text \<open>A head whose secret is the next argument.\<close>

definition spaced_secret :: "string \<Rightarrow> bool" where
  "spaced_secret t \<longleftrightarrow> split_once (CHR ''='') t = None \<and> is_secret_head t"

lemma redacted_unfold:
  "redacted_pieces (t # ts) =
     (if inline_secret t then (arg_head t @ ''='' @ REDACTED) # redacted_pieces ts
      else if spaced_secret t \<and> ts \<noteq> [] \<and> \<not> starts_with (hd ts) ''-''
      then t # REDACTED # redacted_pieces (tl ts)
      else t # redacted_pieces ts)"
proof (cases "split_once (CHR ''='') t")
  case None
  then show ?thesis
    by (cases ts) (simp_all add: inline_secret_def spaced_secret_def)
next
  case (Some hv)
  then show ?thesis
    using split_once_Some[of "CHR ''=''" t "fst hv" "snd hv"]
    by (cases hv) (auto simp: inline_secret_def spaced_secret_def arg_head_def before_def
        takeWhile_append)
qed

text \<open>
  Two argument lists that agree but for the secrets in them, none of which stands alone and
  starts with a dash.
\<close>

inductive agree_but_secrets :: "string list \<Rightarrow> string list \<Rightarrow> bool" where
  no_args: "agree_but_secrets [] []"
| inline: "inline_secret t \<Longrightarrow> inline_secret u \<Longrightarrow> arg_head t = arg_head u \<Longrightarrow>
    agree_but_secrets ts us \<Longrightarrow> agree_but_secrets (t # ts) (u # us)"
| spaced_form: "spaced_secret t \<Longrightarrow> \<not> starts_with v ''-'' \<Longrightarrow> \<not> starts_with w ''-'' \<Longrightarrow>
    agree_but_secrets ts us \<Longrightarrow> agree_but_secrets (t # v # ts) (t # w # us)"
| same_arg: "\<not> spaced_secret t \<Longrightarrow> agree_but_secrets ts us \<Longrightarrow> agree_but_secrets (t # ts) (t # us)"

lemma agree_redacted: "agree_but_secrets es fs \<Longrightarrow> redacted_pieces es = redacted_pieces fs"
proof (induction rule: agree_but_secrets.induct)
  case (spaced_form t v w ts us)
  then have "\<not> inline_secret t" by (simp add: inline_secret_def spaced_secret_def)
  with spaced_form show ?case by (simp add: redacted_unfold del: redacted_pieces.simps)
qed (simp_all add: redacted_unfold del: redacted_pieces.simps(2))

text \<open>
  C21. The displayed text does not depend on the secrets: two argument lists that differ only in
  the values of secret heads, in the equals form or the spaced form, are displayed alike, as long
  as no spaced secret starts with a dash.
\<close>

theorem redact_hides_secrets:
  "agree_but_secrets es fs \<Longrightarrow> redact_for_display es = redact_for_display fs"
  by (simp add: redact_for_display_def agree_redacted)

theorem redact_hides_secrets_witness:
  "redact_for_display [''-c'', ''--API-key'', ''hunter2'', ''--ssl-key=k'']
     = redact_for_display [''-c'', ''--API-key'', ''other'', ''--ssl-key=long'']"
proof (rule redact_hides_secrets)
  have 1: "\<not> spaced_secret ''-c''" "spaced_secret ''--API-key''"
    "inline_secret ''--ssl-key=k''" "inline_secret ''--ssl-key=long''" by code_simp+
  have 2: "\<not> starts_with ''hunter2'' ''-''" "\<not> starts_with ''other'' ''-''" by simp_all
  have 3: "arg_head ''--ssl-key=k'' = arg_head ''--ssl-key=long''" by code_simp
  show "agree_but_secrets [''-c'', ''--API-key'', ''hunter2'', ''--ssl-key=k'']
      [''-c'', ''--API-key'', ''other'', ''--ssl-key=long'']"
    by (rule same_arg[OF 1(1) spaced_form[OF 1(2) 2 inline[OF 1(3,4) 3 no_args]]])
qed

text \<open>
  A spaced secret that starts with a dash is displayed in clear, though the strip knows it for
  the value of the head before it and drops it with the head.
\<close>

theorem redact_shows_dashed_secret:
  "redact_for_display [''--api-key'', ''-secret''] = ''--api-key -secret''
   \<and> strip_forbidden_extras [''--api-key'', ''-secret''] [] [] = []"
  by code_simp

end
