(* ===== verification/Knob_Registry.thy ===== *)
theory Knob_Registry
  imports Knob_Value Launch_Args
begin

text \<open>
  The union of the knobs the backends declare (\<open>src/launch/knobs/registry.rs\<close>) and the knob set
  a launch carries (\<open>KnobSet\<close> of \<open>value.rs\<close>). The compiled-in declarations and the runtime tables
  are an explicit argument; interning of strings is the identity. A knob set is a finite map, and
  iterating it runs in the order of the ids, as over the \<open>BTreeMap\<close>.
\<close>

subsection \<open>The registry\<close>

type_synonym tables = "(string \<times> knob_def list) list"

record knob_registry =
  kr_builtin :: tables
  kr_scoped :: tables

definition all_defs :: "knob_registry \<Rightarrow> (string \<times> knob_def) list" where
  "all_defs r = concat (map (\<lambda>(b, ds). map (Pair b) ds) (kr_builtin r))"

definition scope_key :: "string \<Rightarrow> string \<Rightarrow> string" where
  "scope_key backend_id model = backend_id @ '':'' @ model"

definition split_scope :: "string \<Rightarrow> (string \<times> string) option" where
  "split_scope scope = split_once (CHR '':'') scope"

fun replace_table :: "string \<Rightarrow> knob_def list \<Rightarrow> tables \<Rightarrow> tables" where
  "replace_table scope defs [] = [(scope, defs)]"
| "replace_table scope defs ((s, d) # ts) =
     (if s = scope then (s, defs) # ts else (s, d) # replace_table scope defs ts)"

definition install_scoped :: "string \<Rightarrow> knob_def list \<Rightarrow> knob_registry \<Rightarrow> knob_registry" where
  "install_scoped scope defs r = r\<lparr>kr_scoped := replace_table scope defs (kr_scoped r)\<rparr>"

definition scoped :: "knob_registry \<Rightarrow> string \<Rightarrow> knob_def list option" where
  "scoped r scope = map_option snd (List.find (\<lambda>(s, _). s = scope) (kr_scoped r))"

definition is_scoped :: "knob_registry \<Rightarrow> string \<Rightarrow> bool" where
  "is_scoped r scope \<longleftrightarrow> scoped r scope \<noteq> None"

definition scoped_defs :: "knob_registry \<Rightarrow> knob_def list" where
  "scoped_defs r = concat (map snd (kr_scoped r))"

definition builtin_of :: "knob_registry \<Rightarrow> string \<Rightarrow> knob_def list option" where
  "builtin_of r backend_id = map_option snd (List.find (\<lambda>(b, _). b = backend_id) (kr_builtin r))"

definition for_backend :: "knob_registry \<Rightarrow> string \<Rightarrow> knob_def list" where
  "for_backend r backend_id =
     (case builtin_of r backend_id of
        Some ds \<Rightarrow> ds
      | None \<Rightarrow> (case scoped r backend_id of Some ds \<Rightarrow> ds | None \<Rightarrow> []))"

definition distinct_ids :: "knob_registry \<Rightarrow> knob_id list" where
  "distinct_ids r =
     foldl (\<lambda>out (_, d). if kd_id d \<in> set out then out else out @ [kd_id d]) [] (all_defs r)"

definition normalise :: "string \<Rightarrow> string" where
  "normalise key =
     replace_char (CHR ''_'') (CHR ''-'') (ascii_lower (dropWhile (\<lambda>c. c = CHR ''-'') (trim key)))"

definition spelt :: "string \<Rightarrow> knob_def \<Rightarrow> bool" where
  "spelt want d \<longleftrightarrow> normalise (kd_id d) = want"

definition aliased :: "string \<Rightarrow> knob_def \<Rightarrow> bool" where
  "aliased want d \<longleftrightarrow> list_ex (\<lambda>a. normalise a = want) (kd_aliases d)"

definition concept_spelt :: "string \<Rightarrow> knob_def \<Rightarrow> bool" where
  "concept_spelt want d \<longleftrightarrow>
     (case kd_concept d of Some c \<Rightarrow> normalise (neutral_flag c) = want | None \<Rightarrow> False)"

definition resolve_static_id :: "knob_registry \<Rightarrow> string \<Rightarrow> knob_id option" where
  "resolve_static_id r key =
     (let want = normalise key; ds = map snd (all_defs r)
      in map_option kd_id (or_else (List.find (\<lambda>d. spelt want d \<or> aliased want d) ds)
                                   (List.find (concept_spelt want) ds)))"

definition resolve_id :: "knob_registry \<Rightarrow> string \<Rightarrow> knob_id option" where
  "resolve_id r key =
     or_else (resolve_static_id r key)
       (map_option kd_id (List.find (spelt (normalise key)) (scoped_defs r)))"

definition resolve_id_for :: "knob_registry \<Rightarrow> string \<Rightarrow> string \<Rightarrow> knob_id option" where
  "resolve_id_for r backend_id key =
     (let want = normalise key; ds = for_backend r backend_id
      in or_else (map_option kd_id (List.find (spelt want) ds))
          (or_else (map_option kd_id (List.find (aliased want) ds))
            (or_else (map_option kd_id (List.find (concept_spelt want) ds)) (resolve_id r key))))"

definition def_for :: "knob_registry \<Rightarrow> knob_id \<Rightarrow> knob_def option" where
  "def_for r i =
     or_else (List.find (\<lambda>d. kd_id d = i) (map snd (all_defs r)))
       (List.find (\<lambda>d. kd_id d = i) (scoped_defs r))"

definition def_for_backend :: "knob_registry \<Rightarrow> string \<Rightarrow> knob_id \<Rightarrow> knob_def option" where
  "def_for_backend r backend_id i = List.find (\<lambda>d. kd_id d = i) (for_backend r backend_id)"

definition def_for_backend_concept :: "knob_registry \<Rightarrow> string \<Rightarrow> concept \<Rightarrow> knob_def option" where
  "def_for_backend_concept r backend_id c =
     List.find (\<lambda>d. kd_concept d = Some c) (for_backend r backend_id)"

definition by_backend :: "knob_registry \<Rightarrow> tables" where
  "by_backend r = filter (\<lambda>(_, ds). ds \<noteq> []) (kr_builtin r)"

definition grouped_for_backend :: "knob_registry \<Rightarrow> string \<Rightarrow> (group \<times> knob_def list) list" where
  "grouped_for_backend r backend_id =
     List.map_filter (\<lambda>g.
       let rows = filter (\<lambda>d. kd_group d = g) (for_backend r backend_id)
       in if rows \<noteq> [] then Some (g, rows) else None) all_groups"

definition volatile_ids :: "knob_registry \<Rightarrow> string \<Rightarrow> knob_id list" where
  "volatile_ids r backend_id = map kd_id (filter kd_volatile (for_backend r backend_id))"

subsection \<open>Validation\<close>

datatype registry_error =
    KindConflict knob_id string string
  | DuplicateConcept string concept
  | MalformedId knob_id
  | ReservedFlag knob_id string string
  | UnparsableRingStop knob_id string
  | DuplicateFlag string string knob_id knob_id
  | DuplicateId string knob_id

definition RESERVED_LLAMASTASH_FLAGS :: "string list" where
  "RESERVED_LLAMASTASH_FLAGS = [''--config'', ''--json'', ''--verbose'', ''--quiet'', ''--no-colors'',
     ''--no-scan'', ''--no-spawn'', ''--model-path'', ''--llama-server'', ''--render'',
     ''--render-size'', ''--mouse-focus'', ''--preset'', ''--backend'', ''--server'', ''--port'',
     ''--wait'', ''--help'', ''--version'']"

definition id_is_wellformed :: "string \<Rightarrow> bool" where
  "id_is_wellformed i \<longleftrightarrow> i \<noteq> [] \<and> \<not> starts_with i ''-'' \<and> \<not> ends_with i ''-''
     \<and> list_all (\<lambda>c. is_lower c \<or> is_digit c \<or> c = CHR ''-'') i"

fun duplicate_flags :: "string \<Rightarrow> (string \<times> knob_id) list \<Rightarrow> knob_def list \<Rightarrow> registry_error list" where
  "duplicate_flags b flags [] = []"
| "duplicate_flags b flags (d # ds) =
     (if kd_emit d = Custom then duplicate_flags b flags ds
      else (case map_of flags (emit_flag d) of
              Some first \<Rightarrow> DuplicateFlag b (emit_flag d) first (kd_id d) # duplicate_flags b flags ds
            | None \<Rightarrow> duplicate_flags b ((emit_flag d, kd_id d) # flags) ds))"

fun duplicate_ids :: "string \<Rightarrow> knob_id list \<Rightarrow> knob_def list \<Rightarrow> registry_error list" where
  "duplicate_ids b seen [] = []"
| "duplicate_ids b seen (d # ds) =
     (if kd_id d \<in> set seen then DuplicateId b (kd_id d) # duplicate_ids b seen ds
      else duplicate_ids b (kd_id d # seen) ds)"

text \<open>The concepts in the order of their declaration, which is the derived order of the code.\<close>

definition all_concepts :: "concept list" where
  "all_concepts = [ContextLength, Threads, Device, KvCacheKType, KvCacheVType, MaxConcurrency,
     FlashAttn, Mode, MtpDraftTokens]"

definition duplicate_concepts :: "string \<Rightarrow> knob_def list \<Rightarrow> registry_error list" where
  "duplicate_concepts b ds =
     map (DuplicateConcept b)
       (filter (\<lambda>c. 1 < length (filter (\<lambda>d. kd_concept d = Some c) ds)) all_concepts)"

definition ring_stops :: "knob_def \<Rightarrow> string list" where
  "ring_stops d = (case kd_ring d of Fixed s \<Rightarrow> s | UpToTrainedContext s \<Rightarrow> s | _ \<Rightarrow> [])"

definition def_errors :: "knob_def \<Rightarrow> registry_error list" where
  "def_errors d =
     (if id_is_wellformed (kd_id d) then [] else [MalformedId (kd_id d)])
   @ (if emit_flag d \<in> set RESERVED_LLAMASTASH_FLAGS
      then [ReservedFlag (kd_id d) (emit_flag d) ''llamastash owns on its own command line''] else [])
   @ (if is_forbidden_head (emit_flag d)
      then [ReservedFlag (kd_id d) (emit_flag d) ''the loopback / credential denylist refuses''] else [])
   @ List.map_filter (\<lambda>s. if (case parse_value d s of Inl _ \<Rightarrow> True | Inr _ \<Rightarrow> False)
                          then Some (UnparsableRingStop (kd_id d) s) else None) (ring_stops d)"

fun declaration_errors ::
  "(knob_id \<times> string \<times> knob_kind) list \<Rightarrow> (string \<times> knob_def) list \<Rightarrow> registry_error list" where
  "declaration_errors kinds [] = []"
| "declaration_errors kinds ((b, d) # ds) =
     def_errors d
     @ (case map_of kinds (kd_id d) of
          Some (first, k) \<Rightarrow>
            (if k \<noteq> kd_kind d then [KindConflict (kd_id d) first b] else [])
            @ declaration_errors kinds ds
        | None \<Rightarrow> declaration_errors ((kd_id d, b, kd_kind d) # kinds) ds)"

definition validate :: "knob_registry \<Rightarrow> registry_error list" where
  "validate r =
     declaration_errors [] (all_defs r)
     @ concat (map (\<lambda>(b, ds). duplicate_flags b [] ds @ duplicate_ids b [] ds @ duplicate_concepts b ds)
         (kr_builtin r))"

subsection \<open>What validation checks\<close>

lemma duplicate_ids_none:
  "duplicate_ids b seen ds = [] \<longleftrightarrow> distinct (map kd_id ds) \<and> set seen \<inter> kd_id ` set ds = {}"
  by (induction b seen ds rule: duplicate_ids.induct) auto

definition self_emitting :: "knob_def list \<Rightarrow> knob_def list" where
  "self_emitting ds = filter (\<lambda>d. kd_emit d \<noteq> Custom) ds"

lemma duplicate_flags_none:
  "duplicate_flags b flags ds = [] \<longleftrightarrow>
     distinct (map emit_flag (self_emitting ds)) \<and> fst ` set flags \<inter> emit_flag ` set (self_emitting ds) = {}"
proof (induction b flags ds rule: duplicate_flags.induct)
  case (2 b flags d ds)
  show ?case
  proof (cases "kd_emit d = Custom")
    case True
    with 2 show ?thesis by (simp add: self_emitting_def)
  next
    case False
    then have e: "self_emitting (d # ds) = d # self_emitting ds" by (simp add: self_emitting_def)
    show ?thesis
    proof (cases "map_of flags (emit_flag d)")
      case None
      then have "emit_flag d \<notin> fst ` set flags" by (simp add: map_of_eq_None_iff)
      with 2(2)[OF False None] None False show ?thesis by (auto simp: e)
    next
      case (Some f)
      then have "emit_flag d \<in> fst ` set flags" by (metis map_of_eq_None_iff option.distinct(1))
      with Some False show ?thesis by (auto simp: e)
    qed
  qed
qed (simp add: self_emitting_def)

lemma all_concepts_complete: "c \<in> set all_concepts"
  by (cases c) (simp_all add: all_concepts_def)

lemma duplicate_concepts_none:
  "duplicate_concepts b ds = [] \<longleftrightarrow> (\<forall>c. length (filter (\<lambda>d. kd_concept d = Some c) ds) \<le> 1)"
  using all_concepts_complete
  by (auto simp: duplicate_concepts_def filter_empty_conv not_less)

definition kinds_agree :: "knob_def list \<Rightarrow> bool" where
  "kinds_agree ds \<longleftrightarrow> (\<forall>d \<in> set ds. \<forall>d' \<in> set ds. kd_id d = kd_id d' \<longrightarrow> kd_kind d = kd_kind d')"

definition kind_of :: "(knob_id \<times> string \<times> knob_kind) list \<Rightarrow> knob_id \<Rightarrow> knob_kind option" where
  "kind_of kinds i = map_option snd (map_of kinds i)"

definition kinds_fit :: "(knob_id \<times> string \<times> knob_kind) list \<Rightarrow> knob_def list \<Rightarrow> bool" where
  "kinds_fit kinds ds \<longleftrightarrow> (\<forall>d \<in> set ds. kind_of kinds (kd_id d) \<in> {None, Some (kd_kind d)})"

lemma kinds_agree_Cons:
  "kinds_agree (d # ds) \<longleftrightarrow>
     kinds_agree ds \<and> (\<forall>d' \<in> set ds. kd_id d' = kd_id d \<longrightarrow> kd_kind d' = kd_kind d)"
  by (auto simp: kinds_agree_def)

lemma kinds_fit_insert:
  assumes "kind_of kinds i = None"
  shows "kinds_fit ((i, b, k) # kinds) ds \<longleftrightarrow>
    kinds_fit kinds ds \<and> (\<forall>d \<in> set ds. kd_id d = i \<longrightarrow> kd_kind d = k)"
  using assms unfolding kinds_fit_def kind_of_def by (auto split: if_splits)

lemma kinds_fit_same:
  assumes "kind_of kinds (kd_id d) = Some (kd_kind d)" "kinds_fit kinds ds"
  shows "\<forall>d' \<in> set ds. kd_id d' = kd_id d \<longrightarrow> kd_kind d' = kd_kind d"
  using assms unfolding kinds_fit_def by fastforce

lemma declaration_errors_none:
  "declaration_errors kinds ds = [] \<longleftrightarrow>
     (\<forall>d \<in> set (map snd ds). def_errors d = []) \<and> kinds_agree (map snd ds) \<and>
     kinds_fit kinds (map snd ds)"
proof (induction kinds ds rule: declaration_errors.induct)
  case (1 kinds)
  then show ?case by (simp add: kinds_agree_def kinds_fit_def)
next
  case (2 kinds b d ds)
  show ?case
  proof (cases "map_of kinds (kd_id d)")
    case None
    then have n: "kind_of kinds (kd_id d) = None" by (simp add: kind_of_def)
    have "kinds_fit kinds (d # map snd ds) \<longleftrightarrow> kinds_fit kinds (map snd ds)"
      using n by (simp add: kinds_fit_def)
    moreover have "declaration_errors kinds ((b, d) # ds) = [] \<longleftrightarrow>
        def_errors d = [] \<and> declaration_errors ((kd_id d, b, kd_kind d) # kinds) ds = []"
      using None by simp
    ultimately show ?thesis
      unfolding 2(1)[OF None] kinds_fit_insert[OF n] by (simp only: list.map snd_conv kinds_agree_Cons
          set_simps ball_simps) blast
  next
    case (Some fk)
    then have n: "kind_of kinds (kd_id d) = Some (snd fk)" by (simp add: kind_of_def)
    then have f: "kinds_fit kinds (d # map snd ds) \<longleftrightarrow> snd fk = kd_kind d \<and> kinds_fit kinds (map snd ds)"
      by (auto simp: kinds_fit_def)
    have s: "map_of kinds (kd_id d) = Some (fst fk, snd fk)" using Some by simp
    show ?thesis
    proof (cases "snd fk = kd_kind d")
      case True
      with n have "kind_of kinds (kd_id d) = Some (kd_kind d)" by simp
      note same = kinds_fit_same[OF this, of "map snd ds"]
      have "declaration_errors kinds ((b, d) # ds) = [] \<longleftrightarrow>
          def_errors d = [] \<and> declaration_errors kinds ds = []"
        using s True by simp
      with same show ?thesis
        unfolding 2(2)[OF s refl] by (simp only: list.map snd_conv kinds_agree_Cons f True
            set_simps ball_simps) blast
    next
      case False
      with s f show ?thesis by (cases fk) simp
    qed
  qed
qed

lemma set_all_defs: "set (map snd (all_defs r)) = (\<Union>(b, ds) \<in> set (kr_builtin r). set ds)"
  by (force simp: all_defs_def)

text \<open>What the declarations of one backend promise to the code that looks them up.\<close>

definition table_ok :: "knob_def list \<Rightarrow> bool" where
  "table_ok ds \<longleftrightarrow>
     distinct (map kd_id ds) \<and> distinct (map emit_flag (self_emitting ds))
     \<and> (\<forall>c. length (filter (\<lambda>d. kd_concept d = Some c) ds) \<le> 1)"

definition def_ok :: "knob_def \<Rightarrow> bool" where
  "def_ok d \<longleftrightarrow>
     id_is_wellformed (kd_id d) \<and> emit_flag d \<notin> set RESERVED_LLAMASTASH_FLAGS
     \<and> \<not> is_forbidden_head (emit_flag d)
     \<and> (\<forall>s \<in> set (ring_stops d). \<exists>v. parse_value d s = Inr v)"

lemma def_errors_none: "def_errors d = [] \<longleftrightarrow> def_ok d"
proof -
  have "List.map_filter (\<lambda>s. if (case parse_value d s of Inl _ \<Rightarrow> True | Inr _ \<Rightarrow> False)
          then Some (UnparsableRingStop (kd_id d) s) else None) ss = []
      \<longleftrightarrow> (\<forall>s \<in> set ss. \<exists>v. parse_value d s = Inr v)" for ss
    by (induction ss) (auto simp: map_filter_simps split: sum.splits)
  then show ?thesis by (auto simp: def_errors_def def_ok_def)
qed

lemma validate_iff:
  "validate r = [] \<longleftrightarrow>
     (\<forall>(b, ds) \<in> set (kr_builtin r). table_ok ds \<and> (\<forall>d \<in> set ds. def_ok d))
     \<and> kinds_agree (map snd (all_defs r))"
proof -
  have "declaration_errors [] (all_defs r) = [] \<longleftrightarrow>
      (\<forall>(b, ds) \<in> set (kr_builtin r). \<forall>d \<in> set ds. def_ok d) \<and> kinds_agree (map snd (all_defs r))"
    unfolding declaration_errors_none def_errors_none set_all_defs
    by (auto simp: kinds_fit_def kind_of_def)
  moreover have "duplicate_flags b [] ds @ duplicate_ids b [] ds @ duplicate_concepts b ds = []
      \<longleftrightarrow> table_ok ds" for b ds
    by (auto simp: duplicate_flags_none duplicate_ids_none duplicate_concepts_none table_ok_def)
  then have "concat (map (\<lambda>(b, ds). duplicate_flags b [] ds @ duplicate_ids b [] ds
        @ duplicate_concepts b ds) ts) = [] \<longleftrightarrow> (\<forall>(b, ds) \<in> set ts. table_ok ds)" for ts :: tables
    by (induction ts) auto
  ultimately show ?thesis unfolding validate_def append_is_Nil_conv by auto
qed

text \<open>
  Validation finds nothing exactly when the registry is sound: every declaration has an id
  that serves as a flag and a config key, a flag that is neither the program's own nor refused by
  the denylist, and only cycle stops its own kind accepts; one id has one kind across backends;
  and within one backend ids, emitted flags and concepts are not declared twice.
\<close>

theorem validate_iff_sound:
  "validate r = [] \<longleftrightarrow>
     (\<forall>(b, ds) \<in> set (kr_builtin r). table_ok ds \<and> (\<forall>d \<in> set ds. def_ok d))
     \<and> kinds_agree (map snd (all_defs r))"
  by (rule validate_iff)

end
