(* ===== verification/Knob_Set.thy ===== *)
theory Knob_Set
  imports Knob_Registry
begin

text \<open>
  The knobs a launch carries: \<open>KnobSet\<close> of \<open>src/launch/knobs/value.rs\<close>, with the lookups by name
  and by concept that go through the registry. The two merges are instances of one contract,
  precedence between layers.
\<close>

subsection \<open>Sets of knob values\<close>

type_synonym knob_set = "(knob_id, knob_value) fmap"

definition ks_iter :: "knob_set \<Rightarrow> (knob_id \<times> knob_value) list" where
  "ks_iter s = sorted_list_of_fmap s"

definition ks_ids :: "knob_set \<Rightarrow> knob_id list" where
  "ks_ids s = map fst (ks_iter s)"

definition ks_get :: "knob_set \<Rightarrow> knob_id \<Rightarrow> knob_value option" where
  "ks_get s i = fmlookup s i"

definition ks_set :: "knob_id \<Rightarrow> knob_value \<Rightarrow> knob_set \<Rightarrow> knob_set" where
  "ks_set i v s = fmupd i v s"

definition ks_clear :: "knob_id \<Rightarrow> knob_set \<Rightarrow> knob_value option \<times> knob_set" where
  "ks_clear i s = (fmlookup s i, fmdrop i s)"

definition ks_is_auto :: "knob_set \<Rightarrow> knob_id \<Rightarrow> bool" where
  "ks_is_auto s i \<longleftrightarrow> (case ks_get s i of Some v \<Rightarrow> is_auto v | None \<Rightarrow> False)"

definition resolve_scoped :: "knob_registry \<Rightarrow> string option \<Rightarrow> string \<Rightarrow> knob_id option" where
  "resolve_scoped r backend_id name =
     (case backend_id of Some b \<Rightarrow> resolve_id_for r b name | None \<Rightarrow> resolve_id r name)"

definition get_by_name :: "knob_registry \<Rightarrow> string option \<Rightarrow> knob_set \<Rightarrow> string \<Rightarrow> knob_value option" where
  "get_by_name r b s name = Option.bind (resolve_scoped r b name) (ks_get s)"

definition is_set_by_name :: "knob_registry \<Rightarrow> string option \<Rightarrow> knob_set \<Rightarrow> string \<Rightarrow> bool" where
  "is_set_by_name r b s name \<longleftrightarrow> (case get_by_name r b s name of Some (KSet _) \<Rightarrow> True | _ \<Rightarrow> False)"

definition set_scoped ::
  "knob_registry \<Rightarrow> string option \<Rightarrow> string \<Rightarrow> string \<Rightarrow> knob_set \<Rightarrow> bool \<times> knob_set" where
  "set_scoped r b name text s =
     (case resolve_scoped r b name of
        None \<Rightarrow> (False, s)
      | Some i \<Rightarrow>
          (case (case b of Some b' \<Rightarrow> or_else (def_for_backend r b' i) (def_for r i) | None \<Rightarrow> def_for r i) of
             None \<Rightarrow> (False, s)
           | Some d \<Rightarrow>
               (case parse_value d text of Inr v \<Rightarrow> (True, ks_set i v s) | Inl _ \<Rightarrow> (False, s))))"

definition remove_by_name ::
  "knob_registry \<Rightarrow> string option \<Rightarrow> string \<Rightarrow> knob_set \<Rightarrow> knob_value option \<times> knob_set" where
  "remove_by_name r b name s =
     (case resolve_scoped r b name of None \<Rightarrow> (None, s) | Some i \<Rightarrow> ks_clear i s)"

definition text_by_name :: "knob_registry \<Rightarrow> string option \<Rightarrow> knob_set \<Rightarrow> string \<Rightarrow> string option" where
  "text_by_name r b s name =
     Option.bind (get_by_name r b s name) (\<lambda>v. map_option to_arg (set_value v))"

definition concept_of :: "knob_registry \<Rightarrow> knob_id \<Rightarrow> concept option" where
  "concept_of r i = Option.bind (def_for r i) kd_concept"

definition by_concept :: "knob_registry \<Rightarrow> string \<Rightarrow> knob_set \<Rightarrow> concept \<Rightarrow> knob_value option" where
  "by_concept r b s c =
     or_else (Option.bind (def_for_backend_concept r b c) (\<lambda>d. ks_get s (kd_id d)))
       (map_option snd (List.find (\<lambda>(i, _). concept_of r i = Some c) (ks_iter s)))"

definition set_by_concept ::
  "knob_registry \<Rightarrow> string \<Rightarrow> concept \<Rightarrow> knob_value \<Rightarrow> knob_set \<Rightarrow> bool \<times> knob_set" where
  "set_by_concept r b c v s =
     (case def_for_backend_concept r b c of
        Some d \<Rightarrow> (True, ks_set (kd_id d) v s)
      | None \<Rightarrow> (False, s))"

definition fill_from :: "knob_set \<Rightarrow> knob_set \<Rightarrow> knob_set" where
  "fill_from s other =
     foldl (\<lambda>acc (i, v). if i |\<in>| fmdom acc then acc else fmupd i v acc) s (ks_iter other)"

definition overlay :: "knob_set \<Rightarrow> knob_set \<Rightarrow> knob_set" where
  "overlay s other = foldl (\<lambda>acc (i, v). fmupd i v acc) s (ks_iter other)"

definition retain_ids :: "(knob_id \<Rightarrow> bool) \<Rightarrow> knob_set \<Rightarrow> knob_id list \<times> knob_set" where
  "retain_ids keep s =
     (let dropped = filter (\<lambda>i. \<not> keep i) (ks_ids s)
      in (dropped, foldl (\<lambda>acc i. fmdrop i acc) s dropped))"

subsection \<open>Precedence\<close>

text \<open>A merge in which the left argument wins.\<close>

locale precedence =
  fixes look :: "'s \<Rightarrow> 'k \<Rightarrow> 'v option"
    and under :: "'s \<Rightarrow> 's \<Rightarrow> 's"
  assumes look_under: "look (under a b) k = or_else (look a k) (look b k)"
begin

lemma keeps_upper: "look a k = Some v \<Longrightarrow> look (under a b) k = Some v"
  by (simp add: look_under)

lemma fills_lower: "look a k = None \<Longrightarrow> look (under a b) k = look b k"
  by (simp add: look_under)

lemma under_assoc: "look (under (under a b) c) k = look (under a (under b c)) k"
  by (cases "look a k") (simp_all add: look_under)

lemma under_idem: "look (under a a) k = look a k"
  by (cases "look a k") (simp_all add: look_under)

lemma under_stack:
  "look (foldl under a bs) k =
     or_else (look a k) (Option.bind (List.find (\<lambda>b. look b k \<noteq> None) bs) (\<lambda>b. look b k))"
proof (induction bs arbitrary: a)
  case Nil
  then show ?case by (cases "look a k") simp_all
next
  case (Cons b bs)
  then show ?case by (cases "look a k"; cases "look b k") (simp_all add: look_under)
qed

end

lemma ks_iter_distinct: "distinct (map fst (ks_iter s))"
  by (simp add: ks_iter_def sorted_list_of_fmap_def comp_def sorted_list_of_fset.rep_eq)

lemma map_of_ks_iter [simp]: "map_of (ks_iter s) = fmlookup s"
  by (simp add: ks_iter_def)

lemma foldl_upd_lookup:
  "distinct (map fst xs) \<Longrightarrow>
   fmlookup (foldl (\<lambda>acc (i, v). fmupd i v acc) s xs) k = or_else (map_of xs k) (fmlookup s k)"
proof (induction xs arbitrary: s)
  case (Cons x xs)
  obtain i v where x: "x = (i, v)" by (cases x)
  show ?case
  proof (cases "k = i")
    case True
    with Cons.prems x have "map_of xs k = None" by (simp add: map_of_eq_None_iff)
    then show ?thesis using Cons by (simp add: x True)
  next
    case False
    then show ?thesis using Cons by (cases "map_of xs k") (simp_all add: x)
  qed
qed simp

lemma foldl_fill_lookup:
  "fmlookup (foldl (\<lambda>acc (i, v). if i |\<in>| fmdom acc then acc else fmupd i v acc) s xs) k
     = or_else (fmlookup s k) (map_of xs k)"
  by (induction xs arbitrary: s) (auto simp: or_else_def fmlookup_dom_iff split: option.splits)

interpretation filling: precedence fmlookup fill_from
  by unfold_locales (simp add: fill_from_def foldl_fill_lookup)

interpretation overriding: precedence fmlookup "\<lambda>upper lower. overlay lower upper"
  by unfold_locales (simp add: overlay_def foldl_upd_lookup ks_iter_distinct)

text \<open>
  The two merges agree: filling a set from another is overlaying the set onto that other.
  Layers filled one after the other keep, for each knob, the value of the first layer that has
  one.
\<close>

theorem fill_from_layers:
  "fill_from s other = overlay other s
   \<and> fmlookup (foldl fill_from s layers) k =
      or_else (fmlookup s k) (Option.bind (List.find (\<lambda>l. fmlookup l k \<noteq> None) layers) (\<lambda>l. fmlookup l k))"
  using filling.under_stack
  by (auto intro!: fmap_ext simp: filling.look_under overriding.look_under)

end
