(* ===== verification/Knob_Resolve.thy ===== *)
theory Knob_Resolve
  imports Knob_Set
begin

text \<open>
  The layered resolver, \<open>src/launch/knobs/resolve.rs\<close>, and the argv emitter,
  \<open>src/launch/knobs/emit.rs\<close>. Shown: which layer a resolved value comes from, that resolved values
  fit their knobs and that nothing a layer asks for is lost without a report (with the exception
  found), and that no argument emitted carries a head of the denylist.
\<close>

subsection \<open>Resolution\<close>

type_synonym layer = "layer_label \<times> knob_set"

record resolved =
  rs_knobs :: knob_set
  rs_sources :: "(knob_id, layer_label) fmap"
  rs_dropped :: "knob_id list"

definition carry_over :: "knob_registry \<Rightarrow> knob_def \<Rightarrow> knob_set \<Rightarrow> knob_value option" where
  "carry_over r d layer =
     (case kd_concept d of
        None \<Rightarrow> None
      | Some c \<Rightarrow>
          (case List.find (\<lambda>(i, _). concept_of r i = Some c) (ks_iter layer) of
             None \<Rightarrow> None
           | Some (_, KAuto) \<Rightarrow> if has_auto d then Some KAuto else None
           | Some (_, KSet s) \<Rightarrow>
               (case parse_value d (to_arg s) of Inr v \<Rightarrow> Some v | Inl _ \<Rightarrow> None)))"

text \<open>What one layer has for a knob: its own spelling, else a sibling's of the same concept.\<close>

definition layer_value :: "knob_registry \<Rightarrow> knob_def \<Rightarrow> knob_set \<Rightarrow> knob_value option" where
  "layer_value r d layer =
     or_else (case ks_get layer (kd_id d) of
                Some v \<Rightarrow> if has_auto d \<or> \<not> is_auto v then Some v else None
              | None \<Rightarrow> None)
       (carry_over r d layer)"

fun first_layer :: "knob_registry \<Rightarrow> knob_def \<Rightarrow> layer list \<Rightarrow> (layer_label \<times> knob_value) option" where
  "first_layer r d [] = None"
| "first_layer r d ((lbl, layer) # ls) =
     (case layer_value r d layer of Some v \<Rightarrow> Some (lbl, v) | None \<Rightarrow> first_layer r d ls)"

definition seed_sources :: "knob_def list \<Rightarrow> (knob_id, layer_label) fmap" where
  "seed_sources ds = foldl (\<lambda>m d. fmupd (kd_id d) (kd_fallback d) m) fmempty ds"

definition resolve_knob :: "knob_registry \<Rightarrow> layer list
    \<Rightarrow> knob_set \<times> (knob_id, layer_label) fmap \<Rightarrow> knob_def \<Rightarrow> knob_set \<times> (knob_id, layer_label) fmap" where
  "resolve_knob r layers st d =
     (case first_layer r d layers of
        Some (lbl, v) \<Rightarrow> (ks_set (kd_id d) v (fst st), fmupd (kd_id d) lbl (snd st))
      | None \<Rightarrow> st)"

definition carried :: "knob_registry \<Rightarrow> knob_def list \<Rightarrow> knob_set \<Rightarrow> knob_id \<Rightarrow> bool" where
  "carried r ds knobs i \<longleftrightarrow>
     (let c = concept_of r i
      in c \<noteq> None \<and> list_ex (\<lambda>d. kd_concept d = c \<and> kd_id d |\<in>| fmdom knobs) ds)"

definition report :: "knob_registry \<Rightarrow> string \<Rightarrow> knob_set \<Rightarrow> knob_id list \<Rightarrow> knob_id \<Rightarrow> knob_id list" where
  "report r b knobs dropped i =
     (if def_for_backend r b i = None \<and> \<not> carried r (for_backend r b) knobs i \<and> i \<notin> set dropped
      then dropped @ [i] else dropped)"

definition resolve_layered_with_disable_defaults ::
  "knob_registry \<Rightarrow> string \<Rightarrow> layer list \<Rightarrow> bool \<Rightarrow> resolved" where
  "resolve_layered_with_disable_defaults r b all_layers disable_defaults =
     (let layers = (if disable_defaults then filter (\<lambda>(l, _). l = User) all_layers else all_layers);
          ds = for_backend r b;
          (knobs, sources) = foldl (resolve_knob r layers) (fmempty, seed_sources ds) ds;
          asked = concat (map (\<lambda>(_, l). ks_ids l) layers)
      in \<lparr>rs_knobs = knobs, rs_sources = sources,
          rs_dropped = foldl (report r b knobs) [] asked\<rparr>)"

definition is_layer_less :: "knob_registry \<Rightarrow> resolved \<Rightarrow> knob_id \<Rightarrow> string \<Rightarrow> bool" where
  "is_layer_less r res i b =
     (case def_for_backend r b i of
        None \<Rightarrow> True
      | Some d \<Rightarrow> (case fmlookup (rs_sources res) i of Some src \<Rightarrow> src = kd_fallback d | None \<Rightarrow> True))"

definition real_sources :: "knob_registry \<Rightarrow> resolved \<Rightarrow> string \<Rightarrow> (knob_id, layer_label) fmap" where
  "real_sources r res b = fmfilter (\<lambda>i. \<not> is_layer_less r res i b) (rs_sources res)"

definition rescope :: "knob_registry \<Rightarrow> knob_set \<Rightarrow> string \<Rightarrow> knob_set" where
  "rescope r layer b =
     foldl (\<lambda>out d. case or_else (ks_get layer (kd_id d)) (carry_over r d layer) of
                      Some v \<Rightarrow> ks_set (kd_id d) v out
                    | None \<Rightarrow> out) fmempty (for_backend r b)"

datatype default_launch_mode = ModeAuto | ModeInherited

definition seed_knob :: "knob_registry \<Rightarrow> string \<Rightarrow> resolved \<Rightarrow> knob_def \<Rightarrow> resolved" where
  "seed_knob r b res d =
     (if is_fit_delegated d \<and> is_layer_less r res (kd_id d) b
      then res\<lparr>rs_knobs := ks_set (kd_id d) KAuto (rs_knobs res)\<rparr> else res)"

definition seed_layerless :: "knob_registry \<Rightarrow> resolved \<Rightarrow> string \<Rightarrow> default_launch_mode \<Rightarrow> resolved" where
  "seed_layerless r res b mode =
     (if mode \<noteq> ModeAuto then res else foldl (seed_knob r b) res (for_backend r b))"

subsection \<open>Emission\<close>

text \<open>Whether a value smuggles a denied head in one of its blank-separated tokens.\<close>

definition smuggles :: "string list \<Rightarrow> string \<Rightarrow> bool" where
  "smuggles extra v =
     list_ex (\<lambda>tok. starts_with (arg_head tok) ''-'' \<and> is_forbidden_head_ext (arg_head tok) extra)
       (split_whitespace v)"

definition push_flag :: "string list \<Rightarrow> string \<Rightarrow> string option \<Rightarrow> string list \<Rightarrow> string list" where
  "push_flag extra flag v out =
     (if is_forbidden_head_ext flag extra then out
      else (case v of
              Some v \<Rightarrow> if smuggles extra v then out else out @ [flag, v]
            | None \<Rightarrow> out @ [flag]))"

definition emit_knob :: "string list \<Rightarrow> knob_set \<Rightarrow> string list \<Rightarrow> knob_def \<Rightarrow> string list" where
  "emit_knob extra knobs out d =
     (case ks_get knobs (kd_id d) of
        Some (KSet s) \<Rightarrow>
          (case kd_emit d of
             Custom \<Rightarrow> out
           | BareFlagWhenTrue \<Rightarrow>
               if as_bool s = Some True then push_flag extra (emit_flag d) None out else out
           | FlagOnOff \<Rightarrow>
               (case as_bool s of
                  Some b \<Rightarrow> push_flag extra (emit_flag d) (Some (if b then ''on'' else ''off'')) out
                | None \<Rightarrow> out)
           | FlagValue \<Rightarrow>
               if to_arg s \<noteq> [] then push_flag extra (emit_flag d) (Some (to_arg s)) out else out)
      | _ \<Rightarrow> out)"

definition emit_argv :: "knob_registry \<Rightarrow> string \<Rightarrow> knob_set \<Rightarrow> string list \<Rightarrow> string list" where
  "emit_argv r b knobs extra = foldl (emit_knob extra knobs) [] (for_backend r b)"

subsection \<open>Which layer a value comes from\<close>

lemma first_layer_None: "first_layer r d ls = None \<longleftrightarrow> (\<forall>(_, l) \<in> set ls. layer_value r d l = None)"
  by (induction ls) (auto split: option.splits)

lemma first_layer_append:
  assumes "\<forall>(_, l) \<in> set pre. layer_value r d l = None"
  shows "first_layer r d (pre @ ls) = first_layer r d ls"
  using assms by (induction pre) (auto split: option.splits)

lemma first_layer_value: "first_layer r d ls = Some (lbl, v) \<Longrightarrow>
    \<exists>l. (lbl, l) \<in> set ls \<and> layer_value r d l = Some v"
  by (induction ls) (auto split: option.splits)

definition decl_of :: "knob_def list \<Rightarrow> knob_id \<Rightarrow> knob_def option" where
  "decl_of ds i = List.find (\<lambda>d. kd_id d = i) ds"

lemma decl_of_Cons: "decl_of (d # ds) i = (if kd_id d = i then Some d else decl_of ds i)"
  by (simp add: decl_of_def)

lemma decl_of_None: "decl_of ds i = None \<longleftrightarrow> i \<notin> kd_id ` set ds"
  by (auto simp: decl_of_def find_None_iff)

lemma decl_of_Some: "decl_of ds i = Some d \<Longrightarrow> d \<in> set ds \<and> kd_id d = i"
  by (auto simp: decl_of_def find_Some_iff)

lemma decl_of_member:
  assumes "distinct (map kd_id ds)" "d \<in> set ds"
  shows "decl_of ds (kd_id d) = Some d"
  using assms by (induction ds) (auto simp: decl_of_Cons image_iff)

lemma resolve_knobs_lookup:
  assumes "distinct (map kd_id ds)"
  shows "fmlookup (fst (foldl (resolve_knob r ls) (k, m) ds)) i =
      (case Option.bind (decl_of ds i) (\<lambda>d. first_layer r d ls) of
         Some (_, v) \<Rightarrow> Some v | None \<Rightarrow> fmlookup k i)
    \<and> fmlookup (snd (foldl (resolve_knob r ls) (k, m) ds)) i =
      (case Option.bind (decl_of ds i) (\<lambda>d. first_layer r d ls) of
         Some (lbl, _) \<Rightarrow> Some lbl | None \<Rightarrow> fmlookup m i)"
  using assms
proof (induction ds arbitrary: k m)
  case Nil
  then show ?case by (simp add: decl_of_def)
next
  case (Cons d ds)
  obtain k' m' where st: "resolve_knob r ls (k, m) d = (k', m')" by fastforce
  show ?case
  proof (cases "kd_id d = i")
    case True
    with Cons.prems have "decl_of ds i = None" by (auto simp: decl_of_None)
    then show ?thesis
      using Cons.IH[of k' m'] Cons.prems st True
      by (auto simp: decl_of_Cons resolve_knob_def ks_set_def split: option.splits)
  next
    case False
    then have "fmlookup k' i = fmlookup k i" "fmlookup m' i = fmlookup m i"
      using st by (auto simp: resolve_knob_def ks_set_def split: option.splits)
    then show ?thesis
      using Cons.IH[of k' m'] Cons.prems st False by (simp add: decl_of_Cons cong: option.case_cong)
  qed
qed

lemma seed_sources_lookup:
  assumes "distinct (map kd_id ds)"
  shows "fmlookup (foldl (\<lambda>m d. fmupd (kd_id d) (kd_fallback d) m) m ds) i =
    (case decl_of ds i of Some d \<Rightarrow> Some (kd_fallback d) | None \<Rightarrow> fmlookup m i)"
  using assms
proof (induction ds arbitrary: m)
  case (Cons d ds)
  then have n: "decl_of ds (kd_id d) = None" by (simp add: decl_of_None)
  from Cons n show ?case
    by (cases "kd_id d = i") (simp_all add: decl_of_Cons cong: option.case_cong)
qed (simp add: decl_of_def)

definition layers_used :: "bool \<Rightarrow> layer list \<Rightarrow> layer list" where
  "layers_used disable ls = (if disable then filter (\<lambda>(l, _). l = User) ls else ls)"

lemma resolved_lookup:
  assumes "distinct (map kd_id (for_backend r b))"
    and "res = resolve_layered_with_disable_defaults r b ls disable"
  shows "fmlookup (rs_knobs res) i =
      Option.bind (decl_of (for_backend r b) i)
        (\<lambda>d. map_option snd (first_layer r d (layers_used disable ls)))"
    and "fmlookup (rs_sources res) i =
      map_option (\<lambda>d. case first_layer r d (layers_used disable ls) of
                        Some (lbl, _) \<Rightarrow> lbl | None \<Rightarrow> kd_fallback d)
        (decl_of (for_backend r b) i)"
  using resolve_knobs_lookup[OF assms(1), of r "layers_used disable ls" fmempty
      "seed_sources (for_backend r b)" i] seed_sources_lookup[OF assms(1), of fmempty i]
  by (auto simp: assms(2) resolve_layered_with_disable_defaults_def layers_used_def[symmetric]
      seed_sources_def Let_def split: option.splits prod.splits)

text \<open>
  C10. A knob the backend declares takes the value of the first layer that has one for it, in the
  knob's own spelling or a sibling's, and is labelled with that layer; a knob no layer fills has
  no value and the label of its fallback; nothing else is in the result.
\<close>

theorem resolve_precedence:
  assumes "distinct (map kd_id (for_backend r b))"
    and "res = resolve_layered_with_disable_defaults r b ls disable"
  shows "(\<forall>d \<in> set (for_backend r b). \<forall>pre lbl l post v.
            layers_used disable ls = pre @ (lbl, l) # post \<longrightarrow>
            (\<forall>(_, l') \<in> set pre. layer_value r d l' = None) \<longrightarrow> layer_value r d l = Some v \<longrightarrow>
            fmlookup (rs_knobs res) (kd_id d) = Some v \<and> fmlookup (rs_sources res) (kd_id d) = Some lbl)
       \<and> (\<forall>d \<in> set (for_backend r b).
            (\<forall>(_, l) \<in> set (layers_used disable ls). layer_value r d l = None) \<longrightarrow>
            fmlookup (rs_knobs res) (kd_id d) = None
            \<and> fmlookup (rs_sources res) (kd_id d) = Some (kd_fallback d))
       \<and> (\<forall>i. i \<notin> kd_id ` set (for_backend r b) \<longrightarrow>
            fmlookup (rs_knobs res) i = None \<and> fmlookup (rs_sources res) i = None)"
proof (intro conjI ballI allI impI)
  note look = resolved_lookup[OF assms] and member = decl_of_member[OF assms(1)]
  fix d assume d: "d \<in> set (for_backend r b)"
  {
    fix pre lbl l post v
    assume "layers_used disable ls = pre @ (lbl, l) # post"
      and "\<forall>(_, l') \<in> set pre. layer_value r d l' = None" and "layer_value r d l = Some v"
    then have "first_layer r d (layers_used disable ls) = Some (lbl, v)"
      by (simp add: first_layer_append)
    then show "fmlookup (rs_knobs res) (kd_id d) = Some v"
      and "fmlookup (rs_sources res) (kd_id d) = Some lbl"
      using look member[OF d] by simp_all
  }
  assume "\<forall>(_, l) \<in> set (layers_used disable ls). layer_value r d l = None"
  then have "first_layer r d (layers_used disable ls) = None" by (simp only: first_layer_None)
  then show "fmlookup (rs_knobs res) (kd_id d) = None"
    and "fmlookup (rs_sources res) (kd_id d) = Some (kd_fallback d)"
    using look member[OF d] by simp_all
next
  fix i assume "i \<notin> kd_id ` set (for_backend r b)"
  then have "decl_of (for_backend r b) i = None" by (rule decl_of_None[THEN iffD2])
  then show "fmlookup (rs_knobs res) i = None" and "fmlookup (rs_sources res) i = None"
    using resolved_lookup[OF assms, of i] by simp_all
qed

subsection \<open>Resolved values fit their knobs\<close>

text \<open>A layer whose values under the backend's own spellings are of the kinds declared.\<close>

definition layer_typed :: "knob_def list \<Rightarrow> knob_set \<Rightarrow> bool" where
  "layer_typed ds l \<longleftrightarrow>
     (\<forall>d \<in> set ds. case fmlookup l (kd_id d) of Some (KSet s) \<Rightarrow> scalar_fits (kd_kind d) s | _ \<Rightarrow> True)"

lemma carry_over_fits: "carry_over r d l = Some v \<Longrightarrow> value_fits d v"
  by (auto simp: carry_over_def parse_value_typed
      split: option.splits prod.splits knob_value.splits sum.splits if_splits)

lemma layer_value_fits:
  assumes "layer_typed ds l" "d \<in> set ds" "layer_value r d l = Some v"
  shows "value_fits d v"
proof (cases "case ks_get l (kd_id d) of Some w \<Rightarrow> if has_auto d \<or> \<not> is_auto w then Some w else None
    | None \<Rightarrow> None")
  case None
  with assms(3) show ?thesis by (simp add: layer_value_def carry_over_fits)
next
  case (Some w)
  with assms(3) have "v = w" by (simp add: layer_value_def)
  with Some assms(1,2) show ?thesis
    by (cases v) (auto simp: layer_typed_def ks_get_def is_auto_def split: option.splits if_splits)
qed

text \<open>
  C20. Whatever the layers, as long as the values they hold under the backend's own ids are of the
  declared kinds: every resolved value belongs to a knob the backend declares and fits it, also
  when it was carried over from another backend's spelling of the concept.
\<close>

theorem resolve_fits:
  assumes "distinct (map kd_id (for_backend r b))"
    and "\<forall>(_, l) \<in> set ls. layer_typed (for_backend r b) l"
    and "fmlookup (rs_knobs (resolve_layered_with_disable_defaults r b ls disable)) i = Some v"
  shows "\<exists>d \<in> set (for_backend r b). kd_id d = i \<and> value_fits d v"
proof -
  from assms(3) obtain d lbl where d: "decl_of (for_backend r b) i = Some d"
    and f: "first_layer r d (layers_used disable ls) = Some (lbl, v)"
    unfolding resolved_lookup(1)[OF assms(1) refl] by (auto simp: Option.bind_eq_Some_conv)
  from first_layer_value[OF f] obtain l where "(lbl, l) \<in> set ls" "layer_value r d l = Some v"
    by (auto simp: layers_used_def split: if_splits)
  with assms(2) decl_of_Some[OF d] show ?thesis by (blast intro: layer_value_fits)
qed

subsection \<open>What is reported as dropped\<close>

definition honoured :: "knob_registry \<Rightarrow> string \<Rightarrow> knob_set \<Rightarrow> knob_id \<Rightarrow> bool" where
  "honoured r b knobs i \<longleftrightarrow> def_for_backend r b i \<noteq> None \<or> carried r (for_backend r b) knobs i"

lemma report_fold:
  "set (foldl (report r b knobs) acc is) = set acc \<union> {i \<in> set is. \<not> honoured r b knobs i}
   \<and> (distinct acc \<longrightarrow> distinct (foldl (report r b knobs) acc is))"
  by (induction "is" arbitrary: acc) (auto simp: report_def honoured_def)

lemma set_ks_ids: "set (ks_ids s) = {i. fmlookup s i \<noteq> None}"
proof -
  have "set (ks_ids s) = dom (map_of (ks_iter s))"
    unfolding dom_map_of_conv_image_fst by (simp add: ks_ids_def)
  then show ?thesis unfolding map_of_ks_iter by (simp add: dom_def)
qed

text \<open>
  The report names, once each, exactly the ids some consulted layer holds that the backend
  neither declares nor has a value for under the same concept.
\<close>

theorem dropped_report:
  "let res = resolve_layered_with_disable_defaults r b ls disable
   in distinct (rs_dropped res)
    \<and> set (rs_dropped res) = {i. (\<exists>(_, l) \<in> set (layers_used disable ls). fmlookup l i \<noteq> None)
          \<and> \<not> honoured r b (rs_knobs res) i}"
proof -
  define res where "res = resolve_layered_with_disable_defaults r b ls disable"
  have "rs_dropped res = foldl (report r b (rs_knobs res)) []
      (concat (map (\<lambda>(_, l). ks_ids l) (layers_used disable ls)))"
    by (simp add: res_def resolve_layered_with_disable_defaults_def layers_used_def Let_def
        split: prod.splits)
  then show ?thesis unfolding Let_def res_def[symmetric]
    using report_fold[of r b "rs_knobs res" "[]"] by (auto simp: set_ks_ids)
qed

text \<open>
  An auto state a layer holds for a knob of the backend that has none is lost without a
  report: with no concept to carry it, the knob stays unset and the id is not among the dropped.
\<close>

theorem auto_lost_unreported:
  assumes "distinct (map kd_id (for_backend r b))" and "d \<in> set (for_backend r b)"
    and "\<not> has_auto d" and "kd_concept d = None"
    and "res = resolve_layered_with_disable_defaults r b [(User, fmupd (kd_id d) KAuto fmempty)] False"
  shows "fmlookup (rs_knobs res) (kd_id d) = None \<and> rs_dropped res = []"
proof
  have "layer_value r d (fmupd (kd_id d) KAuto fmempty) = None"
    using assms(3,4) by (simp add: layer_value_def carry_over_def ks_get_def is_auto_def)
  then show "fmlookup (rs_knobs res) (kd_id d) = None"
    using resolved_lookup(1)[OF assms(1,5)] decl_of_member[OF assms(1,2)]
    by (simp add: layers_used_def)
  have "def_for_backend r b (kd_id d) \<noteq> None"
    using decl_of_member[OF assms(1,2)] by (simp add: def_for_backend_def decl_of_def)
  moreover have "set (ks_ids (fmupd (kd_id d) KAuto fmempty)) = {kd_id d}"
    by (auto simp: set_ks_ids)
  ultimately have "set (foldl (report r b (rs_knobs res)) [] (ks_ids (fmupd (kd_id d) KAuto fmempty))) = {}"
    using report_fold[of r b "rs_knobs res" "[]" "ks_ids (fmupd (kd_id d) KAuto fmempty)"]
    by (auto simp: honoured_def)
  then show "rs_dropped res = []"
    by (simp add: assms(5) resolve_layered_with_disable_defaults_def Let_def split: prod.splits)
qed

subsection \<open>The denylist and the emitted arguments\<close>

text \<open>What one knob emits.\<close>

definition knob_argv :: "string list \<Rightarrow> knob_set \<Rightarrow> knob_def \<Rightarrow> string list" where
  "knob_argv extra knobs d = emit_knob extra knobs [] d"

lemma push_flag_append: "push_flag extra flag v out = out @ push_flag extra flag v []"
  by (auto simp: push_flag_def split: option.splits)

lemma emit_knob_append: "emit_knob extra knobs out d = out @ knob_argv extra knobs d"
proof -
  note app = push_flag_append[of extra "emit_flag d" _ out]
  consider "ks_get knobs (kd_id d) = None" | "ks_get knobs (kd_id d) = Some KAuto"
    | s where "ks_get knobs (kd_id d) = Some (KSet s)"
    by (metis knob_value.exhaust option.exhaust)
  then show ?thesis
  proof cases
    case (3 s)
    then show ?thesis
      using app by (cases "kd_emit d"; cases "as_bool s") (simp_all add: emit_knob_def knob_argv_def)
  qed (simp_all add: emit_knob_def knob_argv_def)
qed

lemma emit_argv_concat:
  "emit_argv r b knobs extra = concat (map (knob_argv extra knobs) (for_backend r b))"
proof -
  have "foldl (emit_knob extra knobs) out ds = out @ concat (map (knob_argv extra knobs) ds)" for out ds
    by (induction ds arbitrary: out) (simp_all add: emit_knob_append)
  then show ?thesis by (simp add: emit_argv_def)
qed

text \<open>A flag that is one argument token without an inline value.\<close>

definition plain_flag :: "string \<Rightarrow> bool" where
  "plain_flag f \<longleftrightarrow> split_whitespace f = [f] \<and> CHR ''='' \<notin> set f"

text \<open>An argument in which the engine finds no denied flag, split at blanks or not.\<close>

definition arg_ok :: "string list \<Rightarrow> string \<Rightarrow> bool" where
  "arg_ok extra e \<longleftrightarrow> \<not> smuggles extra e"

definition plain_text :: "string \<Rightarrow> bool" where
  "plain_text f \<longleftrightarrow> f \<noteq> [] \<and> list_all printable f \<and> CHR ''='' \<notin> set f"

lemma plain_text_flag: "plain_text f \<Longrightarrow> plain_flag f"
  by (simp add: plain_text_def plain_flag_def split_whitespace_printable)

lemma plain_flag_ok:
  assumes "plain_flag f" "\<not> is_forbidden_head_ext f extra"
  shows "arg_ok extra f"
proof -
  have "arg_head f = f"
    using assms(1) by (auto simp: plain_flag_def arg_head_def before_def takeWhile_eq_all_conv)
  with assms show ?thesis by (simp add: arg_ok_def smuggles_def plain_flag_def)
qed

lemma push_flag_ok:
  assumes "plain_flag flag"
  shows "list_all (arg_ok extra) (push_flag extra flag v [])"
  using plain_flag_ok[OF assms] by (auto simp: push_flag_def arg_ok_def split: option.splits)

lemma knob_argv_ok:
  assumes "plain_flag (emit_flag d)"
  shows "list_all (arg_ok extra) (knob_argv extra knobs d)"
  using push_flag_ok[OF assms]
  by (simp add: knob_argv_def emit_knob_def split: option.split knob_value.split emit.split)

lemma emit_argv_safe:
  assumes "\<forall>d \<in> set (for_backend r b). plain_flag (emit_flag d)"
    and "e \<in> set (emit_argv r b knobs extra)" and "tok \<in> set (split_whitespace e)"
    and "starts_with tok ''-''"
  shows "\<not> is_forbidden_head_ext (arg_head tok) extra"
proof -
  from assms(1,2) obtain d where "plain_flag (emit_flag d)" "e \<in> set (knob_argv extra knobs d)"
    by (auto simp: emit_argv_concat)
  with knob_argv_ok have "arg_ok extra e" by (metis list_all_iff)
  moreover have "starts_with (arg_head tok) ''-''"
    using assms(4) by (cases tok) (auto simp: arg_head_def before_def)
  ultimately show ?thesis using assms(3) by (auto simp: arg_ok_def smuggles_def list_ex_iff)
qed

end
