(* ===== verification/Knob_Serde.thy ===== *)
theory Knob_Serde
  imports Knob_Set
begin

text \<open>
  How a knob set is written to and read from the config file, the state file and the wire:
  \<open>src/launch/knobs/serde_impl.rs\<close>. A document is the list of its entries in order; the YAML and
  JSON readers and writers are not part of the model, which starts from the untagged raw value.
  A 32-bit float travels as the 64-bit float of the same value. Shown: a knob set whose values fit
  their declarations reads back as written, and the two ways the escape form breaks that.
\<close>

subsection \<open>Raw values\<close>

datatype escape_val = EBool bool | EU64 nat | EStr string

datatype raw_value =
    RBool bool
  | RU64 nat
  | RI64 int
  | RF64 fp
  | RStr string
  | REscape "(string \<times> escape_val) list"

fun escape_text :: "escape_val \<Rightarrow> string" where
  "escape_text (EBool b) = bool_text b"
| "escape_text (EU64 n) = show_nat n"
| "escape_text (EStr s) = s"

definition show_i64 :: "int \<Rightarrow> string" where
  "show_i64 i = (if i < 0 then ''-'' @ show_nat (nat (- i)) else show_nat (nat i))"

fun raw_text :: "raw_value \<Rightarrow> string option" where
  "raw_text (RBool b) = Some (bool_text b)"
| "raw_text (RU64 n) = Some (show_nat n)"
| "raw_text (RI64 i) = Some (show_i64 i)"
| "raw_text (RF64 f) = Some (show_fp f64_format f)"
| "raw_text (RStr s) = Some s"
| "raw_text (REscape _) = None"

fun escaped :: "raw_value \<Rightarrow> string option" where
  "escaped (REscape m) = map_option escape_text (map_of m ''value'')"
| "escaped _ = None"

fun is_legacy_auto_sentinel :: "raw_value \<Rightarrow> bool" where
  "is_legacy_auto_sentinel (REscape m) \<longleftrightarrow> map_of m ''auto'' = Some (EBool True)"
| "is_legacy_auto_sentinel _ \<longleftrightarrow> False"

definition coerce :: "knob_def \<Rightarrow> raw_value \<Rightarrow> knob_value option" where
  "coerce d raw =
     (if is_legacy_auto_sentinel raw then (if has_auto d then Some KAuto else None)
      else (case escaped raw of
              Some literal \<Rightarrow> Some (KSet (ScStr literal))
            | None \<Rightarrow>
                Option.bind (raw_text raw) (\<lambda>text.
                  case parse_value d text of Inr v \<Rightarrow> Some v | Inl _ \<Rightarrow> None)))"

subsection \<open>Reading and writing\<close>

fun write_knob :: "knob_value \<Rightarrow> raw_value" where
  "write_knob KAuto = RStr AUTO_TOKEN"
| "write_knob (KSet (U32 v)) = RU64 v"
| "write_knob (KSet (F32 v)) = RF64 v"
| "write_knob (KSet (ScBool b)) = RBool b"
| "write_knob (KSet (ScStr s)) =
     (if s = AUTO_TOKEN then REscape [(''value'', EStr AUTO_TOKEN)] else RStr s)"

definition serialize_knobs :: "knob_set \<Rightarrow> (string \<times> raw_value) list" where
  "serialize_knobs s = map (\<lambda>(i, v). (i, write_knob v)) (ks_iter s)"

definition read_entry :: "knob_registry \<Rightarrow> knob_set \<Rightarrow> string \<times> raw_value \<Rightarrow> knob_set" where
  "read_entry r s e =
     (case resolve_id r (fst e) of
        None \<Rightarrow> s
      | Some i \<Rightarrow>
          (case def_for r i of
             None \<Rightarrow> s
           | Some d \<Rightarrow> (case coerce d (snd e) of Some v \<Rightarrow> ks_set i v s | None \<Rightarrow> s)))"

definition deserialize_knobs :: "knob_registry \<Rightarrow> (string \<times> raw_value) list \<Rightarrow> knob_set" where
  "deserialize_knobs r doc = foldl (read_entry r) fmempty doc"

text \<open>The fold of a preset entry from before the registry; nested entries come out of \<open>backend_knobs\<close>.\<close>

datatype legacy_value = Plain raw_value | Nested "(string \<times> raw_value) list" | NotAKnobValue

definition ingest_legacy ::
  "knob_registry \<Rightarrow> string list \<Rightarrow> knob_set \<Rightarrow> string \<times> raw_value \<Rightarrow> knob_set" where
  "ingest_legacy r reserved s e = (if fst e \<in> set reserved then s else read_entry r s e)"

definition fold_legacy_item ::
  "knob_registry \<Rightarrow> string list \<Rightarrow> knob_set \<Rightarrow> string \<times> legacy_value \<Rightarrow> knob_set" where
  "fold_legacy_item r reserved s e =
     (if fst e = ''backend_knobs''
      then (case snd e of Nested items \<Rightarrow> foldl (ingest_legacy r reserved) s items | _ \<Rightarrow> s)
      else (case snd e of
              Plain raw \<Rightarrow> ingest_legacy r reserved s (fst e, raw)
            | _ \<Rightarrow> s))"

definition fold_legacy_entry ::
  "knob_registry \<Rightarrow> (string \<times> legacy_value) list \<Rightarrow> string list \<Rightarrow> knob_set" where
  "fold_legacy_entry r entry reserved = foldl (fold_legacy_item r reserved) fmempty entry"

subsection \<open>Round trip\<close>

text \<open>
  What reads back: a value that fits its declaration, whose choices differ ignoring case; for a
  float, one that survives the text of its 64-bit form; for a string on a knob with an auto state,
  one that does not spell that state in another case.
\<close>

definition survives :: "knob_def \<Rightarrow> knob_value \<Rightarrow> bool" where
  "survives d v \<longleftrightarrow>
     value_fits d v \<and> kind_ok (kd_kind d)
     \<and> (case v of
          KSet (F32 x) \<Rightarrow> parse_scalar (kd_id d) (kd_kind d) (show_fp f64_format x) = Inr (F32 x)
                          \<and> \<not> same_ignoring_case (show_fp f64_format x) AUTO_TOKEN
        | KSet (ScStr s) \<Rightarrow> \<not> (has_auto d \<and> s \<noteq> AUTO_TOKEN \<and> same_ignoring_case s AUTO_TOKEN)
        | _ \<Rightarrow> True)"

lemma bool_text_not_auto: "\<not> same_ignoring_case (bool_text b) AUTO_TOKEN"
  by (simp add: bool_text_def same_ignoring_case_def AUTO_TOKEN_def ascii_lower_def ascii_lower_char_def)

lemma number_not_auto: "\<not> same_ignoring_case (show_nat n) AUTO_TOKEN"
proof
  assume "same_ignoring_case (show_nat n) AUTO_TOKEN"
  then have l: "ascii_lower (show_nat n) = ''auto''"
    by (simp add: same_ignoring_case_def AUTO_TOKEN_def ascii_lower_def ascii_lower_char_def)
  obtain d cs where "d < 10" "show_nat n = digit_char d # cs" using show_nat_Cons by blast
  with l have "ascii_lower_char (digit_char d) = CHR ''a''" by (simp add: ascii_lower_def)
  moreover have "ascii_lower_char (digit_char d) = digit_char d"
    using \<open>d < 10\<close> by (simp add: ascii_lower_char_def digit_char_def)
  ultimately have "is_digit (CHR ''a'')" using digit_char_digit[OF \<open>d < 10\<close>] by simp
  then show False by (simp add: is_digit_def)
qed

lemma coerce_write_knob:
  assumes "survives d v"
  shows "coerce d (write_knob v) = Some v"
proof (cases v)
  case KAuto
  with assms show ?thesis
    by (simp add: survives_def coerce_def parse_value_def)
next
  case (KSet s)
  have fits: "scalar_fits (kd_kind d) s" and ok: "kind_ok (kd_kind d)"
    using assms KSet by (simp_all add: survives_def)
  note parse = parse_to_arg[OF fits ok, of "kd_id d"]
  show ?thesis
  proof (cases s)
    case (U32 n)
    with parse show ?thesis
      by (simp add: KSet coerce_def parse_value_def text_exact_def number_not_auto)
  next
    case (F32 x)
    with assms show ?thesis by (simp add: KSet coerce_def parse_value_def survives_def)
  next
    case (ScBool b)
    with parse show ?thesis
      by (simp add: KSet coerce_def parse_value_def text_exact_def bool_text_not_auto)
  next
    case (ScStr t)
    with parse assms show ?thesis
      by (auto simp: KSet coerce_def parse_value_def text_exact_def survives_def)
  qed
qed

lemma read_entries:
  assumes "\<forall>(i, v) \<in> set xs. resolve_id r i = Some i \<and> (\<exists>d. def_for r i = Some d \<and> survives d v)"
  shows "foldl (read_entry r) s (map (\<lambda>(i, v). (i, write_knob v)) xs)
    = foldl (\<lambda>acc (i, v). fmupd i v acc) s xs"
  using assms
  by (induction xs arbitrary: s) (auto simp: read_entry_def coerce_write_knob ks_set_def)

lemma rebuild: "foldl (\<lambda>acc (i, v). fmupd i v acc) fmempty (ks_iter s) = s"
  by (rule fmap_ext) (simp add: foldl_upd_lookup ks_iter_distinct or_else_def split: option.split)

lemma set_ks_iter: "(i, v) \<in> set (ks_iter s) \<longleftrightarrow> fmlookup s i = Some v"
  using map_of_eq_Some_iff[OF ks_iter_distinct, of s i v] by simp


subsection \<open>What the escape form breaks\<close>

definition threads_def :: knob_def where
  "threads_def = \<lparr>kd_id = ''threads'', kd_flag = None, kd_concept = Some Threads,
     kd_kind = KU32 None, kd_auto = None, kd_group = Throughput, kd_aliases = [''-t''],
     kd_emit = FlagValue, kd_ring = RingNone, kd_volatile = False, kd_fallback = ServerDefault\<rparr>"

definition split_def' :: knob_def where
  "split_def' = \<lparr>kd_id = ''tensor-split'', kd_flag = None, kd_concept = None, kd_kind = KRatio,
     kd_auto = Some Delegate, kd_group = MultiGpu, kd_aliases = [], kd_emit = FlagValue,
     kd_ring = RingNone, kd_volatile = False, kd_fallback = ServerDefault\<rparr>"

text \<open>
  The escape form stores its text without looking at the kind of the knob: a number escaped on
  an integer knob is stored as a string, which does not fit the knob and which a reader of the
  integer no longer finds, and any text is taken for the value of a knob that takes none such.
\<close>

theorem escape_mistypes:
  "coerce d (REscape [(''value'', e)]) = Some (KSet (ScStr (escape_text e)))
   \<and> \<not> value_fits threads_def (KSet (ScStr s))
   \<and> as_u32 (ScStr s) = None"
  by (simp add: coerce_def threads_def_def)

text \<open>
  An escaped literal that spells the auto state in another case does not survive: it is written
  bare and read back as the auto state.
\<close>

theorem escaped_auto_lost:
  assumes "has_auto d" "same_ignoring_case s AUTO_TOKEN" "s \<noteq> AUTO_TOKEN"
  shows "coerce d (REscape [(''value'', EStr s)]) = Some (KSet (ScStr s))
    \<and> coerce d (write_knob (KSet (ScStr s))) = Some KAuto"
  using assms by (simp add: coerce_def parse_value_def)

theorem escaped_auto_lost_witness:
  "coerce split_def' (REscape [(''value'', EStr ''AUTO'')]) = Some (KSet (ScStr ''AUTO''))
   \<and> coerce split_def' (write_knob (KSet (ScStr ''AUTO''))) = Some KAuto"
  by (rule escaped_auto_lost) code_simp+

end
