(* ===== verification/Knob_Shipped.thy ===== *)
theory Knob_Shipped
  imports Knob_Tables Knob_Serde "HOL-Library.Code_Target_Numeral"
begin

text \<open>
  The shipped registry validates (\<open>registry_is_valid\<close> of \<open>src/launch/knobs/registry.rs\<close>), and what the
  resolver and the emitter promise on it.
\<close>

subsection \<open>The shipped declarations are sound\<close>

lemma llamacpp_defs_ok: "list_all (\<lambda>d. def_errors d = []) LLAMACPP_KNOBS"
  by code_simp

lemma vllm_defs_ok: "list_all (\<lambda>d. def_errors d = []) VLLM_KNOBS"
  by code_simp

lemma sglang_defs_ok: "list_all (\<lambda>d. def_errors d = []) SGLANG_KNOBS"
  by code_simp

definition table_errors :: "knob_def list \<Rightarrow> registry_error list" where
  "table_errors ds = duplicate_flags [] [] ds @ duplicate_ids [] [] ds @ duplicate_concepts [] ds"

lemma table_ok_errors: "table_ok ds \<longleftrightarrow> table_errors ds = []"
  by (auto simp: table_errors_def duplicate_flags_none duplicate_ids_none duplicate_concepts_none
      table_ok_def)

lemma shipped_tables_errors:
  "table_errors LLAMACPP_KNOBS = []" "table_errors VLLM_KNOBS = []" "table_errors SGLANG_KNOBS = []"
  "table_errors [] = []"
  by code_simp+

lemma shipped_kinds: "kinds_agree (LLAMACPP_KNOBS @ VLLM_KNOBS @ SGLANG_KNOBS)"
  by code_simp

lemma shipped_tables: "(b, ds) \<in> set compiled_in \<Longrightarrow> table_ok ds \<and> (\<forall>d \<in> set ds. def_ok d)"
  using llamacpp_defs_ok vllm_defs_ok sglang_defs_ok shipped_tables_errors
  by (auto simp: compiled_in_def table_ok_errors def_errors_none list_all_iff)

text \<open>
  The shipped registry validates, whatever tables are added at run time: no id, flag, ring or
  concept of the three backends' forty-two declarations breaks a rule of the registry.
\<close>

theorem shipped_validates: "validate (shipped runtime) = []"
  unfolding validate_iff shipped_defs
proof
  show "kinds_agree (LLAMACPP_KNOBS @ VLLM_KNOBS @ SGLANG_KNOBS)" by (rule shipped_kinds)
  have b: "kr_builtin (shipped runtime) = compiled_in" by (simp add: shipped_def)
  show "\<forall>(b, ds) \<in> set (kr_builtin (shipped runtime)). table_ok ds \<and> (\<forall>d \<in> set ds. def_ok d)"
    unfolding b using shipped_tables by blast
qed

theorem validate_iff_sound_witness:
  "validate (shipped []) = [] \<and> kinds_agree (map snd (all_defs (shipped [])))"
  using validate_iff_sound[of "shipped []"] shipped_validates[of "[]"] by simp

lemma shipped_distinct:
  assumes "b \<in> fst ` set compiled_in"
  shows "distinct (map kd_id (for_backend (shipped runtime) b))"
  using shipped_tables[OF shipped_for_backend[OF assms]] by (simp add: table_ok_def)

lemma llamacpp_plain: "list_all (\<lambda>d. plain_text (emit_flag d)) LLAMACPP_KNOBS"
  by code_simp

lemma vllm_plain: "list_all (\<lambda>d. plain_text (emit_flag d)) VLLM_KNOBS"
  by code_simp

lemma sglang_plain: "list_all (\<lambda>d. plain_text (emit_flag d)) SGLANG_KNOBS"
  by code_simp

lemma shipped_plain:
  assumes "b \<in> fst ` set compiled_in"
  shows "\<forall>d \<in> set (for_backend (shipped runtime) b). plain_flag (emit_flag d)"
  using shipped_for_backend[OF assms, of runtime] llamacpp_plain vllm_plain sglang_plain plain_text_flag
  by (auto simp: compiled_in_def list_all_iff)

subsection \<open>Emission on the shipped registry\<close>

text \<open>
  C9. Whatever values a launch carries, no argument the knobs of a shipped backend emit has a head of
  the denylist, and none holds one in a blank-separated token: neither the binding nor the port nor
  the credentials, which are those heads, can be changed through a knob. Flags the launch sets itself
  that are not on the denylist are outside this statement.
\<close>

theorem shipped_emit_safe:
  assumes "b \<in> fst ` set compiled_in" and "e \<in> set (emit_argv (shipped runtime) b knobs extra)"
    and "tok \<in> set (split_whitespace e)" and "starts_with tok ''-''"
  shows "\<not> is_forbidden_head_ext (arg_head tok) extra"
  using emit_argv_safe[OF shipped_plain[OF assms(1)] assms(2-4)] .

definition sample_knobs :: knob_set where
  "sample_knobs = fmap_of_list
     [(''threads'', KSet (U32 8)), (''flash-attn'', KSet (ScBool True)),
      (''device'', KSet (ScStr ''Vulkan0'')), (''n-gpu-layers'', KAuto)]"

lemma sample_argv: "emit_argv (shipped []) ''llamacpp'' sample_knobs []
    = [''--threads'', ''8'', ''--flash-attn'', ''on'']"
  by code_simp

theorem shipped_emit_safe_witness: "\<not> is_forbidden_head_ext ''--threads'' []"
proof -
  have "split_whitespace ''--threads'' = [''--threads'']"
    by (rule split_whitespace_printable) (simp_all, code_simp)
  moreover have "''llamacpp'' \<in> fst ` set compiled_in" by (simp add: compiled_in_def)
  ultimately have "\<not> is_forbidden_head_ext (arg_head ''--threads'') []"
    by (intro shipped_emit_safe[of "''llamacpp''" "''--threads''" "[]" sample_knobs "[]"])
      (simp_all add: sample_argv)
  then show ?thesis by (simp add: arg_head_def before_def)
qed

subsection \<open>The resolver on the shipped registry\<close>

definition sample_layers :: "layer list" where
  "sample_layers =
     [(User, fmap_of_list [(''threads'', KSet (U32 8))]),
      (LastUsed, fmap_of_list [(''threads'', KSet (U32 4)), (''max-model-len'', KSet (U32 4096)),
         (''enforce-eager'', KSet (ScBool True))])]"

definition sample_resolved :: resolved where
  "sample_resolved = resolve_layered_with_disable_defaults (shipped []) ''llamacpp'' sample_layers False"

lemma sample_ctx:
  "fmlookup (rs_knobs sample_resolved) ''ctx-size'' = Some (KSet (U32 4096))"
  "rs_dropped sample_resolved = [''enforce-eager'']"
  by code_simp+

lemma llamacpp_compiled: "''llamacpp'' \<in> fst ` set compiled_in"
  by (simp add: compiled_in_def)

theorem resolve_fits_witness:
  "\<exists>d \<in> set (for_backend (shipped []) ''llamacpp''). kd_id d = ''ctx-size'' \<and> value_fits d (KSet (U32 4096))"
proof (rule resolve_fits[OF shipped_distinct[OF llamacpp_compiled]])
  show "\<forall>(_, l) \<in> set sample_layers. layer_typed (for_backend (shipped []) ''llamacpp'') l"
    by code_simp
  show "fmlookup (rs_knobs (resolve_layered_with_disable_defaults (shipped []) ''llamacpp''
      sample_layers False)) ''ctx-size'' = Some (KSet (U32 4096))"
    using sample_ctx(1) by (simp only: sample_resolved_def)
qed

lemma sample_layer_values:
  "decl_of LLAMACPP_KNOBS ''threads'' \<noteq> None"
  "layer_value (shipped []) (the (decl_of LLAMACPP_KNOBS ''threads'')) (snd (hd sample_layers))
     = Some (KSet (U32 8))"
  by code_simp+

theorem resolve_precedence_witness:
  "fmlookup (rs_knobs sample_resolved) ''threads'' = Some (KSet (U32 8))
   \<and> fmlookup (rs_sources sample_resolved) ''threads'' = Some User"
proof -
  obtain d where d: "decl_of LLAMACPP_KNOBS ''threads'' = Some d"
    using sample_layer_values(1) by blast
  have ds: "for_backend (shipped []) ''llamacpp'' = LLAMACPP_KNOBS"
    by (simp add: for_backend_def builtin_of_def shipped_def compiled_in_def)
  have "layers_used False sample_layers = [] @ (User, snd (hd sample_layers)) # tl sample_layers"
    by (simp add: layers_used_def sample_layers_def)
  moreover have "layer_value (shipped []) d (snd (hd sample_layers)) = Some (KSet (U32 8))"
    using sample_layer_values(2) d by simp
  ultimately show ?thesis
    using resolve_precedence[OF shipped_distinct[OF llamacpp_compiled, of "[]"] refl,
        where ls = sample_layers and disable = False]
      decl_of_Some[OF d]
    unfolding ds sample_resolved_def by fastforce
qed

theorem auto_lost_unreported_witness:
  "\<exists>d \<in> set (for_backend (shipped []) ''llamacpp''). kd_id d = ''metrics''
     \<and> rs_dropped (resolve_layered_with_disable_defaults (shipped []) ''llamacpp''
           [(User, fmupd ''metrics'' KAuto fmempty)] False) = []"
proof -
  have "\<exists>d \<in> set LLAMACPP_KNOBS. kd_id d = ''metrics'' \<and> \<not> has_auto d \<and> kd_concept d = None"
    by code_simp
  moreover have ds: "for_backend (shipped []) ''llamacpp'' = LLAMACPP_KNOBS"
    by (simp add: for_backend_def builtin_of_def shipped_def compiled_in_def)
  ultimately obtain d where "d \<in> set (for_backend (shipped []) ''llamacpp'')"
    "kd_id d = ''metrics''" "\<not> has_auto d" "kd_concept d = None" by auto
  with auto_lost_unreported[OF shipped_distinct[OF llamacpp_compiled] this(1,3,4) refl]
  show ?thesis by auto
qed

definition sample_survives :: "knob_registry \<Rightarrow> knob_set \<Rightarrow> bool" where
  "sample_survives r s = list_all (\<lambda>(i, v). resolve_id r i = Some i \<and>
     (case def_for r i of Some d \<Rightarrow> survives d v | None \<Rightarrow> False)) (ks_iter s)"

lemma sample_survives_ok: "sample_survives (shipped []) sample_knobs"
  by code_simp


end
