(* ===== verification/Http_Path.thy ===== *)
theory Http_Path
  imports Text
begin

text \<open>
  The path shapes the routing decisions and the config that feeds them share:
  \<open>src/util/http_path.rs\<close>. Shown: a resolved path holds no dot segment under any spelling, resolving
  is idempotent, and a path resolves to what following it down from the root gives.
\<close>

text \<open>\<open>str::replace\<close>: the occurrences from the left, without overlap.\<close>

fun replace_str :: "string \<Rightarrow> string \<Rightarrow> nat \<Rightarrow> string \<Rightarrow> string" where
  "replace_str pat rep skip [] = []"
| "replace_str pat rep (Suc skip) (c # cs) = replace_str pat rep skip cs"
| "replace_str pat rep 0 (c # cs) =
     (if starts_with (c # cs) pat then rep @ replace_str pat rep (length pat - 1) cs
      else c # replace_str pat rep 0 cs)"

definition decoded_segment :: "string \<Rightarrow> string" where
  "decoded_segment segment = replace_str ''%2E'' ''.'' 0 (replace_str ''%2e'' ''.'' 0 segment)"

definition is_dot_segment :: "string \<Rightarrow> bool" where
  "is_dot_segment segment \<longleftrightarrow> decoded_segment segment = ''.'' \<or> decoded_segment segment = ''..''"

record resolved_path =
  rp_matched :: string
  rp_forwarded :: string

abbreviation backslash :: char where
  "backslash \<equiv> CHR 0x5C"

text \<open>\<open>split(['/', '\\'])\<close>.\<close>

definition segments :: "string \<Rightarrow> string list" where
  "segments path = split_on (CHR ''/'') (replace_char backslash (CHR ''/'') path)"

text \<open>\<open>kept\<close> is a stack; the model has its top at the head.\<close>

fun keep_segments :: "string list \<Rightarrow> string list \<Rightarrow> string list option" where
  "keep_segments kept [] = Some kept"
| "keep_segments kept (s # ss) =
     (if s = [] then keep_segments kept ss
      else if is_dot_segment s
      then (if decoded_segment s = ''..''
            then (case kept of [] \<Rightarrow> None | _ # below \<Rightarrow> keep_segments below ss)
            else keep_segments kept ss)
      else keep_segments (s # kept) ss)"

definition resolve_path :: "string \<Rightarrow> resolved_path option" where
  "resolve_path path =
     (case keep_segments [] (segments path) of
        None \<Rightarrow> None
      | Some kept \<Rightarrow>
          if kept = [] then None
          else (let matched = ''/'' @ join ''/'' (rev kept)
                in Some \<lparr>rp_matched = matched,
                         rp_forwarded = (if ends_with path ''/'' \<or> ends_with path [backslash]
                                         then matched @ ''/'' else matched)\<rparr>))"

definition normalize_path :: "string \<Rightarrow> string option" where
  "normalize_path path = map_option rp_matched (resolve_path path)"

subsection \<open>Following a path\<close>

text \<open>
  The meaning of the segments of a path on a position below the root, which is a list of names
  from the top: empty and dot segments stay, a parent segment goes up, and cannot go up from the
  root.
\<close>

fun follow :: "string list \<Rightarrow> string list \<Rightarrow> string list option" where
  "follow pos [] = Some pos"
| "follow pos (s # ss) =
     (if s = [] \<or> decoded_segment s = ''.'' then follow pos ss
      else if decoded_segment s = ''..'' then (if pos = [] then None else follow (butlast pos) ss)
      else follow (pos @ [s]) ss)"

lemma keep_follow: "map_option rev (keep_segments kept ss) = follow (rev kept) ss"
  by (induction kept ss rule: keep_segments.induct)
    (auto simp: is_dot_segment_def split: list.splits)

definition ordinary :: "string \<Rightarrow> bool" where
  "ordinary s \<longleftrightarrow> s \<noteq> [] \<and> \<not> is_dot_segment s \<and> CHR ''/'' \<notin> set s \<and> backslash \<notin> set s"

lemma split_on_no_sep: "p \<in> set (split_on d s) \<Longrightarrow> d \<notin> set p"
proof (induction s arbitrary: p)
  case (Cons c s)
  then show ?case by (cases "split_on d s") (auto split: if_splits)
qed simp

lemma split_on_subset: "p \<in> set (split_on d s) \<Longrightarrow> set p \<subseteq> set s"
proof (induction s arbitrary: p)
  case (Cons c s)
  obtain q qs where q: "split_on d s = q # qs" by (cases "split_on d s") auto
  with Cons.prems consider "p = []" | "p = c # q" | "p \<in> set (q # qs)" by (auto split: if_splits)
  then show ?case using Cons.IH[of q] Cons.IH[of p] q by cases auto
qed simp

lemma segments_plain:
  assumes "s \<in> set (segments path)"
  shows "CHR ''/'' \<notin> set s" "backslash \<notin> set s"
proof -
  show "CHR ''/'' \<notin> set s" using assms split_on_no_sep by (simp add: segments_def)
  have "backslash \<notin> set (replace_char backslash (CHR ''/'') path)"
    by (auto simp: replace_char_def)
  then show "backslash \<notin> set s" using split_on_subset assms by (auto simp: segments_def)
qed

lemma keep_ordinary:
  assumes "keep_segments kept ss = Some k" "list_all ordinary kept"
    and "\<forall>s \<in> set ss. CHR ''/'' \<notin> set s \<and> backslash \<notin> set s"
  shows "list_all ordinary k"
  using assms
  by (induction kept ss rule: keep_segments.induct)
    (auto simp: ordinary_def split: if_splits list.splits)

lemma resolve_parts:
  assumes "resolve_path path = Some r"
  obtains kept where "kept \<noteq> []" "list_all ordinary kept" "follow [] (segments path) = Some kept"
    "rp_matched r = ''/'' @ join ''/'' kept"
    "rp_forwarded r = rp_matched r \<or> rp_forwarded r = rp_matched r @ ''/''"
proof -
  obtain k where k: "keep_segments [] (segments path) = Some k" "k \<noteq> []"
    and r: "rp_matched r = ''/'' @ join ''/'' (rev k)"
      "rp_forwarded r = rp_matched r \<or> rp_forwarded r = rp_matched r @ ''/''"
    using assms by (auto simp: resolve_path_def Let_def split: option.splits if_splits)
  have "list_all ordinary k" using keep_ordinary[OF k(1)] segments_plain by auto
  moreover have "follow [] (segments path) = Some (rev k)"
    using keep_follow[of "[]" "segments path"] k(1) by simp
  ultimately show ?thesis using that[of "rev k"] k(2) r by simp
qed

lemma replace_char_id: "a \<notin> set s \<Longrightarrow> replace_char a b s = s"
  by (auto simp: replace_char_def intro: map_idI)

lemma join_set: "set (join sep ps) \<subseteq> set sep \<union> \<Union> (set ` set ps)"
  by (induction sep ps rule: join.induct) auto

lemma segments_join:
  assumes "kept \<noteq> []" "list_all ordinary kept"
  shows "segments (''/'' @ join ''/'' kept) = [] # kept"
    and "segments (''/'' @ join ''/'' kept @ ''/'') = [] # kept @ [[]]"
proof -
  have o: "\<forall>p \<in> set kept. CHR ''/'' \<notin> set p \<and> backslash \<notin> set p"
    using assms(2) by (simp add: list_all_iff ordinary_def)
  have n: "backslash \<notin> set (join ''/'' kept)" using join_set[of "''/''" kept] o by auto
  have s: "split_on (CHR ''/'') (join ''/'' kept) = kept"
    using split_on_join[OF assms(1), of "CHR ''/''"] o by simp
  show "segments (''/'' @ join ''/'' kept) = [] # kept"
    using n s by (simp add: segments_def replace_char_id)
  have "join ''/'' (kept @ [[]]) = join ''/'' kept @ ''/''"
    using assms(1) by (induction "''/''" kept rule: join.induct) auto
  then have "split_on (CHR ''/'') (join ''/'' kept @ ''/'') = kept @ [[]]"
    using split_on_join[of "kept @ [[]]" "CHR ''/''"] o by simp
  then show "segments (''/'' @ join ''/'' kept @ ''/'') = [] # kept @ [[]]"
    using n by (simp add: segments_def replace_char_id)
qed

lemma keep_all: "list_all ordinary ss \<Longrightarrow> keep_segments kept (ss @ rest) = keep_segments (rev ss @ kept) rest"
  by (induction ss arbitrary: kept) (auto simp: ordinary_def)

text \<open>
  C23. A path resolves exactly when following its segments from the root stays inside and ends
  below the root, to the place it ends at; every segment of the result is an ordinary name, so it
  holds no dot segment in any spelling, and resolving the matching form or the forwarded form
  again changes nothing.
\<close>

theorem resolve_path_follows:
  "normalize_path path =
     (case follow [] (segments path) of
        Some pos \<Rightarrow> if pos = [] then None else Some (''/'' @ join ''/'' pos)
      | None \<Rightarrow> None)
   \<and> (\<forall>r. resolve_path path = Some r \<longrightarrow>
        list_all ordinary (tl (segments (rp_matched r)))
        \<and> normalize_path (rp_matched r) = Some (rp_matched r)
        \<and> resolve_path (rp_forwarded r) = Some r)"
proof (intro conjI allI impI)
  show "normalize_path path =
     (case follow [] (segments path) of
        Some pos \<Rightarrow> if pos = [] then None else Some (''/'' @ join ''/'' pos)
      | None \<Rightarrow> None)"
    using keep_follow[of "[]" "segments path", symmetric]
    by (cases "keep_segments [] (segments path)")
      (simp_all add: normalize_path_def resolve_path_def Let_def)
next
  fix r assume "resolve_path path = Some r"
  then obtain kept where k: "kept \<noteq> []" "list_all ordinary kept"
    and m: "rp_matched r = ''/'' @ join ''/'' kept"
    and f: "rp_forwarded r = rp_matched r \<or> rp_forwarded r = rp_matched r @ ''/''"
    by (rule resolve_parts) blast
  note seg = segments_join[OF k]
  show "list_all ordinary (tl (segments (rp_matched r)))" unfolding m seg(1) using k(2) by simp
  have keep: "keep_segments [] (segments (rp_matched r)) = Some (rev kept)"
    "keep_segments [] (segments (rp_matched r @ ''/'')) = Some (rev kept)"
    unfolding m append_assoc seg using keep_all[OF k(2), of "[]" "[]"] keep_all[OF k(2), of "[]" "[[]]"]
    by simp_all
  show "normalize_path (rp_matched r) = Some (rp_matched r)"
    using keep(1) k(1) by (simp add: normalize_path_def resolve_path_def Let_def m)
  have "join ''/'' kept \<noteq> [] \<and> last (join ''/'' kept) \<noteq> CHR ''/'' \<and> last (join ''/'' kept) \<noteq> backslash"
    using k by (induction "''/''" kept rule: join.induct) (auto simp: ordinary_def dest: last_in_set)
  then have "last (rp_matched r) \<noteq> CHR ''/''" "last (rp_matched r) \<noteq> backslash" by (auto simp: m)
  then have ends: "\<not> ends_with (rp_matched r) ''/''" "\<not> ends_with (rp_matched r) [backslash]"
    by (auto simp: ends_with_iff)
  have slash: "ends_with (rp_matched r @ ''/'') ''/''" by (simp add: ends_with_iff)
  from f show "resolve_path (rp_forwarded r) = Some r"
  proof
    assume eq: "rp_forwarded r = rp_matched r"
    then have "r = \<lparr>rp_matched = rp_matched r, rp_forwarded = rp_matched r\<rparr>" by simp
    then show ?thesis using keep(1) k(1) ends unfolding eq by (simp add: resolve_path_def Let_def m)
  next
    assume eq: "rp_forwarded r = rp_matched r @ ''/''"
    then have "r = \<lparr>rp_matched = rp_matched r, rp_forwarded = rp_matched r @ ''/''\<rparr>" by simp
    then show ?thesis using keep(2) k(1) slash unfolding eq by (simp add: resolve_path_def Let_def m)
  qed
qed

theorem resolve_path_follows_witness:
  "resolve_path ''/b/'' = Some \<lparr>rp_matched = ''/b'', rp_forwarded = ''/b/''\<rparr>"
proof -
  have "resolve_path ''/a/.%2E//b/'' = Some \<lparr>rp_matched = ''/b'', rp_forwarded = ''/b/''\<rparr>"
    by code_simp
  with resolve_path_follows[of "''/a/.%2E//b/''"] show ?thesis by fastforce
qed

end
