(* ===== verification/Generic_Config.thy ===== *)
theory Generic_Config
  imports Knob_Set Http_Path "HOL-Library.Sublist"
begin

text \<open>
  The servers a user declares in \<open>config.yaml\<close>: \<open>src/backend/generic/config.rs\<close>, \<open>argv.rs\<close> and
  \<open>knobs.rs\<close>. The fields of an entry no operation here reads (grace periods, modes, the rewriting of
  the model name) are left out. An error is a value that names the entry and the rule; a path is
  its string. Home expansion is a parameter.
\<close>

subsection \<open>Entries\<close>

record knob_spec =
  sp_flag :: string
  sp_id :: "string option"
  sp_default :: "string option"
  sp_ctx :: bool
  sp_switch :: bool

datatype knob_decl = DeclFlag string | DeclFull knob_spec

fun decl_spec :: "knob_decl \<Rightarrow> knob_spec" where
  "decl_spec (DeclFlag f) =
     \<lparr>sp_flag = f, sp_id = None, sp_default = None, sp_ctx = False, sp_switch = False\<rparr>"
| "decl_spec (DeclFull s) = s"

definition strip_dashes :: "string \<Rightarrow> string" where
  "strip_dashes s = dropWhile (\<lambda>c. c = CHR ''-'') s"

definition spec_id :: "knob_spec \<Rightarrow> string" where
  "spec_id s = (case sp_id s of Some i \<Rightarrow> trim i | None \<Rightarrow> strip_dashes (trim (sp_flag s)))"

datatype row_filter = WhenPath string | WhenMatch string "string option" "string option"

record rows_from =
  rf_command :: "string list"
  rf_items :: "string option"
  rf_name :: string
  rf_when :: "row_filter option"
  rf_arch :: "string option"
  rf_params :: "string option"
  rf_quant :: "string option"
  rf_ctx :: "string option"
  rf_memory_gib :: "string option"

record generic_server =
  gs_name :: string
  gs_binary :: string
  gs_model :: "string option"
  gs_ready :: "string option"
  gs_args :: "string list"
  gs_knobs :: "knob_decl list"
  gs_env :: "(string \<times> string) list"
  gs_memory_gib :: "fp option"
  gs_routes :: "string list"
  gs_arch :: "string option"
  gs_params :: "string option"
  gs_quant :: "string option"
  gs_ctx :: "nat option"
  gs_vision :: bool
  gs_reasoning_effort :: "string list"
  gs_reasoning_effort_default :: "string option"
  gs_rows_from :: "rows_from option"

definition BUILTIN_PLACEHOLDERS :: "string list" where
  "BUILTIN_PLACEHOLDERS = [''port'', ''host'', ''name'', ''model'']"

subsection \<open>Placeholders\<close>

definition is_placeholder_ident :: "string \<Rightarrow> bool" where
  "is_placeholder_ident s \<longleftrightarrow>
     s \<noteq> [] \<and> list_all (\<lambda>c. is_alnum c \<or> c = CHR ''-'' \<or> c = CHR ''_'') s"

text \<open>What follows an opening brace: a placeholder and the rest, or literal text.\<close>

definition take_ident :: "string \<Rightarrow> (string \<times> string) option" where
  "take_ident after =
     (case split_once (CHR ''}'') after of
        Some (key, rest) \<Rightarrow> if is_placeholder_ident key then Some (key, rest) else None
      | None \<Rightarrow> None)"

lemma split_once_shorter: "split_once d s = Some (a, b) \<Longrightarrow> length b < length s"
  by (auto simp: split_once_Some)

lemma take_ident_shorter: "take_ident s = Some (k, r) \<Longrightarrow> length r < length s"
  by (auto simp: take_ident_def split_once_shorter split: option.splits if_splits)

lemma take_ident_after:
  "split_once d s = Some (a, b) \<Longrightarrow> take_ident b = Some (k, r) \<Longrightarrow> length r < length s"
  using split_once_shorter take_ident_shorter by fastforce

function placeholders_in :: "string \<Rightarrow> string list" where
  "placeholders_in s =
     (case split_once (CHR ''{'') s of
        None \<Rightarrow> []
      | Some (_, after) \<Rightarrow>
          (case take_ident after of
             Some (key, rest) \<Rightarrow> key # placeholders_in rest
           | None \<Rightarrow> placeholders_in after))"
  by pat_completeness auto
termination
  by (relation "measure length") (auto dest: split_once_shorter take_ident_after)

function substitute :: "(string \<Rightarrow> string option) \<Rightarrow> string \<Rightarrow> string" where
  "substitute look s =
     (case split_once (CHR ''{'') s of
        None \<Rightarrow> s
      | Some (pre, after) \<Rightarrow>
          pre @
          (case take_ident after of
             Some (key, rest) \<Rightarrow>
               (case look key of Some v \<Rightarrow> v | None \<Rightarrow> ''{'' @ key @ ''}'') @ substitute look rest
           | None \<Rightarrow> ''{'' @ substitute look after))"
  by pat_completeness auto
termination
  by (relation "measure (\<lambda>(_, s). length s)") (auto dest: split_once_shorter take_ident_after)

declare placeholders_in.simps [simp del] substitute.simps [simp del]

definition placeholders :: "generic_server \<Rightarrow> string list" where
  "placeholders s = concat (map placeholders_in (gs_args s @ map snd (gs_env s)))"

subsection \<open>Routes\<close>

definition under_prefix :: "string \<Rightarrow> string \<Rightarrow> bool" where
  "under_prefix req p \<longleftrightarrow> req = p \<or> starts_with req (p @ ''/'')"

definition prefixes_clash :: "string \<Rightarrow> string \<Rightarrow> bool" where
  "prefixes_clash a b \<longleftrightarrow> a = b \<or> starts_with a (b @ ''/'') \<or> starts_with b (a @ ''/'')"

text \<open>\<open>max_by_key\<close> keeps the last of the longest.\<close>

definition longest :: "string list \<Rightarrow> string option" where
  "longest ps =
     foldl (\<lambda>best p. case best of
              Some q \<Rightarrow> if length q \<le> length p then Some p else Some q | None \<Rightarrow> Some p) None ps"

definition declared_prefix :: "generic_server \<Rightarrow> string \<Rightarrow> string option" where
  "declared_prefix s request_path =
     (case normalize_path request_path of
        None \<Rightarrow> None
      | Some req \<Rightarrow> longest (filter (under_prefix req) (List.map_filter normalize_path (gs_routes s))))"

datatype config_error =
    RouteNotAbsolute string string
  | RouteNotPlain string string
  | RouteDotSegment string string
  | RouteIsRoot string
  | RouteOwnedByProxy string string string
  | RouteOwnedByEntry string string string string
  | BadName string
  | DuplicateName string
  | RelativeBinary string string
  | BadReady string string
  | MissingReady string
  | BadMemory string
  | FieldWithModel string string
  | BadCommand string
  | EmptyField string string
  | BadWhen string
  | BadLevel string string
  | BadDefaultLevel string string
  | EmptyModel string
  | ModelUnused string
  | ModelMissing string
  | BadKnobId string string
  | EmptyFlag string string
  | RefusedFlag string string
  | TakenId string string
  | ReservedId string string
  | DuplicateKnobId string string
  | CtxAndSwitch string string
  | BadSwitchDefault string string
  | BadCtxDefault string string
  | CtxConflict string string string
  | TwoCtxKnobs string
  | UnknownPlaceholder string string
  | UnfilledKnob string string

text \<open>The checks of a block in order: the first that fails is the error.\<close>

fun checks :: "(bool \<times> 'e) list \<Rightarrow> ('e, unit) result" where
  "checks [] = Inr ()"
| "checks ((bad, e) # cs) = (if bad then Inl e else checks cs)"

definition check_route ::
  "string list \<Rightarrow> string \<Rightarrow> (string \<times> string) list \<Rightarrow> string
    \<Rightarrow> (config_error, (string \<times> string) list) result" where
  "check_route owned name declared p =
     try_then
       (checks
         [(p = [] \<or> \<not> starts_with p ''/'', RouteNotAbsolute name p),
          (CHR ''?'' \<in> set p \<or> CHR ''#'' \<in> set p \<or> CHR ''*'' \<in> set p, RouteNotPlain name p),
          (list_ex is_dot_segment (segments p), RouteDotSegment name p)])
       (\<lambda>_. case normalize_path p of
          None \<Rightarrow> Inl (RouteIsRoot name)
        | Some canon \<Rightarrow>
            (case List.find (prefixes_clash canon) owned of
               Some clash \<Rightarrow> Inl (RouteOwnedByProxy name p clash)
             | None \<Rightarrow>
                 (case List.find (\<lambda>(prev, owner). owner \<noteq> name \<and> prefixes_clash canon prev) declared of
                    Some (prev, owner) \<Rightarrow> Inl (RouteOwnedByEntry name p owner prev)
                  | None \<Rightarrow> Inr (declared @ [(canon, name)]))))"

fun check_all_routes ::
  "string list \<Rightarrow> (string \<times> string) list \<Rightarrow> (string \<times> string) list
    \<Rightarrow> (config_error, (string \<times> string) list) result" where
  "check_all_routes owned declared [] = Inr declared"
| "check_all_routes owned declared ((name, p) # rs) =
     try_then (check_route owned name declared p) (\<lambda>d. check_all_routes owned d rs)"

text \<open>The two nested loops of the code visit the routes of the entries in order.\<close>

definition validate_routes :: "generic_server list \<Rightarrow> string list \<Rightarrow> (config_error, unit) result" where
  "validate_routes servers owned =
     try_then
       (check_all_routes owned [] (concat (map (\<lambda>s. map (Pair (gs_name s)) (gs_routes s)) servers)))
       (\<lambda>_. Inr ())"

subsection \<open>One path has one owner\<close>

lemma checks_ok: "checks cs = Inr u \<longleftrightarrow> list_all (\<lambda>(bad, _). \<not> bad) cs"
  by (induction cs rule: checks.induct) auto

lemma under_prefix_prefix: "under_prefix req p \<Longrightarrow> prefix p req"
  by (auto simp: under_prefix_def starts_with_iff prefix_def)

lemma under_both_clash:
  assumes "under_prefix req p" "under_prefix req q"
  shows "prefixes_clash p q"
proof -
  have pre: "prefix p req" "prefix q req"
    using assms by (simp_all only: under_prefix_prefix)
  have cover: "prefixes_clash a b"
    if t: "under_prefix req a" "under_prefix req b" "prefix a b" for a b
  proof (cases "a = b")
    case False
    obtain zs where zs: "b = a @ zs" using t(3) by (rule prefixE)
    with False obtain c cs where b: "b = a @ c # cs" by (cases zs) auto
    moreover have "req = b \<or> (\<exists>r. req = b @ ''/'' @ r)"
      using t(2) by (auto simp: under_prefix_def starts_with_iff)
    moreover have "req = a \<or> (\<exists>r. req = a @ ''/'' @ r)"
      using t(1) by (auto simp: under_prefix_def starts_with_iff)
    ultimately have "c = CHR ''/''" by auto
    then show ?thesis by (auto simp: prefixes_clash_def starts_with_iff b)
  qed (simp add: prefixes_clash_def)
  have "prefix p q \<or> prefix q p" using pre prefix_same_cases by blast
  then show ?thesis using cover[OF assms] cover[OF assms(2,1)] by (auto simp: prefixes_clash_def)
qed

definition routes_apart :: "string list \<Rightarrow> (string \<times> string) list \<Rightarrow> bool" where
  "routes_apart owned declared \<longleftrightarrow>
     (\<forall>(p, n) \<in> set declared. (\<forall>r \<in> set owned. \<not> prefixes_clash p r)
        \<and> (\<forall>(q, m) \<in> set declared. m \<noteq> n \<longrightarrow> \<not> prefixes_clash p q))"

lemma clash_sym: "prefixes_clash a b \<longleftrightarrow> prefixes_clash b a"
  by (auto simp: prefixes_clash_def)

lemma check_route_step:
  assumes "check_route owned name declared p = Inr declared'" "routes_apart owned declared"
  shows "routes_apart owned declared'"
    and "\<exists>canon. normalize_path p = Some canon \<and> declared' = declared @ [(canon, name)]"
proof -
  obtain canon where canon: "normalize_path p = Some canon" and d: "declared' = declared @ [(canon, name)]"
    and o: "\<forall>r \<in> set owned. \<not> prefixes_clash canon r"
    and e: "\<forall>(q, m) \<in> set declared. m \<noteq> name \<longrightarrow> \<not> prefixes_clash canon q"
    using assms(1)
    by (auto simp: check_route_def try_then_eq_Inr find_None_iff split: option.splits prod.splits)
  show "routes_apart owned declared'"
    using assms(2) o e unfolding routes_apart_def d by (fastforce simp: clash_sym)
  show "\<exists>canon. normalize_path p = Some canon \<and> declared' = declared @ [(canon, name)]"
    using canon d by blast
qed

lemma check_all_routes_ok:
  assumes "check_all_routes owned declared rs = Inr declared'" "routes_apart owned declared"
  shows "routes_apart owned declared'
    \<and> set declared' = set declared \<union> {(canon, n). \<exists>p. (n, p) \<in> set rs \<and> normalize_path p = Some canon}"
  using assms
proof (induction owned declared rs rule: check_all_routes.induct)
  case (2 owned declared name p rs)
  then obtain d where d: "check_route owned name declared p = Inr d"
    and rest: "check_all_routes owned d rs = Inr declared'" by (auto simp: try_then_eq_Inr)
  note step = check_route_step[OF d 2(3)]
  from 2(1)[OF d rest step(1)] step(2) show ?case by auto
qed simp

lemma longest_member: "longest ps = Some p \<Longrightarrow> p \<in> set ps"
proof -
  have "foldl (\<lambda>best p. case best of Some q \<Rightarrow> if length q \<le> length p then Some p else Some q
      | None \<Rightarrow> Some p) b ps = Some p \<Longrightarrow> p \<in> set ps \<or> b = Some p" for b
    by (induction ps arbitrary: b) (auto split: option.splits if_splits)
  then show "longest ps = Some p \<Longrightarrow> p \<in> set ps" by (auto simp: longest_def)
qed

lemma set_map_filter_iff: "p \<in> set (List.map_filter f xs) \<longleftrightarrow> (\<exists>x \<in> set xs. f x = Some p)"
  by (induction xs) (auto simp: map_filter_simps split: option.split)

lemma declared_prefix_parts:
  assumes "declared_prefix s path = Some p"
  obtains req r where "normalize_path path = Some req" "under_prefix req p" "r \<in> set (gs_routes s)"
    "normalize_path r = Some p"
proof -
  from assms obtain req where req: "normalize_path path = Some req"
    and l: "longest (filter (under_prefix req) (List.map_filter normalize_path (gs_routes s))) = Some p"
    by (auto simp: declared_prefix_def split: option.splits)
  from longest_member[OF l] have "under_prefix req p" "\<exists>r \<in> set (gs_routes s). normalize_path r = Some p"
    by (auto simp: set_map_filter_iff)
  with req that show thesis by blast
qed

text \<open>
  C16. Once the declared routes have passed validation, no request path is claimed by two entries of
  different names, and no path an entry claims lies under a path the proxy answers itself.
\<close>

theorem one_path_one_owner:
  assumes "validate_routes servers owned = Inr ()" and "s \<in> set servers"
    and "declared_prefix s path = Some p"
  shows "(\<forall>s' \<in> set servers. gs_name s' \<noteq> gs_name s \<longrightarrow> declared_prefix s' path = None)
    \<and> (\<forall>r \<in> set owned. \<forall>req. normalize_path path = Some req \<longrightarrow> \<not> under_prefix req r)"
proof -
  obtain d where run: "check_all_routes owned []
      (concat (map (\<lambda>s. map (Pair (gs_name s)) (gs_routes s)) servers)) = Inr d"
    using assms(1) by (auto simp: validate_routes_def try_then_eq_Inr)
  have apart: "routes_apart owned d"
    and d: "set d = {(canon, n). \<exists>s \<in> set servers. n = gs_name s \<and> (\<exists>r \<in> set (gs_routes s). normalize_path r = Some canon)}"
  proof -
    have a: "routes_apart owned []" by (simp add: routes_apart_def)
    note ok = check_all_routes_ok[OF run a]
    show "routes_apart owned d" using ok by blast
    show "set d = {(canon, n). \<exists>s \<in> set servers. n = gs_name s \<and> (\<exists>r \<in> set (gs_routes s). normalize_path r = Some canon)}"
      using ok by auto
  qed
  obtain req r where req: "normalize_path path = Some req" "under_prefix req p"
    and r: "r \<in> set (gs_routes s)" "normalize_path r = Some p"
    using declared_prefix_parts[OF assms(3)] by blast
  have pd: "(p, gs_name s) \<in> set d" using d assms(2) r by auto
  have "declared_prefix s' path = None" if s': "s' \<in> set servers" "gs_name s' \<noteq> gs_name s" for s'
  proof (rule ccontr)
    assume "declared_prefix s' path \<noteq> None"
    then obtain p' where "declared_prefix s' path = Some p'" by blast
    then obtain req' r' where "normalize_path path = Some req'" "under_prefix req' p'"
      "r' \<in> set (gs_routes s')" "normalize_path r' = Some p'" by (rule declared_prefix_parts)
    with req s' d have "under_prefix req p'" "(p', gs_name s') \<in> set d" by auto
    with apart pd s'(2) under_both_clash[OF req(2)] show False
      unfolding routes_apart_def by fastforce
  qed
  moreover have "\<not> under_prefix req o'" if "o' \<in> set owned" for o'
    using apart pd that under_both_clash[OF req(2)] unfolding routes_apart_def by fastforce
  ultimately show ?thesis using req(1) by auto
qed

end
