(* ===== verification/Generic_Launch.thy ===== *)
theory Generic_Launch
  imports Generic_Config Knob_Tables "HOL-Library.Code_Target_Numeral"
begin

text \<open>
  Loading and launching the declared servers: \<open>validate\<close> of \<open>src/backend/generic/config.rs\<close>,
  \<open>def_for\<close> of \<open>knobs.rs\<close> and \<open>compose\<close> of \<open>argv.rs\<close>.
\<close>

subsection \<open>Validation\<close>

text \<open>Whether a white space or a control character (\<open>char::is_control\<close>) occurs in a text.\<close>

fun has_white :: "string \<Rightarrow> bool" where
  "has_white [] \<longleftrightarrow> False"
| "has_white (c # cs) \<longleftrightarrow> List.find (starts_with (c # cs)) white_spellings \<noteq> None \<or> has_white cs"

fun has_control :: "string \<Rightarrow> bool" where
  "has_control [] \<longleftrightarrow> False"
| "has_control (c # cs) \<longleftrightarrow>
     (of_char c :: nat) < 32 \<or> (of_char c :: nat) = 127
     \<or> ((of_char c :: nat) = 194 \<and> cs \<noteq> [] \<and> 128 \<le> (of_char (hd cs) :: nat) \<and> (of_char (hd cs) :: nat) \<le> 159)
     \<or> has_control cs"

definition name_is_wellformed :: "string \<Rightarrow> bool" where
  "name_is_wellformed name \<longleftrightarrow>
     name \<noteq> [] \<and> CHR ''@'' \<notin> set name \<and> CHR ''/'' \<notin> set name \<and> CHR ''|'' \<notin> set name
     \<and> \<not> has_white name \<and> \<not> has_control name"

definition memory_ok :: "fp \<Rightarrow> bool" where
  "memory_ok m \<longleftrightarrow> (case m of Fin neg q \<Rightarrow> \<not> neg \<and> 0 < q | _ \<Rightarrow> False)"

definition is_blank :: "string option \<Rightarrow> bool" where
  "is_blank v \<longleftrightarrow> (case v of Some s \<Rightarrow> trim s = [] | None \<Rightarrow> False)"

definition is_level :: "string \<Rightarrow> bool" where
  "is_level l \<longleftrightarrow>
     l \<noteq> [] \<and> list_all (\<lambda>c. is_lower c \<or> is_digit c \<or> c = CHR ''-'' \<or> c = CHR ''_'') l"

definition fail_if :: "'e option \<Rightarrow> ('e, unit) result" where
  "fail_if e = (case e of Some e \<Rightarrow> Inl e | None \<Rightarrow> Inr ())"

definition check_identity :: "generic_server \<Rightarrow> string list \<Rightarrow> (config_error, unit) result" where
  "check_identity s names =
     checks
       [(\<not> name_is_wellformed (gs_name s), BadName (gs_name s)),
        (ascii_lower (gs_name s) \<in> set names, DuplicateName (gs_name s)),
        (\<not> (starts_with (gs_binary s) ''/'' \<or> starts_with (gs_binary s) ''~/''),
         RelativeBinary (gs_name s) (gs_binary s)),
        (case gs_ready s of Some p \<Rightarrow> \<not> starts_with p ''/'' | None \<Rightarrow> False,
         BadReady (gs_name s) (case gs_ready s of Some p \<Rightarrow> p | None \<Rightarrow> [])),
        (gs_ready s = None, MissingReady (gs_name s)),
        (case gs_memory_gib s of Some m \<Rightarrow> \<not> memory_ok m | None \<Rightarrow> False, BadMemory (gs_name s)),
        (gs_memory_gib s \<noteq> None \<and> gs_model s \<noteq> None, FieldWithModel (gs_name s) ''memory_gib'')]"

definition check_rows_from :: "generic_server \<Rightarrow> (config_error, unit) result" where
  "check_rows_from s =
     (case gs_rows_from s of
        None \<Rightarrow> Inr ()
      | Some rf \<Rightarrow>
          checks
           ([(gs_model s \<noteq> None, FieldWithModel (gs_name s) ''rows_from''),
             (rf_command rf = [] \<or> list_ex (\<lambda>a. a = []) (rf_command rf), BadCommand (gs_name s))]
            @ map (\<lambda>(field, path). (is_blank path, EmptyField (gs_name s) (''rows_from.'' @ field)))
               [(''name'', Some (rf_name rf)), (''items'', rf_items rf), (''arch'', rf_arch rf),
                (''params'', rf_params rf), (''quant'', rf_quant rf), (''ctx'', rf_ctx rf),
                (''memory_gib'', rf_memory_gib rf)]
            @ [(case rf_when rf of
                  Some (WhenMatch path eq contains) \<Rightarrow>
                    trim path = [] \<or> (eq \<noteq> None) = (contains \<noteq> None)
                | _ \<Rightarrow> False, BadWhen (gs_name s))]))"

definition check_info :: "generic_server \<Rightarrow> (config_error, unit) result" where
  "check_info s =
     checks
       (concat (map (\<lambda>(field, given, blank).
           [(given \<and> gs_model s \<noteq> None, FieldWithModel (gs_name s) field),
            (blank, EmptyField (gs_name s) field)])
         [(''arch'', gs_arch s \<noteq> None, is_blank (gs_arch s)),
          (''params'', gs_params s \<noteq> None, is_blank (gs_params s)),
          (''quant'', gs_quant s \<noteq> None, is_blank (gs_quant s)),
          (''ctx'', gs_ctx s \<noteq> None, gs_ctx s = Some 0),
          (''vision'', gs_vision s, False),
          (''reasoning_effort'', gs_reasoning_effort s \<noteq> [], False),
          (''reasoning_effort_default'', gs_reasoning_effort_default s \<noteq> None, False)]))"

definition check_effort :: "generic_server \<Rightarrow> (config_error, unit) result" where
  "check_effort s =
     fail_if (case List.find (\<lambda>l. \<not> is_level l) (gs_reasoning_effort s) of
        Some l \<Rightarrow> Some (BadLevel (gs_name s) l)
      | None \<Rightarrow>
          (case gs_reasoning_effort_default s of
             Some d \<Rightarrow> if d = ''none'' \<or> d \<notin> set (gs_reasoning_effort s)
                       then Some (BadDefaultLevel (gs_name s) d) else None
           | None \<Rightarrow> None))"

definition check_model :: "generic_server \<Rightarrow> (config_error, unit) result" where
  "check_model s =
     fail_if (case gs_model s of
        Some m \<Rightarrow>
          if trim m = [] then Some (EmptyModel (gs_name s))
          else if ''model'' \<notin> set (placeholders s) then Some (ModelUnused (gs_name s)) else None
      | None \<Rightarrow> if ''model'' \<in> set (placeholders s) then Some (ModelMissing (gs_name s)) else None)"

text \<open>The state of the loops: ids of the entry, its \<open>ctx\<close> knobs, and what each id was before.\<close>

record knob_scan =
  sc_ids :: "string list"
  sc_ctx_count :: nat
  sc_ctx_ness :: "(string \<times> bool \<times> string) list"

definition check_knob ::
  "(string \<Rightarrow> bool) \<Rightarrow> string \<Rightarrow> knob_scan \<Rightarrow> knob_decl \<Rightarrow> (config_error, knob_scan) result" where
  "check_knob taken name sc decl =
     (let spec = decl_spec decl; i = spec_id spec
      in try_then
          (checks
            [(\<not> id_is_wellformed i, BadKnobId name i),
             (trim (sp_flag spec) = [], EmptyFlag name i),
             (is_forbidden_head (arg_head (sp_flag spec)), RefusedFlag name (sp_flag spec)),
             (taken i, TakenId name i),
             (i \<in> set BUILTIN_PLACEHOLDERS, ReservedId name i),
             (i \<in> set (sc_ids sc), DuplicateKnobId name i),
             (sp_switch spec \<and> sp_ctx spec, CtxAndSwitch name i),
             (sp_switch spec \<and>
                (case sp_default spec of Some d \<Rightarrow> trim d \<notin> {''true'', ''false''} | None \<Rightarrow> False),
              BadSwitchDefault name i),
             (sp_ctx spec \<and>
                (case sp_default spec of Some d \<Rightarrow> parse_unsigned u32_max (trim d) = None | None \<Rightarrow> False),
              BadCtxDefault name i),
             (case map_of (sc_ctx_ness sc) i of Some (c, _) \<Rightarrow> c \<noteq> sp_ctx spec | None \<Rightarrow> False,
              CtxConflict name i (case map_of (sc_ctx_ness sc) i of Some (_, n) \<Rightarrow> n | None \<Rightarrow> []))])
          (\<lambda>_. Inr \<lparr>sc_ids = i # sc_ids sc,
                    sc_ctx_count = sc_ctx_count sc + (if sp_ctx spec then 1 else 0),
                    sc_ctx_ness = (case map_of (sc_ctx_ness sc) i of
                       Some _ \<Rightarrow> sc_ctx_ness sc
                     | None \<Rightarrow> (i, sp_ctx spec, name) # sc_ctx_ness sc)\<rparr>))"

fun check_knobs ::
  "(string \<Rightarrow> bool) \<Rightarrow> string \<Rightarrow> knob_scan \<Rightarrow> knob_decl list \<Rightarrow> (config_error, knob_scan) result" where
  "check_knobs taken name sc [] = Inr sc"
| "check_knobs taken name sc (d # ds) =
     try_then (check_knob taken name sc d) (\<lambda>sc'. check_knobs taken name sc' ds)"

definition check_server ::
  "(string \<Rightarrow> bool) \<Rightarrow> string list \<Rightarrow> (string \<times> bool \<times> string) list \<Rightarrow> generic_server
    \<Rightarrow> (config_error, (string \<times> bool \<times> string) list) result" where
  "check_server taken names ctx_ness s =
     try_then (check_identity s names) (\<lambda>_.
     try_then (check_rows_from s) (\<lambda>_.
     try_then (check_info s) (\<lambda>_.
     try_then (check_effort s) (\<lambda>_.
     try_then (check_model s) (\<lambda>_.
     try_then (check_knobs taken (gs_name s)
         \<lparr>sc_ids = [], sc_ctx_count = 0, sc_ctx_ness = ctx_ness\<rparr> (gs_knobs s)) (\<lambda>sc.
     if sc_ctx_count sc > 1 then Inl (TwoCtxKnobs (gs_name s))
     else (case List.find (\<lambda>p. p \<notin> set BUILTIN_PLACEHOLDERS \<and> p \<notin> set (sc_ids sc)) (placeholders s) of
             Some p \<Rightarrow> Inl (UnknownPlaceholder (gs_name s) p)
           | None \<Rightarrow> Inr (sc_ctx_ness sc))))))))"

fun validate_servers ::
  "(string \<Rightarrow> bool) \<Rightarrow> string list \<Rightarrow> (string \<times> bool \<times> string) list \<Rightarrow> generic_server list
    \<Rightarrow> (config_error, unit) result" where
  "validate_servers taken names ctx_ness [] = Inr ()"
| "validate_servers taken names ctx_ness (s # ss) =
     try_then (check_server taken names ctx_ness s)
       (\<lambda>c. validate_servers taken (ascii_lower (gs_name s) # names) c ss)"

definition validate_config :: "(string \<Rightarrow> bool) \<Rightarrow> generic_server list \<Rightarrow> (config_error, unit) result" where
  "validate_config taken servers = validate_servers taken [] [] servers"

subsection \<open>The declarations an entry makes\<close>

definition generic_def_for :: "knob_spec \<Rightarrow> knob_def" where
  "generic_def_for spec =
     (let (kind, conc, grp, rng) =
        (if sp_switch spec then (KBool, None, Advanced, RingNone)
         else if sp_ctx spec then (KU32 None, Some ContextLength, Context, Fixed CTX_LADDER)
         else (KStr, None, Advanced, RingNone))
      in \<lparr>kd_id = spec_id spec, kd_flag = Some (trim (sp_flag spec)), kd_concept = conc,
          kd_kind = kind, kd_auto = None, kd_group = grp, kd_aliases = [],
          kd_emit = (if sp_switch spec then BareFlagWhenTrue else FlagValue), kd_ring = rng,
          kd_volatile = False, kd_fallback = ServerDefault\<rparr>)"

subsection \<open>Composition\<close>

definition CHILD_HOST :: string where
  "CHILD_HOST = ''127.0.0.1''"

record composed =
  co_argv :: "string list"
  co_env :: "(string \<times> string) list"

type_synonym launch_value = "string \<times> string \<times> string option \<times> bool"

definition knob_values :: "generic_server \<Rightarrow> knob_set \<Rightarrow> launch_value list" where
  "knob_values s knobs =
     map (\<lambda>decl.
       let spec = decl_spec decl; i = spec_id spec
       in (i, trim (sp_flag spec),
           or_else (map_option to_arg (Option.bind (ks_get knobs i) set_value)) (sp_default spec),
           sp_switch spec)) (gs_knobs s)"

definition launch_lookup ::
  "launch_value list \<Rightarrow> nat \<Rightarrow> string \<Rightarrow> string \<Rightarrow> string \<Rightarrow> string option" where
  "launch_lookup vals port published model key =
     (if key = ''port'' then Some (show_nat port)
      else if key = ''host'' then Some CHILD_HOST
      else if key = ''name'' then Some published
      else if key = ''model'' then Some model
      else Option.bind (List.find (\<lambda>(i, _). i = key) vals) (\<lambda>(_, _, v, _). v))"

definition value_argv :: "string list \<Rightarrow> launch_value \<Rightarrow> string list" where
  "value_argv referenced lv =
     (case lv of (i, flag, v, switch) \<Rightarrow>
        if i \<in> set referenced then []
        else (case v of
                None \<Rightarrow> []
              | Some x \<Rightarrow>
                  if switch then (if trim x = ''true'' then [flag] else [])
                  else [flag, x]))"

definition expand_home :: "(string \<Rightarrow> string) \<Rightarrow> string \<Rightarrow> string" where
  "expand_home expand v = (if starts_with v ''~/'' then expand v else v)"

definition compose_generic ::
  "(string \<Rightarrow> string) \<Rightarrow> generic_server \<Rightarrow> knob_set \<Rightarrow> string list \<Rightarrow> nat \<Rightarrow> string \<Rightarrow> string
    \<Rightarrow> (config_error, composed) result" where
  "compose_generic expand s knobs extras port published model =
     (let vals = knob_values s knobs;
          referenced = placeholders s;
          look = launch_lookup vals port published model
      in case List.find (\<lambda>(i, _, v, _). i \<in> set referenced \<and> v = None) vals of
           Some (i, _) \<Rightarrow> Inl (UnfilledKnob (gs_name s) i)
         | None \<Rightarrow>
             Inr \<lparr>co_argv = map (substitute look) (gs_args s)
                    @ concat (map (value_argv referenced) vals)
                    @ strip_forbidden_extras extras [] [],
                  co_env = map (\<lambda>(k, v). (k, expand_home expand (substitute look v))) (gs_env s)\<rparr>)"

subsection \<open>Templates\<close>

text \<open>A template as literal text and placeholders in turn.\<close>

datatype token = Lit string | Ident string

function tokens :: "string \<Rightarrow> token list" where
  "tokens s =
     (case split_once (CHR ''{'') s of
        None \<Rightarrow> [Lit s]
      | Some (pre, after) \<Rightarrow>
          Lit pre #
          (case take_ident after of
             Some (key, rest) \<Rightarrow> Ident key # tokens rest
           | None \<Rightarrow> Lit ''{'' # tokens after))"
  by pat_completeness auto
termination
  by (relation "measure length") (auto dest: split_once_shorter take_ident_after)

declare tokens.simps [simp del]

fun token_text :: "(string \<Rightarrow> string option) \<Rightarrow> token \<Rightarrow> string" where
  "token_text look (Lit t) = t"
| "token_text look (Ident k) = (case look k of Some v \<Rightarrow> v | None \<Rightarrow> ''{'' @ k @ ''}'')"

definition idents :: "token list \<Rightarrow> string list" where
  "idents ts = List.map_filter (\<lambda>t. case t of Ident k \<Rightarrow> Some k | Lit _ \<Rightarrow> None) ts"

lemma placeholders_tokens: "placeholders_in s = idents (tokens s)"
proof (induction s rule: placeholders_in.induct)
  case (1 s)
  then show ?case
    by (subst placeholders_in.simps, subst tokens.simps)
      (auto simp: idents_def map_filter_simps split: option.split)
qed

lemma substitute_tokens: "substitute look s = concat (map (token_text look) (tokens s))"
proof (induction s rule: tokens.induct)
  case (1 s)
  then show ?case
    by (subst substitute.simps, subst tokens.simps) (auto split: option.split)
qed

lemma token_text_same: "concat (map (token_text (\<lambda>_. None)) (tokens s)) = s"
proof (induction s rule: tokens.induct)
  case (1 s)
  show ?case
  proof (cases "split_once (CHR ''{'') s")
    case None
    then show ?thesis by (subst tokens.simps) simp
  next
    case (Some pa)
    obtain pre after where pa: "pa = (pre, after)" by (cases pa)
    with Some have s: "s = pre @ CHR ''{'' # after" by (simp add: split_once_Some)
    show ?thesis
    proof (cases "take_ident after")
      case None
      then show ?thesis using 1(1)[OF Some pa[symmetric] None] Some pa s
        by (subst tokens.simps) simp
    next
      case (Some kr)
      obtain key rest where kr: "kr = (key, rest)" by (cases kr)
      with Some have a: "after = key @ CHR ''}'' # rest"
        by (auto simp: take_ident_def split_once_Some split: option.splits if_splits)
      show ?thesis
        using 1(2)[OF \<open>split_once (CHR ''{'') s = Some pa\<close> pa[symmetric] Some kr[symmetric]]
          \<open>split_once (CHR ''{'') s = Some pa\<close> pa Some kr s a
        by (subst tokens.simps) simp
    qed
  qed
qed

subsection \<open>A launch fills its templates\<close>

lemma check_knobs_ids:
  "check_knobs taken name sc ds = Inr sc' \<Longrightarrow>
     set (sc_ids sc') = set (sc_ids sc) \<union> (\<lambda>d. spec_id (decl_spec d)) ` set ds"
  by (induction taken name sc ds rule: check_knobs.induct)
    (auto simp: try_then_eq_Inr check_knob_def Let_def)

lemma check_server_placeholders:
  assumes "check_server taken names c s = Inr c'"
  shows "set (placeholders s) \<subseteq> set BUILTIN_PLACEHOLDERS \<union> (\<lambda>d. spec_id (decl_spec d)) ` set (gs_knobs s)"
proof -
  from assms obtain sc where sc: "check_knobs taken (gs_name s)
      \<lparr>sc_ids = [], sc_ctx_count = 0, sc_ctx_ness = c\<rparr> (gs_knobs s) = Inr sc"
    and n: "List.find (\<lambda>p. p \<notin> set BUILTIN_PLACEHOLDERS \<and> p \<notin> set (sc_ids sc)) (placeholders s) = None"
    by (auto simp: check_server_def try_then_eq_Inr split: if_splits option.splits)
  from check_knobs_ids[OF sc] n show ?thesis by (auto simp: find_None_iff)
qed

lemma validate_member:
  assumes "validate_servers taken names c ss = Inr ()" "s \<in> set ss"
  shows "\<exists>names c c'. check_server taken names c s = Inr c'"
  using assms
  by (induction taken names c ss rule: validate_servers.induct) (auto simp: try_then_eq_Inr)

lemma launch_lookup_builtin:
  "k \<in> set BUILTIN_PLACEHOLDERS \<Longrightarrow> launch_lookup vals port published model k \<noteq> None"
  by (auto simp: BUILTIN_PLACEHOLDERS_def launch_lookup_def)

lemma compose_lookup:
  assumes ok: "compose_generic expand s knobs extras port published model = Inr c"
    and sub: "set (placeholders s) \<subseteq> set BUILTIN_PLACEHOLDERS \<union> (\<lambda>d. spec_id (decl_spec d)) ` set (gs_knobs s)"
    and k: "k \<in> set (placeholders s)"
  shows "launch_lookup (knob_values s knobs) port published model k \<noteq> None"
proof (cases "k \<in> set BUILTIN_PLACEHOLDERS")
  case True
  then show ?thesis by (rule launch_lookup_builtin)
next
  case False
  have "fst ` set (knob_values s knobs) = (\<lambda>d. spec_id (decl_spec d)) ` set (gs_knobs s)"
    by (force simp: knob_values_def Let_def)
  with False sub k have "k \<in> fst ` set (knob_values s knobs)" by auto
  then obtain i f v w where f: "List.find (\<lambda>(i, _). i = k) (knob_values s knobs) = Some (i, f, v, w)"
    by (cases "List.find (\<lambda>(i, _). i = k) (knob_values s knobs)") (auto simp: find_None_iff)
  then have "(i, f, v, w) \<in> set (knob_values s knobs)" "i = k" by (auto simp: find_Some_iff in_set_conv_nth)
  moreover have "\<forall>(i, _, v, _) \<in> set (knob_values s knobs). \<not> (i \<in> set (placeholders s) \<and> v = None)"
  proof -
    have "List.find (\<lambda>(i, _, v, _). i \<in> set (placeholders s) \<and> v = None) (knob_values s knobs) = None"
      using ok by (auto simp: compose_generic_def Let_def split: option.splits)
    then show ?thesis unfolding find_None_iff by blast
  qed
  ultimately have "v \<noteq> None" using k by fastforce
  with f False show ?thesis by (auto simp: launch_lookup_def BUILTIN_PLACEHOLDERS_def)
qed

text \<open>A template with every placeholder filled.\<close>

definition filled :: "(string \<Rightarrow> string option) \<Rightarrow> string \<Rightarrow> string" where
  "filled look t = concat (map (\<lambda>tok. case tok of Lit l \<Rightarrow> l | Ident k \<Rightarrow> the (look k)) (tokens t))"

lemma substitute_filled:
  assumes "\<forall>k \<in> set (placeholders_in t). look k \<noteq> None"
  shows "substitute look t = filled look t"
proof -
  have "token_text look tok = (case tok of Lit l \<Rightarrow> l | Ident k \<Rightarrow> the (look k))"
    if "tok \<in> set (tokens t)" for tok
  proof (cases tok)
    case (Ident k)
    with that have "k \<in> set (placeholders_in t)"
      by (force simp: placeholders_tokens idents_def set_map_filter_iff)
    with assms Ident show ?thesis by auto
  qed simp
  then show ?thesis by (simp add: substitute_tokens filled_def cong: map_cong)
qed

text \<open>
  C17. For a config that passed validation, a launch that is composed at all has every placeholder
  of its arguments and environment filled: each argument is its template with the value of every
  placeholder in place, none is left as written, and after them come the knobs no placeholder
  uses and the extras without a denied head.
\<close>

theorem compose_fills_templates:
  assumes "validate_config taken servers = Inr ()" and "s \<in> set servers"
    and "compose_generic expand s knobs extras port published model = Inr c"
  shows "let look = launch_lookup (knob_values s knobs) port published model in
      (\<forall>k \<in> set (placeholders s). look k \<noteq> None)
      \<and> co_argv c = map (filled look) (gs_args s)
          @ concat (map (value_argv (placeholders s)) (knob_values s knobs))
          @ strip_forbidden_extras extras [] []
      \<and> co_env c = map (\<lambda>(k, v). (k, expand_home expand (filled look v))) (gs_env s)"
proof -
  define look where "look = launch_lookup (knob_values s knobs) port published model"
  obtain names d d' where "check_server taken names d s = Inr d'"
    using validate_member assms(1,2) unfolding validate_config_def by blast
  note sub = check_server_placeholders[OF this]
  have all: "\<forall>k \<in> set (placeholders s). look k \<noteq> None"
    using compose_lookup[OF assms(3) sub] by (simp add: look_def)
  have args: "substitute look a = filled look a" if "a \<in> set (gs_args s)" for a
    using all that by (intro substitute_filled) (auto simp: placeholders_def)
  have env: "substitute look v = filled look v" if "(k, v) \<in> set (gs_env s)" for k v
    using all that by (intro substitute_filled) (force simp: placeholders_def)
  have c: "c = \<lparr>co_argv = map (substitute look) (gs_args s)
          @ concat (map (value_argv (placeholders s)) (knob_values s knobs))
          @ strip_forbidden_extras extras [] [],
        co_env = map (\<lambda>(k, v). (k, expand_home expand (substitute look v))) (gs_env s)\<rparr>"
    using assms(3) by (auto simp: compose_generic_def look_def Let_def split: option.splits)
  have m: "map (substitute look) (gs_args s) = map (filled look) (gs_args s)"
    using args by simp
  have e: "map (\<lambda>(k, v). (k, expand_home expand (substitute look v))) (gs_env s)
      = map (\<lambda>(k, v). (k, expand_home expand (filled look v))) (gs_env s)"
    using env by (intro map_cong) auto
  show ?thesis using all unfolding look_def[symmetric] Let_def c m e by simp
qed

definition sample_server :: generic_server where
  "sample_server = \<lparr>gs_name = ''lab'', gs_binary = ''/opt/lab'', gs_model = None,
     gs_ready = Some ''/health'', gs_args = [''--listen-port={port}'', ''{\"a\": 1}''],
     gs_knobs = [DeclFlag ''--seed''], gs_env = [(''SEED'', ''s-{seed}'')], gs_memory_gib = None,
     gs_routes = [''/lab''], gs_arch = None, gs_params = None, gs_quant = None, gs_ctx = None,
     gs_vision = False, gs_reasoning_effort = [], gs_reasoning_effort_default = None,
     gs_rows_from = None\<rparr>"

definition sample_compose :: "generic_server \<Rightarrow> (config_error, composed) result" where
  "sample_compose s = compose_generic id s (fmap_of_list [(''seed'', KSet (ScStr ''7''))])
     [''--verbose'', ''--host'', ''0.0.0.0''] 4100 (gs_name s) []"

lemma sample_server_runs:
  "validate_config (\<lambda>_. False) [sample_server] = Inr ()"
  "sample_compose sample_server = Inr \<lparr>co_argv = [''--listen-port=4100'', ''{\"a\": 1}'', ''--verbose''],
     co_env = [(''SEED'', ''s-7'')]\<rparr>"
  by code_simp+

theorem compose_fills_templates_witness:
  "let look = launch_lookup (knob_values sample_server (fmap_of_list [(''seed'', KSet (ScStr ''7''))])) 4100 ''lab'' []
   in look ''seed'' = Some ''7'' \<and> filled look ''--listen-port={port}'' = ''--listen-port=4100''"
proof -
  have "validate_config (\<lambda>_. False) [sample_server] = Inr ()" "sample_server \<in> set [sample_server]"
    using sample_server_runs(1) by simp_all
  note fills = compose_fills_templates[OF this sample_server_runs(2)[unfolded sample_compose_def], unfolded Let_def]
  have all: "\<forall>k \<in> set (placeholders sample_server).
      launch_lookup (knob_values sample_server (fmap_of_list [(''seed'', KSet (ScStr ''7''))]))
        4100 (gs_name sample_server) [] k \<noteq> None" by (rule conjunct1[OF fills])
  have look: "launch_lookup (knob_values sample_server (fmap_of_list [(''seed'', KSet (ScStr ''7''))]))
        4100 ''lab'' [] ''seed'' = Some ''7''" by code_simp
  have fill: "filled (launch_lookup (knob_values sample_server (fmap_of_list [(''seed'', KSet (ScStr ''7''))]))
        4100 ''lab'' []) ''--listen-port={port}'' = ''--listen-port=4100''" by code_simp
  show ?thesis using all look fill by (simp only: Let_def)
qed

theorem one_path_one_owner_witness:
  "declared_prefix (sample_server\<lparr>gs_name := ''other'', gs_routes := [''/other'']\<rparr>) ''/lab/x'' = None"
proof -
  define other where "other = sample_server\<lparr>gs_name := ''other'', gs_routes := [''/other'']\<rparr>"
  have v: "validate_routes [sample_server, other] [''/v1'', ''/health''] = Inr ()"
    unfolding other_def by code_simp
  have p: "declared_prefix sample_server ''/lab/x'' = Some ''/lab''" by code_simp
  have "gs_name other \<noteq> gs_name sample_server" by (simp add: other_def sample_server_def)
  with one_path_one_owner[OF v _ p] show ?thesis by (simp add: other_def)
qed

subsection \<open>What validation lets through\<close>

text \<open>
  Validation refuses a knob whose flag is one the product sets itself, yet it reads the flag as
  declared and the launch passes it trimmed: an entry that declares \<open>"--host "\<close> is accepted and its
  child is told to listen on every interface, while the entry that declares \<open>"--host"\<close> is refused.
\<close>

theorem padded_flag_overrides_host:
  "let server = (\<lambda>flag. sample_server\<lparr>gs_knobs := [DeclFlag ''--seed'',
         DeclFull \<lparr>sp_flag = flag, sp_id = Some ''bind'', sp_default = Some ''0.0.0.0'',
           sp_ctx = False, sp_switch = False\<rparr>]\<rparr>)
   in validate_config (\<lambda>_. False) [server ''--host''] = Inl (RefusedFlag ''lab'' ''--host'')
      \<and> validate_config (\<lambda>_. False) [server ''--host ''] = Inr ()
      \<and> try_then (sample_compose (server ''--host '')) (\<lambda>c. Inr (co_argv c))
          = Inr [''--listen-port=4100'', ''{\"a\": 1}'', ''--host'', ''0.0.0.0'', ''--verbose'']"
  by code_simp

text \<open>
  Two entries may give one knob id different kinds. Validation compares only whether both are
  the context knob, so a switch and a value knob of the same id pass, and the shared declaration
  table holds the id as a boolean and as a text.
\<close>

theorem shared_id_two_kinds:
  "let spec = (\<lambda>switch. \<lparr>sp_flag = ''--fast'', sp_id = None, sp_default = None, sp_ctx = False,
         sp_switch = switch\<rparr>);
       server = (\<lambda>name switch. sample_server\<lparr>gs_name := name, gs_env := [], gs_knobs := [DeclFull (spec switch)]\<rparr>)
   in validate_config (\<lambda>_. False) [server ''one'' True, server ''two'' False] = Inr ()
      \<and> kd_id (generic_def_for (spec True)) = kd_id (generic_def_for (spec False))
      \<and> kd_kind (generic_def_for (spec True)) = KBool \<and> kd_kind (generic_def_for (spec False)) = KStr"
  by code_simp

end
