(* ===== verification/Glob.thy ===== *)
theory Glob
  imports Prelude
begin

text \<open>
  The wildcard match of the preset keys: \<open>src/util/glob.rs\<close>. The loop with its single backtracking
  point is modelled with its indices; whether it returns is part of what is shown. Lower-casing
  (\<open>str::to_lowercase\<close>, full Unicode) is a parameter, and a pattern is a list of the characters it
  yields.
\<close>

definition is_pattern :: "string \<Rightarrow> bool" where
  "is_pattern pattern \<longleftrightarrow> CHR ''*'' \<in> set pattern \<or> CHR ''?'' \<in> set pattern"

type_synonym star_mark = "(nat \<times> nat) option"

partial_function (option) match_loop ::
  "string \<Rightarrow> string \<Rightarrow> nat \<Rightarrow> nat \<Rightarrow> star_mark \<Rightarrow> bool option" where
  "match_loop p t pi ti star =
     (if ti < length t then
        (if pi < length p \<and> (p ! pi = CHR ''?'' \<or> p ! pi = t ! ti)
         then match_loop p t (Suc pi) (Suc ti) star
         else if pi < length p \<and> p ! pi = CHR ''*''
         then match_loop p t (Suc pi) ti (Some (pi, ti))
         else (case star of
                 Some (sp, st) \<Rightarrow> match_loop p t (Suc sp) (Suc st) (Some (sp, Suc st))
               | None \<Rightarrow> Some False))
      else Some (list_all (\<lambda>c. c = CHR ''*'') (drop pi p)))"

definition glob_matches :: "(string \<Rightarrow> string) \<Rightarrow> string \<Rightarrow> string \<Rightarrow> bool option" where
  "glob_matches lower pattern text = match_loop (lower pattern) (lower text) 0 0 None"

subsection \<open>What a pattern means\<close>

text \<open>\<open>*\<close> spans any run of characters, \<open>?\<close> exactly one.\<close>

fun glob :: "string \<Rightarrow> string \<Rightarrow> bool" where
  "glob [] t \<longleftrightarrow> t = []"
| "glob (c # p) t \<longleftrightarrow>
     (if c = CHR ''*'' then \<exists>k \<in> {0..length t}. glob p (drop k t)
      else t \<noteq> [] \<and> (c = CHR ''?'' \<or> c = hd t) \<and> glob p (tl t))"

definition glob_at :: "string \<Rightarrow> string \<Rightarrow> nat \<Rightarrow> nat \<Rightarrow> bool" where
  "glob_at p t pi ti \<longleftrightarrow> glob (drop pi p) (drop ti t)"

lemma glob_stars: "glob p [] \<longleftrightarrow> list_all (\<lambda>c. c = CHR ''*'') p"
  by (induction p) auto

lemma glob_at_char:
  assumes "pi < length p" "ti < length t" "p ! pi \<noteq> CHR ''*''"
  shows "glob_at p t pi ti \<longleftrightarrow> (p ! pi = CHR ''?'' \<or> p ! pi = t ! ti) \<and> glob_at p t (Suc pi) (Suc ti)"
  using assms by (simp add: glob_at_def hd_drop_conv_nth tl_drop flip: Cons_nth_drop_Suc drop_Suc)

lemma glob_at_star:
  assumes "pi < length p" "p ! pi = CHR ''*''" "ti \<le> length t"
  shows "glob_at p t pi ti \<longleftrightarrow> (\<exists>k \<in> {ti..length t}. glob_at p t (Suc pi) k)"
proof -
  have "glob_at p t pi ti \<longleftrightarrow> (\<exists>k \<in> {0..length t - ti}. glob_at p t (Suc pi) (ti + k))"
    using assms(1,2) by (simp add: glob_at_def add.commute flip: Cons_nth_drop_Suc)
  also have "\<dots> \<longleftrightarrow> (\<exists>k \<in> {ti..length t}. glob_at p t (Suc pi) k)"
    using assms(3) by (metis (no_types, lifting) add_diff_inverse_nat atLeastAtMost_iff diff_le_mono
        le_add1 le_diff_conv2 le0 not_less add.commute)
  finally show ?thesis .
qed

lemma glob_at_end: "glob_at p t pi (length t) \<longleftrightarrow> list_all (\<lambda>c. c = CHR ''*'') (drop pi p)"
  by (simp add: glob_at_def glob_stars)

subsection \<open>What the loop computes\<close>

text \<open>Characters of the pattern without a star consume one character of the text each.\<close>

lemma glob_at_segment:
  assumes "\<forall>i. sp \<le> i \<and> i < sp + n \<longrightarrow> p ! i \<noteq> CHR ''*''" "sp + n \<le> length p"
    and "k \<le> length t" "glob_at p t sp k"
  shows "k + n \<le> length t \<and> glob_at p t (sp + n) (k + n)"
  using assms
proof (induction n)
  case (Suc n)
  then have IH: "k + n \<le> length t" "glob_at p t (sp + n) (k + n)" by auto
  have c: "sp + n < length p" "p ! (sp + n) \<noteq> CHR ''*''" using Suc.prems(1,2) by auto
  have "k + n \<noteq> length t"
    using IH(2) c glob_at_end[of p t "sp + n"] by (auto simp flip: Cons_nth_drop_Suc)
  then show ?case using IH c glob_at_char[of "sp + n" p "k + n" t] by auto
qed simp

text \<open>
  The state of the loop: since the last star, as many characters of the pattern as of the text
  have been consumed, none of them a star.
\<close>

definition loop_inv :: "string \<Rightarrow> string \<Rightarrow> nat \<Rightarrow> nat \<Rightarrow> star_mark \<Rightarrow> bool" where
  "loop_inv p t pi ti star \<longleftrightarrow>
     pi \<le> length p \<and> ti \<le> length t
     \<and> (case star of
          None \<Rightarrow> True
        | Some (sp, st) \<Rightarrow> sp < pi \<and> p ! sp = CHR ''*'' \<and> st \<le> ti \<and> pi + st = Suc sp + ti
            \<and> (\<forall>i. Suc sp \<le> i \<and> i < pi \<longrightarrow> p ! i \<noteq> CHR ''*''))"

definition later_tries :: "string \<Rightarrow> string \<Rightarrow> star_mark \<Rightarrow> bool" where
  "later_tries p t star \<longleftrightarrow>
     (case star of
        None \<Rightarrow> False
      | Some (sp, st) \<Rightarrow> \<exists>k \<in> {Suc st..length t}. glob_at p t (Suc sp) k)"

definition answer :: "string \<Rightarrow> string \<Rightarrow> nat \<Rightarrow> nat \<Rightarrow> star_mark \<Rightarrow> bool" where
  "answer p t pi ti star \<longleftrightarrow> glob_at p t pi ti \<or> later_tries p t star"

lemma later_try:
  assumes "loop_inv p t pi ti star" "later_tries p t star"
  shows "\<exists>k. ti < k \<and> k \<le> length t \<and> glob_at p t pi k"
proof -
  obtain sp st k where star: "star = Some (sp, st)" and k: "Suc st \<le> k" "k \<le> length t"
    "glob_at p t (Suc sp) k"
    using assms(2) by (auto simp: later_tries_def split: option.splits)
  define n where "n = ti - st"
  have eq: "Suc sp + n = pi" "k + n > ti" using assms(1) star k(1) by (auto simp: loop_inv_def n_def)
  have "k + n \<le> length t \<and> glob_at p t (Suc sp + n) (k + n)"
    using assms(1) star eq(1) k by (intro glob_at_segment) (auto simp: loop_inv_def)
  with eq show ?thesis by auto
qed

lemma step_char:
  assumes "loop_inv p t pi ti star" "ti < length t" "CHR ''*'' \<notin> set t"
    and "pi < length p" "p ! pi = CHR ''?'' \<or> p ! pi = t ! ti"
  shows "loop_inv p t (Suc pi) (Suc ti) star"
    and "answer p t (Suc pi) (Suc ti) star \<longleftrightarrow> answer p t pi ti star"
proof -
  have ns: "p ! pi \<noteq> CHR ''*''" using assms(2,3,5) nth_mem by fastforce
  show "loop_inv p t (Suc pi) (Suc ti) star"
    using assms(1,2,4) ns by (auto simp: loop_inv_def less_Suc_eq split: option.splits)
  show "answer p t (Suc pi) (Suc ti) star \<longleftrightarrow> answer p t pi ti star"
    using glob_at_char[OF assms(4,2) ns] assms(5) by (simp add: answer_def)
qed

lemma step_star:
  assumes "loop_inv p t pi ti star" "ti < length t" "pi < length p" "p ! pi = CHR ''*''"
  shows "loop_inv p t (Suc pi) ti (Some (pi, ti))"
    and "answer p t (Suc pi) ti (Some (pi, ti)) \<longleftrightarrow> answer p t pi ti star"
proof -
  show "loop_inv p t (Suc pi) ti (Some (pi, ti))" using assms by (auto simp: loop_inv_def)
  have g: "glob_at p t pi ti \<longleftrightarrow> (\<exists>k \<in> {ti..length t}. glob_at p t (Suc pi) k)"
    if "ti \<le> length t" for ti using glob_at_star[OF assms(3,4) that] .
  have "answer p t (Suc pi) ti (Some (pi, ti)) \<longleftrightarrow> glob_at p t pi ti"
    using g[of ti] assms(2)
    by (simp add: answer_def later_tries_def flip: atLeastAtMost_insertL)
  moreover have "glob_at p t pi ti" if late: "later_tries p t star"
  proof -
    obtain k where "ti < k" "k \<le> length t" "glob_at p t pi k"
      using later_try[OF assms(1) late] by blast
    with g[of k] g[of ti] assms(2) show ?thesis by auto
  qed
  ultimately show "answer p t (Suc pi) ti (Some (pi, ti)) \<longleftrightarrow> answer p t pi ti star"
    by (auto simp: answer_def)
qed

lemma mismatch:
  assumes "ti < length t" "pi \<le> length p"
    and "\<not> (pi < length p \<and> (p ! pi = CHR ''?'' \<or> p ! pi = t ! ti))"
    and "\<not> (pi < length p \<and> p ! pi = CHR ''*'')"
  shows "\<not> glob_at p t pi ti"
proof (cases "pi < length p")
  case True
  then show ?thesis using glob_at_char[OF True assms(1)] assms(3,4) by auto
next
  case False
  then show ?thesis using assms(1) by (simp add: glob_at_def)
qed

lemma step_back:
  assumes "loop_inv p t pi ti (Some (sp, st))" "ti < length t" "\<not> glob_at p t pi ti"
  shows "loop_inv p t (Suc sp) (Suc st) (Some (sp, Suc st))"
    and "answer p t (Suc sp) (Suc st) (Some (sp, Suc st)) \<longleftrightarrow> answer p t pi ti (Some (sp, st))"
proof -
  have st: "Suc st \<le> length t" using assms(1,2) by (simp add: loop_inv_def)
  show "loop_inv p t (Suc sp) (Suc st) (Some (sp, Suc st))"
    using assms(1) st by (auto simp: loop_inv_def)
  show "answer p t (Suc sp) (Suc st) (Some (sp, Suc st)) \<longleftrightarrow> answer p t pi ti (Some (sp, st))"
    using assms(3) atLeastAtMost_insertL[OF st, symmetric] by (simp add: answer_def later_tries_def)
qed

lemma at_end:
  assumes "loop_inv p t pi ti star" "\<not> ti < length t"
  shows "answer p t pi ti star \<longleftrightarrow> list_all (\<lambda>c. c = CHR ''*'') (drop pi p)"
proof -
  have "ti = length t" using assms by (simp add: loop_inv_def)
  moreover from this have "\<not> later_tries p t star" using later_try[OF assms(1)] by auto
  ultimately show ?thesis using glob_at_end by (simp add: answer_def)
qed

text \<open>How far the last star can still move, then the text, then the pattern.\<close>

definition star_room :: "string \<Rightarrow> nat \<times> nat \<times> star_mark \<Rightarrow> nat" where
  "star_room t s = (case snd (snd s) of None \<Rightarrow> Suc (length t) | Some (_, st) \<Rightarrow> length t - st)"

definition loop_order :: "string \<Rightarrow> string \<Rightarrow> ((nat \<times> nat \<times> star_mark) \<times> (nat \<times> nat \<times> star_mark)) set" where
  "loop_order p t = measures [star_room t, \<lambda>s. length t - fst (snd s), \<lambda>s. length p - fst s]"

lemma wf_loop_order: "wf (loop_order p t)"
  by (simp add: loop_order_def)

lemma match_loop_answer:
  assumes "CHR ''*'' \<notin> set t"
  shows "loop_inv p t pi ti star \<Longrightarrow> match_loop p t pi ti star = Some (answer p t pi ti star)"
proof (induction "(pi, ti, star)" arbitrary: pi ti star rule: wf_induct_rule[OF wf_loop_order[of p t]])
  case 1
  note less = 1[unfolded loop_order_def]
  show ?case
  proof (cases "ti < length t")
    case False
    then show ?thesis using at_end[OF less(2)] by (subst match_loop.simps) simp
  next
    case ti: True
    consider (chr) "pi < length p \<and> (p ! pi = CHR ''?'' \<or> p ! pi = t ! ti)"
      | (star) "\<not> (pi < length p \<and> (p ! pi = CHR ''?'' \<or> p ! pi = t ! ti))" "pi < length p \<and> p ! pi = CHR ''*''"
      | (miss) "\<not> (pi < length p \<and> (p ! pi = CHR ''?'' \<or> p ! pi = t ! ti))"
          "\<not> (pi < length p \<and> p ! pi = CHR ''*'')" by blast
    then show ?thesis
    proof cases
      case chr
      note step = step_char[OF less(2) ti assms]
      have "match_loop p t (Suc pi) (Suc ti) star = Some (answer p t (Suc pi) (Suc ti) star)"
        using chr ti step(1) by (intro less(1)) (auto simp: star_room_def)
      then show ?thesis using chr ti step(2) by (subst match_loop.simps) simp
    next
      case star
      note step = step_star[OF less(2) ti]
      have "match_loop p t (Suc pi) ti (Some (pi, ti)) = Some (answer p t (Suc pi) ti (Some (pi, ti)))"
        using star ti step(1) less(2)
        by (intro less(1)) (auto simp: star_room_def loop_inv_def split: option.splits)
      then show ?thesis using star ti step(2) by (subst match_loop.simps) simp
    next
      case miss
      have no: "\<not> glob_at p t pi ti"
        using mismatch[OF ti _ miss] less(2) by (simp add: loop_inv_def)
      show ?thesis
      proof (cases star)
        case None
        have "match_loop p t pi ti star = Some False"
          by (subst match_loop.simps) (simp only: ti miss None if_True if_False option.case)
        with None no show ?thesis by (simp add: answer_def later_tries_def)
      next
        case (Some m)
        then obtain sp st where star: "star = Some (sp, st)" by (cases m) simp
        note step = step_back[OF less(2)[unfolded star] ti no]
        have "match_loop p t (Suc sp) (Suc st) (Some (sp, Suc st))
            = Some (answer p t (Suc sp) (Suc st) (Some (sp, Suc st)))"
          using ti step(1) less(2)
          by (intro less(1)) (auto simp: star star_room_def loop_inv_def)
        moreover have "match_loop p t pi ti star = match_loop p t (Suc sp) (Suc st) (Some (sp, Suc st))"
          by (subst match_loop.simps) (simp only: ti miss star if_True if_False option.case prod.case)
        ultimately show ?thesis using star step(2) by simp
      qed
    qed
  qed
qed

subsection \<open>Any text\<close>

text \<open>
  A text may hold a star, which the loop takes for a literal match first. It still returns, and what it
  accepts the pattern means: every state it goes through leads, if the rest matches, to a match.
\<close>

definition mark_inv :: "string \<Rightarrow> string \<Rightarrow> nat \<Rightarrow> nat \<Rightarrow> star_mark \<Rightarrow> bool" where
  "mark_inv p t pi ti star \<longleftrightarrow>
     pi \<le> length p \<and> ti \<le> length t
     \<and> (case star of None \<Rightarrow> True | Some (sp, st) \<Rightarrow> sp < pi \<and> p ! sp = CHR ''*'' \<and> st \<le> ti)"

definition leads :: "string \<Rightarrow> string \<Rightarrow> nat \<Rightarrow> nat \<Rightarrow> star_mark \<Rightarrow> bool" where
  "leads p t pi ti star \<longleftrightarrow>
     (glob_at p t pi ti \<longrightarrow> glob p t)
     \<and> (case star of None \<Rightarrow> True
        | Some (sp, st) \<Rightarrow> \<forall>k \<in> {st..length t}. glob_at p t (Suc sp) k \<longrightarrow> glob p t)"

lemma char_consumed:
  assumes "ti < length t" "pi < length p" "p ! pi = CHR ''?'' \<or> p ! pi = t ! ti"
    and "glob_at p t (Suc pi) (Suc ti)"
  shows "glob_at p t pi ti"
proof (cases "p ! pi = CHR ''*''")
  case True
  then show ?thesis using glob_at_star[OF assms(2) True, of ti] assms(1,4) by auto
next
  case False
  then show ?thesis using glob_at_char[OF assms(2,1) False] assms(3,4) by simp
qed

lemma match_loop_returns:
  "mark_inv p t pi ti star \<Longrightarrow> leads p t pi ti star \<Longrightarrow> \<exists>b. match_loop p t pi ti star = Some b \<and> (b \<longrightarrow> glob p t)"
proof (induction "(pi, ti, star)" arbitrary: pi ti star rule: wf_induct_rule[OF wf_loop_order[of p t]])
  case 1
  note less = 1[unfolded loop_order_def]
  show ?case
  proof (cases "ti < length t")
    case False
    then have "ti = length t" using less(2) by (simp add: mark_inv_def)
    moreover from this have "list_all (\<lambda>c. c = CHR ''*'') (drop pi p) \<longrightarrow> glob p t"
      using less(3) glob_at_end by (simp add: leads_def)
    ultimately show ?thesis by (subst match_loop.simps) simp
  next
    case ti: True
    consider (chr) "pi < length p \<and> (p ! pi = CHR ''?'' \<or> p ! pi = t ! ti)"
      | (star) "\<not> (pi < length p \<and> (p ! pi = CHR ''?'' \<or> p ! pi = t ! ti))" "pi < length p \<and> p ! pi = CHR ''*''"
      | (miss) "\<not> (pi < length p \<and> (p ! pi = CHR ''?'' \<or> p ! pi = t ! ti))"
          "\<not> (pi < length p \<and> p ! pi = CHR ''*'')" by blast
    then show ?thesis
    proof cases
      case chr
      have "mark_inv p t (Suc pi) (Suc ti) star" "leads p t (Suc pi) (Suc ti) star"
        using less(2,3) chr ti char_consumed[OF ti] by (auto simp: mark_inv_def leads_def split: option.splits)
      then have "\<exists>b. match_loop p t (Suc pi) (Suc ti) star = Some b \<and> (b \<longrightarrow> glob p t)"
        using chr ti by (intro less(1)) (auto simp: star_room_def)
      then show ?thesis using chr ti by (subst match_loop.simps) simp
    next
      case star
      have "\<forall>k \<in> {ti..length t}. glob_at p t (Suc pi) k \<longrightarrow> glob p t"
        using less(3) ti star(2) glob_at_star[of pi p ti t] by (auto simp: leads_def)
      then have "mark_inv p t (Suc pi) ti (Some (pi, ti))" "leads p t (Suc pi) ti (Some (pi, ti))"
        using less(2) ti star(2) by (auto simp: mark_inv_def leads_def)
      then have "\<exists>b. match_loop p t (Suc pi) ti (Some (pi, ti)) = Some b \<and> (b \<longrightarrow> glob p t)"
        using star ti less(2) by (intro less(1)) (auto simp: star_room_def mark_inv_def split: option.splits)
      then show ?thesis using star ti by (subst match_loop.simps) simp
    next
      case miss
      show ?thesis
      proof (cases star)
        case None
        have "match_loop p t pi ti star = Some False"
          by (subst match_loop.simps) (simp only: ti miss None if_True if_False option.case)
        then show ?thesis by auto
      next
        case (Some m)
        then obtain sp st where star: "star = Some (sp, st)" by (cases m) simp
        have "mark_inv p t (Suc sp) (Suc st) (Some (sp, Suc st))" "leads p t (Suc sp) (Suc st) (Some (sp, Suc st))"
          using less(2,3) ti by (auto simp: star mark_inv_def leads_def)
        then have "\<exists>b. match_loop p t (Suc sp) (Suc st) (Some (sp, Suc st)) = Some b \<and> (b \<longrightarrow> glob p t)"
          using ti less(2) by (intro less(1)) (auto simp: star star_room_def mark_inv_def)
        moreover have "match_loop p t pi ti star = match_loop p t (Suc sp) (Suc st) (Some (sp, Suc st))"
          by (subst match_loop.simps) (simp only: ti miss star if_True if_False option.case prod.case)
        ultimately show ?thesis by simp
      qed
    qed
  qed
qed

text \<open>
  C22. The loop returns for every pattern and every text, and what it accepts is what the pattern
  means; for a text that holds no star itself its verdict is exactly the meaning of the pattern.
\<close>

theorem glob_matches_glob:
  "\<exists>b. glob_matches lower pattern text = Some b \<and> (b \<longrightarrow> glob (lower pattern) (lower text))
     \<and> (CHR ''*'' \<notin> set (lower text) \<longrightarrow> b = glob (lower pattern) (lower text))"
proof -
  have "\<exists>b. glob_matches lower pattern text = Some b \<and> (b \<longrightarrow> glob (lower pattern) (lower text))"
    unfolding glob_matches_def
    by (rule match_loop_returns) (simp_all add: mark_inv_def leads_def glob_at_def)
  moreover have "glob_matches lower pattern text = Some (glob (lower pattern) (lower text))"
    if "CHR ''*'' \<notin> set (lower text)"
    using match_loop_answer[OF that, of "lower pattern" 0 0 None]
    by (simp add: glob_matches_def loop_inv_def answer_def later_tries_def glob_at_def)
  ultimately show ?thesis by force
qed

theorem glob_matches_glob_witness:
  "glob_matches ascii_lower ''unsloth/*-q?'' ''Unsloth/Qwen-a-Q4'' = Some True"
proof -
  have "CHR ''*'' \<notin> set (ascii_lower ''Unsloth/Qwen-a-Q4'')" by code_simp
  moreover have "glob (ascii_lower ''unsloth/*-q?'') (ascii_lower ''Unsloth/Qwen-a-Q4'')" by code_simp
  ultimately show ?thesis
    using glob_matches_glob[of ascii_lower "''unsloth/*-q?''" "''Unsloth/Qwen-a-Q4''"] by auto
qed

text \<open>
  A text that starts with a star is not matched by the pattern that is one star: the loop takes
  the equal characters for a literal match before it looks for the wildcard.
\<close>

theorem star_text_not_matched:
  assumes "lower pattern = ''*''" "lower text = CHR ''*'' # c # cs"
  shows "glob_matches lower pattern text = Some False \<and> glob (lower pattern) (lower text)"
  using assms
  by (simp add: glob_matches_def match_loop.simps)

theorem star_text_not_matched_witness:
  "glob_matches ascii_lower ''*'' ''*a'' = Some False \<and> glob (ascii_lower ''*'') (ascii_lower ''*a'')"
  by (rule star_text_not_matched) code_simp+

end
