(* ===== verification/Float_Arith.thy ===== *)
theory Float_Arith
  imports Float_Text
begin

text \<open>
  Arithmetic and conversions of \<open>f64\<close> (standard library) on the values of \<open>Float_Text\<close>: the exact
  result rounded to the format, with the infinities and the not-a-number of IEEE 754.
\<close>

abbreviation f64_round :: "bool \<Rightarrow> rat \<Rightarrow> fp" where
  "f64_round \<equiv> round_fp f64_format"

definition signed :: "bool \<Rightarrow> rat \<Rightarrow> rat" where
  "signed neg q = (if neg then - q else q)"

text \<open>\<open>n as f64\<close> for an unsigned and a signed integer.\<close>

definition fp_of_nat :: "nat \<Rightarrow> fp" where
  "fp_of_nat n = f64_round False (of_nat n)"

definition fp_of_int :: "int \<Rightarrow> fp" where
  "fp_of_int i = f64_round (i < 0) (of_int \<bar>i\<bar>)"

fun fp_add :: "fp \<Rightarrow> fp \<Rightarrow> fp" where
  "fp_add (Fin a p) (Fin b q) =
     (let v = signed a p + signed b q
      in if v = 0 then Fin (a \<and> b) 0 else f64_round (v < 0) \<bar>v\<bar>)"
| "fp_add (Infinite a) (Infinite b) = (if a = b then Infinite a else NotANumber)"
| "fp_add (Infinite a) (Fin _ _) = Infinite a"
| "fp_add (Fin _ _) (Infinite b) = Infinite b"
| "fp_add _ _ = NotANumber"

fun fp_neg :: "fp \<Rightarrow> fp" where
  "fp_neg (Fin a p) = Fin (\<not> a) p"
| "fp_neg (Infinite a) = Infinite (\<not> a)"
| "fp_neg NotANumber = NotANumber"

fun fp_mul :: "fp \<Rightarrow> fp \<Rightarrow> fp" where
  "fp_mul (Fin a p) (Fin b q) = f64_round (a \<noteq> b) (p * q)"
| "fp_mul (Infinite a) (Infinite b) = Infinite (a \<noteq> b)"
| "fp_mul (Infinite a) (Fin b q) = (if q = 0 then NotANumber else Infinite (a \<noteq> b))"
| "fp_mul (Fin a p) (Infinite b) = (if p = 0 then NotANumber else Infinite (a \<noteq> b))"
| "fp_mul _ _ = NotANumber"

fun fp_div :: "fp \<Rightarrow> fp \<Rightarrow> fp" where
  "fp_div (Fin a p) (Fin b q) =
     (if q = 0 then (if p = 0 then NotANumber else Infinite (a \<noteq> b)) else f64_round (a \<noteq> b) (p / q))"
| "fp_div (Infinite a) (Fin b q) = Infinite (a \<noteq> b)"
| "fp_div (Fin a p) (Infinite b) = Fin (a \<noteq> b) 0"
| "fp_div _ _ = NotANumber"

text \<open>\<open><=\<close>, false when one side is not a number; \<open>as u64\<close> truncates and saturates.\<close>

definition fp_le :: "fp \<Rightarrow> fp \<Rightarrow> bool" where
  "fp_le x y \<longleftrightarrow> x \<noteq> NotANumber \<and> y \<noteq> NotANumber \<and> \<not> fp_less y x"

fun fp_to_u64 :: "fp \<Rightarrow> nat" where
  "fp_to_u64 (Fin neg q) = (if neg then 0 else min (nat \<lfloor>q\<rfloor>) u64_max)"
| "fp_to_u64 (Infinite neg) = (if neg then 0 else u64_max)"
| "fp_to_u64 NotANumber = 0"

abbreviation fp_zero :: fp where
  "fp_zero \<equiv> Fin False 0"

subsection \<open>Durations\<close>

text \<open>A \<open>Duration\<close> is its seconds and nanoseconds; \<open>as_secs_f64\<close>.\<close>

record duration =
  du_secs :: nat
  du_nanos :: nat

definition as_secs_f64 :: "duration \<Rightarrow> fp" where
  "as_secs_f64 d = fp_add (fp_of_nat (du_secs d)) (fp_div (fp_of_nat (du_nanos d)) (fp_of_nat 1000000000))"

text \<open>A value that is a positive number up to a bound.\<close>

definition positive_upto :: "rat \<Rightarrow> fp \<Rightarrow> bool" where
  "positive_upto c v \<longleftrightarrow> (\<exists>a q. v = Fin a q \<and> 0 < signed a q \<and> signed a q \<le> c)"

lemma positive_upto_iff:
  "is_finite v \<and> fp_less fp_zero v \<and> fp_le v (Fin False c) \<longleftrightarrow> positive_upto c v"
  by (cases v) (auto simp: fp_le_def positive_upto_def signed_def)

end
