(* ===== verification/Usage_Tap.thy ===== *)
theory Usage_Tap
  imports Float_Arith "HOL-Library.Sublist" "HOL-Library.Code_Target_Numeral"
begin

text \<open>
  The usage tap of the proxy: \<open>src/proxy/usage_tap.rs\<close>. A response is pushed through in chunks of any
  size; the tap keeps its two ends and reads token counts and speeds from them when it has ended.
  The \<open>serde_json\<close> reader of the first value of a slice is a parameter, and an object is what it
  delivers. Shown: the tap refines a reading of the whole body, whatever the chunks; every speed it
  reports is a positive number under the ceiling; what a server reported is never replaced.
\<close>

subsection \<open>JSON values\<close>

datatype json_number = PosInt nat | NegInt int | JFloat fp

datatype json =
    JNull
  | JBool bool
  | JNumber json_number
  | JString string
  | JArray "json list"
  | JObject "(string \<times> json) list"

type_synonym json_object = "(string \<times> json) list"

fun json_u64 :: "json \<Rightarrow> nat option" where
  "json_u64 (JNumber (PosInt n)) = Some n"
| "json_u64 _ = None"

fun json_f64 :: "json \<Rightarrow> fp option" where
  "json_f64 (JNumber (PosInt n)) = Some (fp_of_nat n)"
| "json_f64 (JNumber (NegInt i)) = Some (fp_of_int i)"
| "json_f64 (JNumber (JFloat v)) = Some v"
| "json_f64 _ = None"

fun json_object_of :: "json \<Rightarrow> json_object option" where
  "json_object_of (JObject o') = Some o'"
| "json_object_of _ = None"

subsection \<open>Limits\<close>

definition HEAD_CAP :: nat where
  "HEAD_CAP = 4 * 1024"

definition TAIL_CAP :: nat where
  "TAIL_CAP = 8 * 1024"

definition SPEED_CEILING :: fp where
  "SPEED_CEILING = Fin False 1000000"

definition MAX_PROMPT_MS :: fp where
  "MAX_PROMPT_MS = Fin False 86400000"

definition usable_speed :: "fp \<Rightarrow> fp option" where
  "usable_speed v =
     (if is_finite v \<and> fp_less fp_zero v \<and> fp_le v SPEED_CEILING then Some v else None)"

subsection \<open>Finding the objects\<close>

text \<open>\<open>windows(n).position\<close>; no needle of the program is empty.\<close>

fun find_bytes :: "bytes \<Rightarrow> bytes \<Rightarrow> nat option" where
  "find_bytes [] needle = None"
| "find_bytes (b # bs) needle =
     (if needle \<noteq> [] \<and> starts_with (b # bs) needle then Some 0
      else map_option Suc (find_bytes bs needle))"

definition is_ascii_whitespace :: "u8 \<Rightarrow> bool" where
  "is_ascii_whitespace b \<longleftrightarrow> b \<in> {9, 10, 12, 13, 32}"

definition skip_ws :: "bytes \<Rightarrow> bytes" where
  "skip_ws buf = dropWhile is_ascii_whitespace buf"

lemma find_bytes_found:
  "find_bytes h n = Some i \<Longrightarrow> n \<noteq> [] \<and> i + length n \<le> length h \<and> starts_with (drop i h) n"
proof (induction h n arbitrary: i rule: find_bytes.induct)
  case (2 b bs needle)
  then show ?case
    by (fastforce simp: starts_with_iff dest: arg_cong[of _ _ length] split: if_splits)
qed simp

lemma find_bytes_shorter:
  "find_bytes buf key = Some i \<Longrightarrow> length buf - (i + length key) < length buf"
  using find_bytes_found[of buf key i] by (cases key) auto

text \<open>The object after a key, if a complete one is there.\<close>

definition object_after :: "(bytes \<Rightarrow> json_object option) \<Rightarrow> bytes \<Rightarrow> json_object option" where
  "object_after parse buf =
     (case skip_ws buf of
        [] \<Rightarrow> None
      | c # after \<Rightarrow>
          if c \<noteq> of_char CHR '':'' then None
          else let rest = skip_ws after
               in if starts_with rest (of_str ''{'') then parse rest else None)"

function objects_keyed :: "(bytes \<Rightarrow> json_object option) \<Rightarrow> bytes \<Rightarrow> bytes \<Rightarrow> json_object list" where
  "objects_keyed parse key buf =
     (case find_bytes buf key of
        None \<Rightarrow> []
      | Some i \<Rightarrow>
          let rest = drop (i + length key) buf
          in (case object_after parse rest of Some ob \<Rightarrow> [ob] | None \<Rightarrow> [])
             @ objects_keyed parse key rest)"
  by pat_completeness auto
termination
  by (relation "measure (\<lambda>(_, _, buf). length buf)") (auto dest: find_bytes_shorter)

declare objects_keyed.simps [simp del]

function some_value :: "bytes \<Rightarrow> bytes \<Rightarrow> (bytes \<Rightarrow> bool) \<Rightarrow> bool" where
  "some_value buf key test =
     (case find_bytes buf key of
        None \<Rightarrow> False
      | Some i \<Rightarrow>
          let rest = drop (i + length key) buf
          in test (skip_ws rest) \<or> some_value rest key test)"
  by pat_completeness auto
termination
  by (relation "measure (\<lambda>(buf, _, _). length buf)") (auto dest: find_bytes_shorter)

declare some_value.simps [simp del]

definition quote :: u8 where
  "quote = 34"

definition quoted :: "string \<Rightarrow> bytes" where
  "quoted s = quote # of_str s @ [quote]"

definition opens_text :: "bytes \<Rightarrow> bool" where
  "opens_text v \<longleftrightarrow> (case v of q # c # _ \<Rightarrow> q = quote \<and> c \<noteq> quote | _ \<Rightarrow> False)"

definition opens_calls :: "bytes \<Rightarrow> bool" where
  "opens_calls v \<longleftrightarrow>
     (case v of b # rest \<Rightarrow> b = of_char CHR ''['' \<and> starts_with (skip_ws rest) (of_str ''{'')
              | [] \<Rightarrow> False)"

definition carries_token :: "bytes \<Rightarrow> bool" where
  "carries_token chunk \<longleftrightarrow>
     list_ex (\<lambda>n. find_bytes chunk n \<noteq> None) [of_str ''content_block_delta'', of_str ''.delta'' @ [quote]]
     \<or> list_ex (\<lambda>key. some_value chunk (quoted key @ of_str '':'') opens_text)
         [''content'', ''reasoning_content'', ''reasoning'', ''text'']
     \<or> some_value chunk (quoted ''tool_calls'' @ of_str '':'') opens_calls"

subsection \<open>What the objects say\<close>

definition count_of :: "json_object \<Rightarrow> string \<Rightarrow> nat option" where
  "count_of ob key =
     Option.bind (map_of ob key) (\<lambda>v.
       case json_u64 v of
         Some n \<Rightarrow> Some n
       | None \<Rightarrow> (case json_f64 v of
                   Some f \<Rightarrow> if is_finite f \<and> fp_le fp_zero f then Some (fp_to_u64 f) else None
                 | None \<Rightarrow> None))"

definition nested_count :: "json_object \<Rightarrow> string \<Rightarrow> string \<Rightarrow> nat option" where
  "nested_count ob key field =
     Option.bind (Option.bind (map_of ob key) json_object_of) (\<lambda>o'. count_of o' field)"

definition rate :: "json_object \<Rightarrow> string \<Rightarrow> fp option" where
  "rate ob key = Option.bind (Option.bind (map_of ob key) json_f64) usable_speed"

definition duration_ms :: "json_object \<Rightarrow> string \<Rightarrow> fp option" where
  "duration_ms ob key =
     Option.bind (Option.bind (map_of ob key) json_f64) (\<lambda>ms.
       if is_finite ms \<and> fp_less fp_zero ms \<and> fp_le ms MAX_PROMPT_MS then Some ms else None)"

text \<open>\<open>set\<close>: a value that is there replaces the slot.\<close>

definition set_slot :: "'a option \<Rightarrow> 'a option \<Rightarrow> 'a option" where
  "set_slot slot v = or_else v slot"

record tap_fields =
  tf_prompt_tokens :: "nat option"
  tf_input_tokens :: "nat option"
  tf_cache_read_input_tokens :: "nat option"
  tf_cache_creation_input_tokens :: "nat option"
  tf_completion_tokens :: "nat option"
  tf_usage_tps :: "fp option"
  tf_usage_prefill_tps :: "fp option"
  tf_prompt_n :: "nat option"
  tf_prompt_ms :: "fp option"
  tf_cache_n :: "nat option"
  tf_cached_in_prompt_details :: "nat option"
  tf_cached_in_input_details :: "nat option"
  tf_predicted_n :: "nat option"
  tf_timings_tps :: "fp option"
  tf_metrics_tps :: "fp option"

definition no_fields :: tap_fields where
  "no_fields = \<lparr>tf_prompt_tokens = None, tf_input_tokens = None, tf_cache_read_input_tokens = None,
     tf_cache_creation_input_tokens = None, tf_completion_tokens = None, tf_usage_tps = None,
     tf_usage_prefill_tps = None, tf_prompt_n = None, tf_prompt_ms = None, tf_cache_n = None,
     tf_cached_in_prompt_details = None, tf_cached_in_input_details = None, tf_predicted_n = None,
     tf_timings_tps = None, tf_metrics_tps = None\<rparr>"

definition read_usage :: "tap_fields \<Rightarrow> json_object \<Rightarrow> tap_fields" where
  "read_usage f ob =
     f\<lparr>tf_prompt_tokens := set_slot (tf_prompt_tokens f) (count_of ob ''prompt_tokens''),
       tf_input_tokens := set_slot (tf_input_tokens f) (count_of ob ''input_tokens''),
       tf_cache_read_input_tokens :=
         set_slot (tf_cache_read_input_tokens f) (count_of ob ''cache_read_input_tokens''),
       tf_cache_creation_input_tokens :=
         set_slot (tf_cache_creation_input_tokens f) (count_of ob ''cache_creation_input_tokens''),
       tf_completion_tokens := set_slot (tf_completion_tokens f)
         (or_else (count_of ob ''completion_tokens'') (count_of ob ''output_tokens'')),
       tf_usage_tps := set_slot (tf_usage_tps f)
         (or_else (rate ob ''completion_tokens_per_second'') (rate ob ''decoding_speed_tps'')),
       tf_usage_prefill_tps := set_slot (tf_usage_prefill_tps f) (rate ob ''prefill_speed_tps''),
       tf_cached_in_prompt_details := set_slot (tf_cached_in_prompt_details f)
         (nested_count ob ''prompt_tokens_details'' ''cached_tokens''),
       tf_cached_in_input_details := set_slot (tf_cached_in_input_details f)
         (nested_count ob ''input_tokens_details'' ''cached_tokens'')\<rparr>"

definition read_timings :: "tap_fields \<Rightarrow> json_object \<Rightarrow> tap_fields" where
  "read_timings f ob =
     f\<lparr>tf_prompt_n := set_slot (tf_prompt_n f) (count_of ob ''prompt_n''),
       tf_prompt_ms := set_slot (tf_prompt_ms f) (duration_ms ob ''prompt_ms''),
       tf_cache_n := set_slot (tf_cache_n f) (count_of ob ''cache_n''),
       tf_predicted_n := set_slot (tf_predicted_n f) (count_of ob ''predicted_n''),
       tf_timings_tps := set_slot (tf_timings_tps f) (rate ob ''predicted_per_second'')\<rparr>"

definition read_metrics :: "tap_fields \<Rightarrow> json_object \<Rightarrow> tap_fields" where
  "read_metrics f ob = f\<lparr>tf_metrics_tps := set_slot (tf_metrics_tps f) (rate ob ''tokens_per_second'')\<rparr>"

definition scan :: "(bytes \<Rightarrow> json_object option) \<Rightarrow> tap_fields \<Rightarrow> bytes \<Rightarrow> tap_fields" where
  "scan parse f buf =
     foldl read_metrics
       (foldl read_timings
         (foldl read_usage f (objects_keyed parse (quoted ''usage'') buf))
         (objects_keyed parse (quoted ''timings'') buf))
       (objects_keyed parse (quoted ''metrics'') buf)"

record usage =
  us_prompt_tokens :: "nat option"
  us_completion_tokens :: "nat option"
  us_tokens_per_second :: "fp option"
  us_tokens_per_second_estimated :: bool
  us_prefill_tokens :: "nat option"
  us_prefill_tokens_per_second :: "fp option"
  us_prefill_estimated :: bool
  us_cached_tokens :: "nat option"

definition value_or_zero :: "nat option \<Rightarrow> nat" where
  "value_or_zero v = (case v of Some n \<Rightarrow> n | None \<Rightarrow> 0)"

definition fields_usage :: "tap_fields \<Rightarrow> usage" where
  "fields_usage f =
     (let from_timings =
            (case (tf_prompt_n f, tf_cache_n f) of
               (None, None) \<Rightarrow> None
             | (evaluated, cached) \<Rightarrow> Some (sat_add (value_or_zero evaluated) (value_or_zero cached)));
          from_input =
            map_option (\<lambda>n. sat_add (sat_add n (value_or_zero (tf_cache_read_input_tokens f)))
              (value_or_zero (tf_cache_creation_input_tokens f))) (tf_input_tokens f);
          prefill_tps =
            or_else
              (case (tf_prompt_n f, tf_prompt_ms f) of
                 (Some tokens, Some ms) \<Rightarrow>
                   if tokens > 0
                   then usable_speed (fp_div (fp_mul (fp_of_nat tokens) (fp_of_nat 1000)) ms) else None
               | _ \<Rightarrow> None)
              (tf_usage_prefill_tps f);
          cached = or_else (or_else (or_else (tf_cache_n f) (tf_cached_in_prompt_details f))
            (tf_cached_in_input_details f)) (tf_cache_read_input_tokens f)
      in \<lparr>us_prompt_tokens = or_else (or_else (tf_prompt_tokens f) from_timings) from_input,
          us_completion_tokens = or_else (tf_completion_tokens f) (tf_predicted_n f),
          us_tokens_per_second = or_else (or_else (tf_timings_tps f) (tf_usage_tps f)) (tf_metrics_tps f),
          us_tokens_per_second_estimated = False,
          us_prefill_tokens = tf_prompt_n f,
          us_prefill_tokens_per_second = prefill_tps,
          us_prefill_estimated = False,
          us_cached_tokens = cached\<rparr>)"

subsection \<open>Estimates\<close>

definition estimate_speed :: "duration \<Rightarrow> usage \<Rightarrow> usage" where
  "estimate_speed window u =
     (case (us_completion_tokens u, us_tokens_per_second u) of
        (Some tokens, None) \<Rightarrow>
          (case usable_speed (fp_div (fp_of_nat tokens) (as_secs_f64 window)) of
             Some tps \<Rightarrow> u\<lparr>us_tokens_per_second := Some tps, us_tokens_per_second_estimated := True\<rparr>
           | None \<Rightarrow> u)
      | _ \<Rightarrow> u)"

definition estimate_prefill :: "duration \<Rightarrow> usage \<Rightarrow> usage" where
  "estimate_prefill window u =
     (case (us_prompt_tokens u, us_cached_tokens u) of
        (Some prompt, Some cached) \<Rightarrow>
          if cached < prompt
          then (if us_prefill_tokens_per_second u \<noteq> None then u
                else (case usable_speed (fp_div (fp_of_nat (prompt - cached)) (as_secs_f64 window)) of
                        None \<Rightarrow> u
                      | Some tps \<Rightarrow>
                          u\<lparr>us_prefill_tokens := Some (prompt - cached),
                            us_prefill_tokens_per_second := Some tps,
                            us_prefill_estimated := True\<rparr>))
          else u
      | _ \<Rightarrow> u)"

subsection \<open>The two ends of a response\<close>

record response_tap =
  rt_head :: bytes
  rt_tail :: bytes
  rt_gap :: bool

definition new_tap :: response_tap where
  "new_tap = \<lparr>rt_head = [], rt_tail = [], rt_gap = False\<rparr>"

text \<open>The last \<open>n\<close> bytes of a buffer that holds at least as many.\<close>

definition last_bytes :: "nat \<Rightarrow> bytes \<Rightarrow> bytes" where
  "last_bytes n bs = drop (length bs - n) bs"

definition tap_push :: "response_tap \<Rightarrow> bytes \<Rightarrow> response_tap" where
  "tap_push t chunk =
     (let into_head = min (HEAD_CAP - length (rt_head t)) (length chunk);
          t = t\<lparr>rt_head := rt_head t @ take into_head chunk\<rparr>;
          rest = drop into_head chunk
      in if rest = [] then t
         else if length rest \<ge> TAIL_CAP
         then t\<lparr>rt_gap := rt_gap t \<or> rt_tail t \<noteq> [] \<or> length rest > TAIL_CAP,
                rt_tail := last_bytes TAIL_CAP rest\<rparr>
         else let t = t\<lparr>rt_tail := rt_tail t @ rest\<rparr>
              in if length (rt_tail t) > 2 * TAIL_CAP
                 then t\<lparr>rt_tail := last_bytes TAIL_CAP (rt_tail t), rt_gap := True\<rparr>
                 else t)"

definition tap_usage :: "(bytes \<Rightarrow> json_object option) \<Rightarrow> response_tap \<Rightarrow> usage" where
  "tap_usage parse t =
     fields_usage
       (if rt_gap t then scan parse (scan parse no_fields (rt_head t)) (rt_tail t)
        else scan parse no_fields (rt_head t @ rt_tail t))"

subsection \<open>The tap refines a reading of the whole body\<close>

text \<open>
  What a tap that has seen \<open>body\<close> holds: its head, and either everything or a suffix of between
  one and two tail caps.
\<close>

definition tap_holds :: "response_tap \<Rightarrow> bytes \<Rightarrow> bool" where
  "tap_holds t body \<longleftrightarrow>
     rt_head t = take HEAD_CAP body
     \<and> length (rt_tail t) \<le> 2 * TAIL_CAP
     \<and> suffix (rt_tail t) (drop HEAD_CAP body)
     \<and> (if rt_gap t then TAIL_CAP \<le> length (rt_tail t) \<and> HEAD_CAP + length (rt_tail t) < length body
        else rt_tail t = drop HEAD_CAP body)"

lemma tap_holds_new: "tap_holds new_tap []"
  by (simp add: tap_holds_def new_tap_def)

lemma suffix_last_bytes: "suffix (last_bytes n bs) bs"
  by (simp add: last_bytes_def suffix_drop)

lemma length_last_bytes: "n \<le> length bs \<Longrightarrow> length (last_bytes n bs) = n"
  by (simp add: last_bytes_def)

lemma caps_pos: "0 < HEAD_CAP" "0 < TAIL_CAP"
  by (simp_all add: HEAD_CAP_def TAIL_CAP_def)

lemma suffix_append_same: "suffix xs ys \<Longrightarrow> suffix (xs @ zs) (ys @ zs)"
  by (auto simp: suffix_def)

lemma tap_holds_push:
  assumes "tap_holds t body"
  shows "tap_holds (tap_push t chunk) (body @ chunk)"
proof -
  define into where "into = min (HEAD_CAP - length (rt_head t)) (length chunk)"
  define rest where "rest = drop into chunk"
  define whole where "whole = body @ chunk"
  have head: "rt_head t @ take into chunk = take HEAD_CAP whole"
    using assms by (auto simp: tap_holds_def into_def whole_def min_def)
  have below: "drop HEAD_CAP whole = drop HEAD_CAP body @ rest"
    using assms by (auto simp: tap_holds_def into_def rest_def whole_def min_def)
  have push: "tap_push t chunk =
      (let t = t\<lparr>rt_head := take HEAD_CAP whole\<rparr>
       in if rest = [] then t
          else if length rest \<ge> TAIL_CAP
          then t\<lparr>rt_gap := rt_gap t \<or> rt_tail t \<noteq> [] \<or> length rest > TAIL_CAP,
                 rt_tail := last_bytes TAIL_CAP rest\<rparr>
          else let t = t\<lparr>rt_tail := rt_tail t @ rest\<rparr>
               in if length (rt_tail t) > 2 * TAIL_CAP
                  then t\<lparr>rt_tail := last_bytes TAIL_CAP (rt_tail t), rt_gap := True\<rparr>
                  else t)"
    unfolding tap_push_def head[symmetric] into_def[symmetric] rest_def[symmetric] Let_def by simp
  have suf: "suffix (rt_tail t) (drop HEAD_CAP body)" using assms by (simp add: tap_holds_def)
  have len: "length whole - HEAD_CAP = length body - HEAD_CAP + length rest"
    using arg_cong[OF below, of length] by simp
  have grows: "length body \<le> length whole" by (simp add: whole_def)
  consider (none) "rest = []" | (large) "rest \<noteq> []" "TAIL_CAP \<le> length rest"
    | (trim) "rest \<noteq> []" "length rest < TAIL_CAP" "2 * TAIL_CAP < length (rt_tail t @ rest)"
    | (keep) "rest \<noteq> []" "length rest < TAIL_CAP" "length (rt_tail t @ rest) \<le> 2 * TAIL_CAP"
    by linarith
  then have "tap_holds (tap_push t chunk) whole"
  proof cases
    case none
    then show ?thesis using assms grows by (auto simp: push tap_holds_def below)
  next
    case large
    then show ?thesis using assms len caps_pos suf
      by (auto simp: push tap_holds_def below length_last_bytes last_bytes_def
          intro: suffix_appendI suffix_drop split: if_splits)
  next
    case trim
    have "suffix (last_bytes TAIL_CAP (rt_tail t @ rest)) (drop HEAD_CAP body @ rest)"
      using suffix_order.trans[OF suffix_last_bytes suffix_append_same[OF suf]] .
    with trim show ?thesis using assms len
      by (auto simp: push tap_holds_def below length_last_bytes Let_def dest: suffix_length_le split: if_splits)
  next
    case keep
    then show ?thesis using assms suf len
      by (auto simp: push tap_holds_def below suffix_append_same split: if_splits)
  qed
  then show ?thesis by (simp only: whole_def)
qed

lemma tap_holds_all: "tap_holds t body \<Longrightarrow> tap_holds (foldl tap_push t chunks) (body @ concat chunks)"
proof (induction chunks arbitrary: t body)
  case (Cons c cs)
  from Cons.IH[OF tap_holds_push[OF Cons.prems, of c]] show ?case by simp
qed simp


text \<open>
  The specification: a body that is short enough is read whole, a longer one at its two ends, the
  second of which is \<open>m\<close> bytes.
\<close>

definition read_ends :: "(bytes \<Rightarrow> json_object option) \<Rightarrow> nat \<Rightarrow> bytes \<Rightarrow> usage" where
  "read_ends parse m body =
     fields_usage
       (if length body \<le> HEAD_CAP + m then scan parse no_fields body
        else scan parse (scan parse no_fields (take HEAD_CAP body)) (last_bytes m body))"

lemma suffix_last_bytes_eq: "suffix xs ys \<Longrightarrow> xs = last_bytes (length xs) ys"
  by (auto simp: suffix_def last_bytes_def)

lemma tap_holds_usage:
  assumes "tap_holds t body"
  shows "\<exists>m \<in> {TAIL_CAP..2 * TAIL_CAP}. tap_usage parse t = read_ends parse m body"
proof (cases "rt_gap t")
  case True
  have "suffix (rt_tail t) body"
    using assms suffix_order.trans[OF _ suffix_drop] by (auto simp: tap_holds_def)
  then have "rt_tail t = last_bytes (length (rt_tail t)) body" by (rule suffix_last_bytes_eq)
  with True assms show ?thesis
    by (intro bexI[of _ "length (rt_tail t)"]) (auto simp: tap_holds_def tap_usage_def read_ends_def)
next
  case False
  with assms have "rt_head t @ rt_tail t = body" "length body \<le> HEAD_CAP + max TAIL_CAP (length (rt_tail t))"
    by (auto simp: tap_holds_def)
  with False assms show ?thesis
    by (intro bexI[of _ "max TAIL_CAP (length (rt_tail t))"])
      (auto simp: tap_holds_def tap_usage_def read_ends_def)
qed

text \<open>
  C37. The tap refines a reading of the whole body. However the response is cut into chunks, what is
  read at its end is what the first 4 KiB and the last \<open>m\<close> bytes of the body say, for some \<open>m\<close>
  from 8 to 16 KiB that the cuts decide, and a body that fits both ends is read whole. So a body of
  at most 12 KiB is read the same whatever the cuts; and the tap never holds more than 20 KiB.
\<close>

theorem tap_refines_body:
  defines "tap \<equiv> foldl tap_push new_tap"
  shows "(\<exists>m \<in> {TAIL_CAP..2 * TAIL_CAP}. tap_usage parse (tap chunks) = read_ends parse m (concat chunks))
    \<and> (length (concat chunks) \<le> HEAD_CAP + TAIL_CAP \<longrightarrow>
         tap_usage parse (tap chunks) = fields_usage (scan parse no_fields (concat chunks)))
    \<and> length (rt_head (tap chunks)) + length (rt_tail (tap chunks)) \<le> 20 * 1024"
proof -
  have holds: "tap_holds (tap chunks) (concat chunks)"
    using tap_holds_all[OF tap_holds_new, of chunks] by (simp add: tap_def)
  from tap_holds_usage[OF this] obtain m where
    m: "m \<in> {TAIL_CAP..2 * TAIL_CAP}" "tap_usage parse (tap chunks) = read_ends parse m (concat chunks)" ..
  moreover have "length (rt_head (tap chunks)) + length (rt_tail (tap chunks)) \<le> 20 * 1024"
    using holds by (auto simp: tap_holds_def HEAD_CAP_def TAIL_CAP_def)
  ultimately show ?thesis by (auto simp: read_ends_def)
qed

subsection \<open>Speeds\<close>

definition speed_ok :: "fp option \<Rightarrow> bool" where
  "speed_ok v \<longleftrightarrow> (\<forall>x. v = Some x \<longrightarrow> positive_upto 1000000 x)"

lemma usable_speed_ok: "speed_ok (usable_speed v)"
  using positive_upto_iff[of v 1000000]
  by (auto simp: usable_speed_def speed_ok_def SPEED_CEILING_def split: if_splits)

lemma speed_ok_None [simp]: "speed_ok None"
  by (simp add: speed_ok_def)

lemma speed_ok_or_else: "speed_ok a \<Longrightarrow> speed_ok b \<Longrightarrow> speed_ok (or_else a b)"
  by (cases a) simp_all

lemma rate_ok: "speed_ok (rate ob key)"
  by (cases "Option.bind (map_of ob key) json_f64") (auto simp: rate_def usable_speed_ok)

definition fields_ok :: "tap_fields \<Rightarrow> bool" where
  "fields_ok f \<longleftrightarrow>
     speed_ok (tf_usage_tps f) \<and> speed_ok (tf_usage_prefill_tps f) \<and> speed_ok (tf_timings_tps f)
     \<and> speed_ok (tf_metrics_tps f)"

lemmas speed_oks = fields_ok_def set_slot_def speed_ok_or_else rate_ok usable_speed_ok

lemma foldl_fields_ok:
  "(\<And>f ob. fields_ok f \<Longrightarrow> fields_ok (g f ob)) \<Longrightarrow> fields_ok f \<Longrightarrow> fields_ok (foldl g f obs)"
  by (induction obs arbitrary: f) auto

lemma scan_ok: "fields_ok f \<Longrightarrow> fields_ok (scan parse f buf)"
  unfolding scan_def
  by (intro foldl_fields_ok)
    (auto simp: read_usage_def read_timings_def read_metrics_def speed_oks)

definition usage_ok :: "usage \<Rightarrow> bool" where
  "usage_ok u \<longleftrightarrow> speed_ok (us_tokens_per_second u) \<and> speed_ok (us_prefill_tokens_per_second u)"

lemma fields_usage_ok: "fields_ok f \<Longrightarrow> usage_ok (fields_usage f)"
  unfolding usage_ok_def fields_usage_def Let_def
  by (auto simp: speed_oks split: option.split)

lemma tap_usage_ok: "usage_ok (tap_usage parse t)"
  unfolding tap_usage_def by (auto intro!: fields_usage_ok scan_ok simp: fields_ok_def no_fields_def)

lemma estimates_ok:
  "usage_ok u \<Longrightarrow> usage_ok (estimate_speed w u)" "usage_ok u \<Longrightarrow> usage_ok (estimate_prefill w u)"
  using usable_speed_ok
  by (auto simp: usage_ok_def estimate_speed_def estimate_prefill_def speed_ok_def split: option.splits)

text \<open>
  Whatever a server sends and however long the proxy measured, a speed that reaches a request
  row is a positive finite number of at most a million tokens per second; an estimate replaces no
  speed the server reported, and is marked as one exactly when it was made.
\<close>

theorem usage_speeds_sound:
  defines "row parse t w w' \<equiv> estimate_prefill w' (estimate_speed w (tap_usage parse t))"
  shows "usage_ok (row parse t w w')
    \<and> us_tokens_per_second_estimated (row parse t w w')
        = (us_tokens_per_second (tap_usage parse t) = None \<and> us_tokens_per_second (row parse t w w') \<noteq> None)
    \<and> us_prefill_estimated (row parse t w w')
        = (us_prefill_tokens_per_second (tap_usage parse t) = None
            \<and> us_prefill_tokens_per_second (row parse t w w') \<noteq> None)
    \<and> or_else (us_tokens_per_second (tap_usage parse t)) (us_tokens_per_second (row parse t w w'))
        = us_tokens_per_second (row parse t w w')
    \<and> or_else (us_prefill_tokens_per_second (tap_usage parse t)) (us_prefill_tokens_per_second (row parse t w w'))
        = us_prefill_tokens_per_second (row parse t w w')"
proof -
  have fresh: "\<not> us_tokens_per_second_estimated (tap_usage parse t)" "\<not> us_prefill_estimated (tap_usage parse t)"
    by (simp_all add: tap_usage_def fields_usage_def Let_def)
  have ok: "usage_ok (row parse t w w')" by (simp add: row_def tap_usage_ok estimates_ok)
  show ?thesis
    by (intro conjI ok; use fresh in \<open>auto simp: row_def estimate_speed_def estimate_prefill_def split: option.splits\<close>)
qed

text \<open>A reader that finds seven prompt tokens wherever an object starts.\<close>

definition sample_parse :: "bytes \<Rightarrow> json_object option" where
  "sample_parse buf = (if starts_with buf (of_str ''{'') then Some [(''prompt_tokens'', JNumber (PosInt 7))] else None)"

definition sample_chunks :: "bytes list" where
  "sample_chunks = [of_str ''{'' @ quote # of_str ''usa'', of_str ''ge'' @ quote # of_str '': {'', of_str ''}}'']"

theorem tap_refines_body_witness:
  "us_prompt_tokens (tap_usage sample_parse (foldl tap_push new_tap sample_chunks)) = Some 7"
proof -
  have "length (concat sample_chunks) \<le> HEAD_CAP + TAIL_CAP"
    by (simp add: sample_chunks_def HEAD_CAP_def TAIL_CAP_def)
  then have "tap_usage sample_parse (foldl tap_push new_tap sample_chunks)
      = fields_usage (scan sample_parse no_fields (concat sample_chunks))"
    using tap_refines_body[of sample_parse sample_chunks] by simp
  moreover have "us_prompt_tokens (fields_usage (scan sample_parse no_fields (concat sample_chunks))) = Some 7"
    by code_simp
  ultimately show ?thesis by simp
qed

end
