(* ===== verification/Llama_Compose.thy ===== *)
theory Llama_Compose
  imports Knob_Shipped Gguf_Metadata
begin

text \<open>
  What a launch is made of and the command line \<open>llama-server\<close> gets: \<open>src/launch/params.rs\<close>
  (\<open>LaunchParams\<close>), \<open>src/launch/mode.rs\<close>, \<open>src/backend/llama_cpp/compose.rs\<close> and the dialects of
  \<open>caps.rs\<close>. Running the binary for its help text is a parameter (the text). Shown: the last
  \<open>--host\<close> and \<open>--port\<close> on the command line are the product's own, whatever knobs and extra
  arguments the user passes.
\<close>

subsection \<open>Modes\<close>

datatype launch_mode = ModeChat | ModeEmbedding | ModeRerank | ModeImage | ModeTts | ModeStt

definition launch_mode_from_label :: "string \<Rightarrow> launch_mode option" where
  "launch_mode_from_label s =
     (if s = ''chat'' then Some ModeChat
      else if s = ''embedding'' then Some ModeEmbedding
      else if s = ''rerank'' then Some ModeRerank
      else if s = ''image'' then Some ModeImage
      else if s = ''tts'' then Some ModeTts
      else if s = ''stt'' then Some ModeStt
      else None)"

fun launch_mode_label :: "launch_mode \<Rightarrow> string" where
  "launch_mode_label ModeChat = ''chat''"
| "launch_mode_label ModeEmbedding = ''embedding''"
| "launch_mode_label ModeRerank = ''rerank''"
| "launch_mode_label ModeImage = ''image''"
| "launch_mode_label ModeTts = ''tts''"
| "launch_mode_label ModeStt = ''stt''"

definition is_declared_only :: "launch_mode \<Rightarrow> bool" where
  "is_declared_only m \<longleftrightarrow> m \<in> {ModeImage, ModeTts, ModeStt}"

fun mode_hint_of :: "launch_mode \<Rightarrow> mode_hint" where
  "mode_hint_of ModeChat = Chat"
| "mode_hint_of ModeEmbedding = Embedding"
| "mode_hint_of ModeRerank = Rerank"
| "mode_hint_of ModeImage = Image"
| "mode_hint_of ModeTts = Tts"
| "mode_hint_of ModeStt = Stt"

definition resolve_mode :: "launch_mode option \<Rightarrow> mode_hint \<Rightarrow> launch_mode option" where
  "resolve_mode override_mode hint =
     (case override_mode of
        Some m \<Rightarrow> Some m
      | None \<Rightarrow>
          (case hint of
             Chat \<Rightarrow> Some ModeChat
           | Embedding \<Rightarrow> Some ModeEmbedding
           | Rerank \<Rightarrow> Some ModeRerank
           | ModeUnknown \<Rightarrow> None
           | _ \<Rightarrow> Some ModeChat))"

lemma launch_mode_label_roundtrip: "launch_mode_from_label (launch_mode_label m) = Some m"
  by (cases m) (simp_all add: launch_mode_from_label_def)

subsection \<open>Launch parameters\<close>

record launch_params =
  lp_model_path :: string
  lp_mode :: launch_mode
  lp_ctx :: "nat option"
  lp_port :: "nat option"
  lp_reasoning :: bool
  lp_knobs :: knob_set
  lp_extras :: "string list"
  lp_mmproj_path :: "string option"
  lp_backend :: backend_choice
  lp_server :: "string option"
  lp_launch_config :: "(string \<times> string) list"
  lp_mtp_directive :: "mtp_directive option"

definition new_params :: "string \<Rightarrow> launch_mode \<Rightarrow> launch_params" where
  "new_params path mode =
     \<lparr>lp_model_path = path, lp_mode = mode, lp_ctx = None, lp_port = None, lp_reasoning = False,
      lp_knobs = fmempty, lp_extras = [], lp_mmproj_path = None, lp_backend = AutoBackend,
      lp_server = None, lp_launch_config = [], lp_mtp_directive = None\<rparr>"

definition mtp_intent :: "knob_registry \<Rightarrow> launch_params \<Rightarrow> mtp_enable" where
  "mtp_intent r p =
     (case get_by_name r None (lp_knobs p) ''mtp'' of
        Some (KSet (ScBool True)) \<Rightarrow> MtpOn
      | Some (KSet (ScBool False)) \<Rightarrow> MtpOff
      | _ \<Rightarrow> MtpAuto)"

definition mtp_store :: "knob_registry \<Rightarrow> mtp_enable \<Rightarrow> knob_set \<Rightarrow> knob_set" where
  "mtp_store r m knobs = snd (set_scoped r None ''mtp'' (mtp_label m) knobs)"

subsection \<open>Dialects of the load mode\<close>

datatype load_mode_dialect = EnumDialect | FlagsDialect

definition dialect_from_help :: "string \<Rightarrow> load_mode_dialect" where
  "dialect_from_help help = (if str_contains help ''--load-mode'' then EnumDialect else FlagsDialect)"

text \<open>The probe: the help text, standard output before standard error, or that it failed.\<close>

definition dialect_probe :: "(string \<times> string) option \<Rightarrow> load_mode_dialect" where
  "dialect_probe run =
     (case run of Some (out, err) \<Rightarrow> dialect_from_help (out @ err) | None \<Rightarrow> FlagsDialect)"

fun dialect_label :: "load_mode_dialect \<Rightarrow> string" where
  "dialect_label EnumDialect = ''enum''"
| "dialect_label FlagsDialect = ''flags''"

definition dialect_from_label :: "string option \<Rightarrow> load_mode_dialect" where
  "dialect_from_label l = (if l = Some ''enum'' then EnumDialect else FlagsDialect)"

lemma dialect_label_roundtrip: "dialect_from_label (Some (dialect_label d)) = d"
  by (cases d) (simp_all add: dialect_from_label_def)

definition LLAMACPP_KNOB_LOAD_MODE_DIALECT :: string where
  "LLAMACPP_KNOB_LOAD_MODE_DIALECT = ''load_mode_dialect''"

subsection \<open>Composition\<close>

definition load_mode_argv :: "knob_registry \<Rightarrow> launch_params \<Rightarrow> string list" where
  "load_mode_argv r p =
     (case text_by_name r None (lp_knobs p) ''load-mode'' of
        None \<Rightarrow> []
      | Some mode \<Rightarrow>
          if mode = ''auto'' then []
          else (case dialect_from_label (map_of (lp_launch_config p) LLAMACPP_KNOB_LOAD_MODE_DIALECT) of
                  EnumDialect \<Rightarrow> [''--load-mode'', mode]
                | FlagsDialect \<Rightarrow>
                    if mode = ''none'' then [''--no-mmap'']
                    else if mode = ''mmap'' then [''--mmap'']
                    else if mode = ''mlock'' then [''--mlock'']
                    else if mode = ''mmap+mlock'' then [''--mmap'', ''--mlock'']
                    else if mode = ''dio'' then [''-dio'']
                    else []))"

definition mode_argv :: "launch_mode \<Rightarrow> string list" where
  "mode_argv m = (case m of ModeEmbedding \<Rightarrow> [''--embeddings''] | ModeRerank \<Rightarrow> [''--reranking''] | _ \<Rightarrow> [])"

definition mtp_argv :: "launch_params \<Rightarrow> string list" where
  "mtp_argv p =
     (case lp_mtp_directive p of
        None \<Rightarrow> []
      | Some mtp \<Rightarrow>
          [''--spec-type'', ''draft-mtp'']
          @ (case md_draft_model mtp of Some draft \<Rightarrow> [''--model-draft'', draft] | None \<Rightarrow> [])
          @ (case Option.bind (Option.bind (ks_get (lp_knobs p) ''mtp-draft-n'') set_value) as_u32 of
               Some n \<Rightarrow> [''--spec-draft-n-max'', show_nat n] | None \<Rightarrow> []))"

definition ctx_argv :: "launch_params \<Rightarrow> string list" where
  "ctx_argv p =
     (case lp_ctx p of
        Some ctx \<Rightarrow> [''-c'', show_nat ctx]
      | None \<Rightarrow>
          (case Option.bind (map_of (lp_launch_config p) ''fit_ctx_floor'') (parse_unsigned u32_max) of
             Some least \<Rightarrow> [''--fit-ctx'', show_nat least]
           | None \<Rightarrow> []))"

definition device_argv :: "knob_registry \<Rightarrow> launch_params \<Rightarrow> string list" where
  "device_argv r p =
     (case text_by_name r None (lp_knobs p) ''device'' of
        Some sel \<Rightarrow> if sel \<noteq> [] then [''--device'', sel] else []
      | None \<Rightarrow> [])"

definition compose :: "knob_registry \<Rightarrow> launch_params \<Rightarrow> nat \<Rightarrow> string list" where
  "compose r p port =
     (let knob_argv = emit_argv r ''llamacpp'' (lp_knobs p) [] @ device_argv r p;
          jinja = map_of (lp_launch_config p) ''jinja'' = Some ''true''
      in [''--host'', ''127.0.0.1'', ''--port'', show_nat port, ''-m'', lp_model_path p]
         @ (case lp_mmproj_path p of Some f \<Rightarrow> [''--mmproj'', f] | None \<Rightarrow> [])
         @ mode_argv (lp_mode p)
         @ (if jinja \<or> lp_reasoning p then [''--jinja''] else [])
         @ load_mode_argv r p
         @ (if lp_reasoning p then [''--reasoning-format'', ''deepseek''] else [])
         @ mtp_argv p
         @ ctx_argv p
         @ knob_argv
         @ strip_forbidden_extras (lp_extras p) [] [])"

subsection \<open>A value without a denied token has no denied head\<close>

lemma find_white_printable:
  assumes "printable c"
  shows "List.find (starts_with (c # s)) white_spellings = None"
  using assms white_heads(1) by (fastforce simp: find_None_iff starts_with_iff)

lemma split_white_past_printable:
  "list_all printable u \<Longrightarrow> length u \<le> n \<Longrightarrow>
     split_white n piece (u @ r) = split_white (n - length u) (piece @ u) r"
proof (induction u arbitrary: n piece)
  case (Cons c u)
  then obtain m where "n = Suc m" "length u \<le> m" by (cases n) auto
  with Cons show ?case by (simp add: find_white_printable)
qed simp

lemma split_white_first:
  "piece \<noteq> [] \<Longrightarrow> \<exists>u ps. split_white n piece s = (piece @ u) # ps \<and> prefix u s"
proof (induction n piece s rule: split_white.induct)
  case (3 n piece c cs)
  show ?case
  proof (cases "List.find (starts_with (c # cs)) white_spellings")
    case None
    with 3 show ?thesis by fastforce
  next
    case (Some w)
    with 3(3) show ?thesis by (auto intro: exI[of _ "[]"])
  qed
qed simp_all

lemma first_token:
  assumes "u \<noteq> []" "list_all printable u"
  shows "\<exists>v ps. split_whitespace (u @ r) = (u @ v) # ps \<and> prefix v r"
proof -
  have "split_whitespace (u @ r) = split_white (length r) u r"
    using split_white_past_printable[OF assms(2), of "length (u @ r)" "[]" r] by (simp add: split_whitespace_def)
  with split_white_first[OF assms(1)] show ?thesis by simp
qed


lemma printable_of_lower: "printable (ascii_lower_char c) \<Longrightarrow> printable c"
  by (cases "65 \<le> (of_char c :: nat) \<and> (of_char c :: nat) \<le> 90")
    (auto simp: ascii_lower_char_def printable_def Let_def)

lemma printable_prefix_of_lower:
  "list_all printable p \<Longrightarrow> starts_with (ascii_lower h) p \<Longrightarrow> list_all printable (take (length p) h)"
proof (induction p arbitrary: h)
  case (Cons c p)
  then show ?case by (cases h) (auto simp: ascii_lower_def intro: printable_of_lower)
qed simp

lemma forbidden_spellings:
  "p \<in> set FORBIDDEN_ADVANCED_PREFIXES \<Longrightarrow> list_all printable p \<and> p \<noteq> [] \<and> CHR ''='' \<notin> set p \<and> ascii_lower p = p"
proof -
  have "list_all (\<lambda>p. list_all printable p \<and> p \<noteq> [] \<and> CHR ''='' \<notin> set p \<and> ascii_lower p = p)
    FORBIDDEN_ADVANCED_PREFIXES" by code_simp
  then show "p \<in> set FORBIDDEN_ADVANCED_PREFIXES \<Longrightarrow> ?thesis" by (auto simp: list_all_iff)
qed

lemma forbidden_head_prefix:
  "is_forbidden_head_ext h [] \<longleftrightarrow>
     (\<exists>p \<in> set FORBIDDEN_ADVANCED_PREFIXES.
        ascii_lower h = p \<or> (ends_with p ''-'' \<and> starts_with (ascii_lower h) p))"
  using forbidden_spellings
  by (auto simp: is_forbidden_head_ext_def is_forbidden_head_def head_hits_prefixes_def Let_def list_ex_iff)


lemma lower_dash: "ascii_lower_char c = CHR ''-'' \<longleftrightarrow> c = CHR ''-''"
proof
  assume a: "ascii_lower_char c = CHR ''-''"
  show "c = CHR ''-''"
  proof (cases "65 \<le> (of_char c :: nat) \<and> (of_char c :: nat) \<le> 90")
    case True
    with a have "of_char (char_of (of_char c + 32 :: nat)) = (of_char CHR ''-'' :: nat)"
      by (simp add: ascii_lower_char_def Let_def)
    with True show ?thesis by (simp add: of_char_of)
  next
    case False
    with a show ?thesis by (auto simp: ascii_lower_char_def Let_def split: if_splits)
  qed
qed (simp add: ascii_lower_char_def)

lemma before_append_clean: "d \<notin> set u \<Longrightarrow> before d (u @ v) = u @ before d v"
  by (induction u) (auto simp: before_def)

lemma arg_head_rest:
  obtains r where "e = arg_head e @ r" "r = [] \<or> hd r = CHR ''=''" "CHR ''='' \<notin> set (arg_head e)"
proof -
  have "e = arg_head e @ dropWhile (\<lambda>c. c \<noteq> CHR ''='') e" by (simp add: arg_head_def before_def)
  moreover have "dropWhile (\<lambda>c. c \<noteq> CHR ''='') e = [] \<or> hd (dropWhile (\<lambda>c. c \<noteq> CHR ''='') e) = CHR ''=''"
    using hd_dropWhile[of "\<lambda>c. c \<noteq> CHR ''=''" e] by blast
  moreover have "CHR ''='' \<notin> set (arg_head e)" by (auto simp: arg_head_def before_def dest: set_takeWhileD)
  ultimately show thesis by (rule that)
qed

lemma forbidden_smuggles:
  assumes "is_forbidden_head_ext (arg_head e) []"
  shows "smuggles [] e"
proof -
  obtain p where p: "p \<in> set FORBIDDEN_ADVANCED_PREFIXES"
    and hit: "ascii_lower (arg_head e) = p \<or> (ends_with p ''-'' \<and> starts_with (ascii_lower (arg_head e)) p)"
    using assms forbidden_head_prefix by blast
  obtain r where e: "e = arg_head e @ r" and r: "r = [] \<or> hd r = CHR ''=''"
    and clean: "CHR ''='' \<notin> set (arg_head e)" by (rule arg_head_rest)
  define u where "u = take (length p) (arg_head e)"
  define w where "w = drop (length p) (arg_head e) @ r"
  have sp: "list_all printable p" "p \<noteq> []" "CHR ''-'' = hd p" using forbidden_spellings[OF p] p
    by (auto simp: FORBIDDEN_ADVANCED_PREFIXES_def)
  have starts: "starts_with (ascii_lower (arg_head e)) p" using hit by (auto simp: starts_with_iff)
  have lower_u: "ascii_lower u = p"
    using starts by (auto simp: u_def ascii_lower_def starts_with_iff simp flip: take_map)
  have u: "u \<noteq> []" "list_all printable u" "CHR ''='' \<notin> set u"
    using lower_u sp printable_prefix_of_lower[OF sp(1) starts] clean
    by (auto simp: u_def ascii_lower_def dest: in_set_takeD)
  have dash: "hd u = CHR ''-''"
  proof -
    have "ascii_lower_char (hd u) = hd p" using lower_u u(1) by (auto simp: ascii_lower_def hd_map)
    with sp(3) lower_dash show ?thesis by simp
  qed
  obtain v ps where tok: "split_whitespace e = (u @ v) # ps" and v: "prefix v w"
    using first_token[OF u(1,2), of w] e by (auto simp: u_def w_def simp flip: append_assoc)
  have head: "arg_head (u @ v) = u @ before CHR ''='' v"
    using u(3) by (simp add: arg_head_def before_append_clean)
  have "is_forbidden_head_ext (arg_head (u @ v)) []"
  proof (cases "ascii_lower (arg_head e) = p")
    case True
    then have "length (arg_head e) = length p" by (auto simp: ascii_lower_def)
    then have "u = arg_head e" "w = r" by (simp_all add: u_def w_def)
    with v r have "before CHR ''='' v = []" by (cases v) (auto simp: before_def prefix_def)
    with True show ?thesis using head \<open>u = arg_head e\<close> assms by simp
  next
    case False
    with hit have "ends_with p ''-''" by blast
    with p lower_u head show ?thesis
      unfolding forbidden_head_prefix by (auto simp: ascii_lower_append starts_with_iff)
  qed
  moreover have "starts_with (arg_head (u @ v)) ''-''" using head dash u(1) by (cases u) simp_all
  ultimately show ?thesis by (simp add: smuggles_def tok)
qed


lemma emit_argv_heads:
  assumes "e \<in> set (emit_argv (shipped runtime) ''llamacpp'' knobs [])"
  shows "\<not> is_forbidden_head_ext (arg_head e) []"
proof
  assume "is_forbidden_head_ext (arg_head e) []"
  from forbidden_smuggles[OF this] obtain tok where tok: "tok \<in> set (split_whitespace e)"
    and head: "starts_with (arg_head tok) ''-''" "is_forbidden_head_ext (arg_head tok) []"
    unfolding smuggles_def list_ex_iff by blast
  obtain r where "tok = arg_head tok @ r" by (rule arg_head_rest)
  then have "starts_with tok ''-''" using head(1) by (metis append.assoc starts_with_iff)
  moreover have "''llamacpp'' \<in> fst ` set compiled_in" by (simp add: compiled_in_def)
  ultimately show False
    using emit_argv_safe[OF shipped_plain assms tok] head(2) by blast
qed

subsection \<open>The command line stays the product's\<close>

text \<open>The value the engine takes for a flag: the one after its last occurrence.\<close>

fun last_value :: "string \<Rightarrow> string list \<Rightarrow> string option" where
  "last_value f [] = None"
| "last_value f [a] = None"
| "last_value f (a # b # es) = or_else (last_value f (b # es)) (if a = f then Some b else None)"

lemma last_value_none: "f \<notin> set es \<Longrightarrow> last_value f es = None"
  by (induction f es rule: last_value.induct) auto

lemma last_value_first:
  "f \<notin> set (b # es) \<Longrightarrow> last_value f (f # b # es) = Some b"
  by (simp add: last_value_none)


fun opt_all :: "('a \<Rightarrow> bool) \<Rightarrow> 'a option \<Rightarrow> bool" where
  "opt_all f None = True"
| "opt_all f (Some x) = f x"

text \<open>The paths of a launch are absolute and its device is no denied flag.\<close>

definition launch_clean :: "knob_registry \<Rightarrow> launch_params \<Rightarrow> bool" where
  "launch_clean r p \<longleftrightarrow>
     starts_with (lp_model_path p) ''/''
     \<and> opt_all (\<lambda>f. starts_with f ''/'') (lp_mmproj_path p)
     \<and> opt_all (\<lambda>m. opt_all (\<lambda>f. starts_with f ''/'') (md_draft_model m)) (lp_mtp_directive p)
     \<and> opt_all (\<lambda>d. \<not> is_forbidden_head_ext (arg_head d) []) (text_by_name r None (lp_knobs p) ''device'')
     \<and> opt_all (\<lambda>m. \<not> is_forbidden_head_ext (arg_head m) []) (text_by_name r None (lp_knobs p) ''load-mode'')"

definition open_head :: "string \<Rightarrow> bool" where
  "open_head e \<longleftrightarrow> is_forbidden_head_ext (arg_head e) []"

lemma open_head_host: "open_head ''--host''" "open_head ''--port''"
  by (simp_all only: open_head_def) code_simp+

lemma open_head_own:
  "list_all (\<lambda>e. \<not> open_head e)
     [''127.0.0.1'', ''-m'', ''--mmproj'', ''--embeddings'', ''--reranking'', ''--jinja'', ''--load-mode'',
      ''--no-mmap'', ''--mmap'', ''--mlock'', ''-dio'', ''--reasoning-format'', ''deepseek'', ''--spec-type'',
      ''draft-mtp'', ''--model-draft'', ''--spec-draft-n-max'', ''-c'', ''--fit-ctx'', ''--device'']"
  unfolding open_head_def by code_simp

lemma open_head_dash: "open_head e \<Longrightarrow> starts_with e ''-''"
proof -
  assume "open_head e"
  then obtain p where p: "p \<in> set FORBIDDEN_ADVANCED_PREFIXES" "starts_with (ascii_lower (arg_head e)) p"
    unfolding open_head_def forbidden_head_prefix by (auto simp: starts_with_iff)
  then obtain c cs where "arg_head e = c # cs" "ascii_lower_char c = CHR ''-''"
    by (cases "arg_head e") (auto simp: FORBIDDEN_ADVANCED_PREFIXES_def ascii_lower_def)
  moreover obtain r where "e = arg_head e @ r" by (rule arg_head_rest)
  ultimately show "starts_with e ''-''" by (metis append_Cons lower_dash starts_with.simps)
qed


lemma slash_closed: "starts_with f ''/'' \<Longrightarrow> \<not> open_head f"
  using open_head_dash[of f] by (cases f) auto

lemma show_nat_closed: "\<not> open_head (show_nat n)"
proof
  assume "open_head (show_nat n)"
  then have "starts_with (show_nat n) ''-''" by (rule open_head_dash)
  moreover have "list_all is_digit (show_nat n)" by (rule show_nat_digits)
  ultimately show False by (cases "show_nat n") (auto simp: is_digit_def)
qed

lemmas closed_parts = open_head_own[simplified] slash_closed show_nat_closed

lemma own_parts_closed:
  assumes "launch_clean (shipped runtime) p"
  shows "list_all (\<lambda>e. \<not> open_head e) (mode_argv m)"
    and "list_all (\<lambda>e. \<not> open_head e) (load_mode_argv (shipped runtime) p)"
    and "list_all (\<lambda>e. \<not> open_head e) (mtp_argv p)"
    and "list_all (\<lambda>e. \<not> open_head e) (ctx_argv p)"
    and "list_all (\<lambda>e. \<not> open_head e) (device_argv (shipped runtime) p)"
proof -
  show "list_all (\<lambda>e. \<not> open_head e) (mode_argv m)"
    by (cases m) (simp_all add: mode_argv_def closed_parts)
  note clean = assms[unfolded launch_clean_def, folded open_head_def]
  show "list_all (\<lambda>e. \<not> open_head e) (load_mode_argv (shipped runtime) p)"
    using clean
    by (cases "text_by_name (shipped runtime) None (lp_knobs p) ''load-mode''";
        cases "dialect_from_label (map_of (lp_launch_config p) LLAMACPP_KNOB_LOAD_MODE_DIALECT)")
      (simp_all add: load_mode_argv_def closed_parts)
  show "list_all (\<lambda>e. \<not> open_head e) (mtp_argv p)"
  proof (cases "lp_mtp_directive p")
    case (Some m)
    then show ?thesis using clean
      by (cases "md_draft_model m") (simp_all add: mtp_argv_def closed_parts split: option.split)
  qed (simp add: mtp_argv_def)
  show "list_all (\<lambda>e. \<not> open_head e) (ctx_argv p)"
    by (simp add: ctx_argv_def closed_parts split: option.split)
  show "list_all (\<lambda>e. \<not> open_head e) (device_argv (shipped runtime) p)"
    using clean
    by (cases "text_by_name (shipped runtime) None (lp_knobs p) ''device''")
      (simp_all add: device_argv_def closed_parts)
qed

lemma compose_rest:
  assumes "launch_clean (shipped runtime) p"
  obtains rest where "compose (shipped runtime) p port
      = ''--host'' # ''127.0.0.1'' # ''--port'' # show_nat port # rest"
    and "list_all (\<lambda>e. \<not> open_head e) rest"
proof
  define rest where "rest = drop 4 (compose (shipped runtime) p port)"
  show "compose (shipped runtime) p port = ''--host'' # ''127.0.0.1'' # ''--port'' # show_nat port # rest"
    by (simp add: rest_def compose_def Let_def)
  have knobs: "list_all (\<lambda>e. \<not> open_head e) (emit_argv (shipped runtime) ''llamacpp'' (lp_knobs p) [])"
    using emit_argv_heads by (auto simp: list_all_iff open_head_def)
  have extras: "list_all (\<lambda>e. \<not> open_head e) (strip_forbidden_extras (lp_extras p) [] [])"
    using strip_clean by (simp add: open_head_def)
  show "list_all (\<lambda>e. \<not> open_head e) rest"
    using assms
    by (auto simp: rest_def compose_def Let_def launch_clean_def closed_parts knobs extras
        own_parts_closed[OF assms] split: option.split)
qed

text \<open>
  C39. Whatever knobs, extra arguments, mode and context a launch carries, the engine is told to
  listen on the loopback address and on the port the daemon reserved: the values after the last
  \<open>--host\<close> and the last \<open>--port\<close> of the command line are the product's own, and no other argument
  is a flag of the denylist. The launch's paths are absolute and its device and load mode are not
  themselves flags of the denylist.
\<close>

theorem compose_keeps_loopback:
  assumes "launch_clean (shipped runtime) p"
  shows "last_value ''--host'' (compose (shipped runtime) p port) = Some ''127.0.0.1''
    \<and> last_value ''--port'' (compose (shipped runtime) p port) = Some (show_nat port)
    \<and> list_all (\<lambda>e. \<not> open_head e) (drop 4 (compose (shipped runtime) p port))"
proof -
  obtain rest where argv: "compose (shipped runtime) p port
      = ''--host'' # ''127.0.0.1'' # ''--port'' # show_nat port # rest"
    and rest: "list_all (\<lambda>e. \<not> open_head e) rest"
    by (rule compose_rest[OF assms])
  then have none: "''--host'' \<notin> set rest" "''--port'' \<notin> set rest"
    using open_head_host by (auto simp: list_all_iff)
  have port: "show_nat port \<noteq> ''--host''" "show_nat port \<noteq> ''--port''"
    using show_nat_closed[of port] open_head_host by metis+
  show ?thesis using none port rest by (simp add: argv last_value_none)
qed

definition sample_params :: launch_params where
  "sample_params = (new_params ''/m/a.gguf'' ModeChat)
     \<lparr>lp_knobs := sample_knobs, lp_ctx := Some 4096, lp_reasoning := True,
      lp_extras := [''--temp'', ''0.7'', ''--HOST'', ''0.0.0.0'', ''--port=80'']\<rparr>"

theorem compose_keeps_loopback_witness:
  "last_value ''--port'' (compose (shipped []) sample_params 41100) = Some (show_nat 41100)"
proof -
  have ids: "resolve_id (shipped []) ''device'' = Some ''device''"
    "resolve_id (shipped []) ''load-mode'' = Some ''load-mode''" by code_simp+
  have "text_by_name (shipped []) None (lp_knobs sample_params) ''device'' = Some ''Vulkan0''"
    "text_by_name (shipped []) None (lp_knobs sample_params) ''load-mode'' = None"
    by (simp_all add: text_by_name_def get_by_name_def resolve_scoped_def ids sample_params_def
        sample_knobs_def ks_get_def)
  moreover have "\<not> is_forbidden_head_ext (arg_head ''Vulkan0'') []" by code_simp
  ultimately have "launch_clean (shipped []) sample_params"
    by (simp add: launch_clean_def) (simp add: sample_params_def new_params_def)
  from compose_keeps_loopback[OF this, of 41100] show ?thesis by (rule conjunct1[OF conjunct2])
qed

lemma sample_compose_argv:
  "compose (shipped []) sample_params 41100
    = [''--host'', ''127.0.0.1'', ''--port'', ''41100'', ''-m'', ''/m/a.gguf'', ''--jinja'',
       ''--reasoning-format'', ''deepseek'', ''-c'', ''4096'', ''--threads'', ''8'', ''--flash-attn'', ''on'',
       ''--device'', ''Vulkan0'', ''--temp'', ''0.7'']"
  by code_simp

end
