(* ===== verification/Paths.thy ===== *)
theory Paths
  imports Text
begin

text \<open>
  \<open>std::path\<close> on Unix (standard library): the components of a path, its file name, stem and parent,
  and joining. A path is its text; where the text spells a path with repeated or trailing slashes,
  the parent is given in the plain spelling.
\<close>

datatype component = RootDir | CurDir | ParentDir | Normal string

fun piece_component :: "string \<Rightarrow> component" where
  "piece_component p = (if p = ''..'' then ParentDir else Normal p)"

text \<open>Empty pieces and inner single dots are skipped; a leading dot of a relative path is kept.\<close>

definition path_components :: "string \<Rightarrow> component list" where
  "path_components s =
     (let pieces = split_on (CHR ''/'') s
      in (if starts_with s ''/'' then [RootDir]
          else if hd pieces = ''.'' then [CurDir] else [])
         @ map piece_component (filter (\<lambda>p. p \<noteq> [] \<and> p \<noteq> ''.'') pieces))"

definition is_absolute :: "string \<Rightarrow> bool" where
  "is_absolute s \<longleftrightarrow> starts_with s ''/''"

fun component_text :: "component \<Rightarrow> string" where
  "component_text RootDir = ''/''"
| "component_text CurDir = ''.''"
| "component_text ParentDir = ''..''"
| "component_text (Normal n) = n"

fun join_with :: "string \<Rightarrow> string list \<Rightarrow> string" where
  "join_with sep [] = []"
| "join_with sep [p] = p"
| "join_with sep (p # ps) = p @ sep @ join_with sep ps"

definition path_text :: "component list \<Rightarrow> string" where
  "path_text cs =
     (case cs of
        RootDir # rest \<Rightarrow> ''/'' @ join_with ''/'' (map component_text rest)
      | _ \<Rightarrow> join_with ''/'' (map component_text cs))"

definition path_file_name :: "string \<Rightarrow> string option" where
  "path_file_name s =
     (case rev (path_components s) of Normal n # _ \<Rightarrow> Some n | _ \<Rightarrow> None)"

definition path_parent :: "string \<Rightarrow> string option" where
  "path_parent s =
     (case rev (path_components s) of
        [] \<Rightarrow> None
      | RootDir # _ \<Rightarrow> None
      | _ # up \<Rightarrow> Some (path_text (rev up)))"

text \<open>\<open>file_stem\<close>: the name up to its last dot, unless that dot leads it.\<close>

definition name_stem :: "string \<Rightarrow> string" where
  "name_stem n =
     (let ext = takeWhile (\<lambda>c. c \<noteq> CHR ''.'') (rev n)
      in if CHR ''.'' \<notin> set n \<or> length ext + 1 = length n then n
         else take (length n - length ext - 1) n)"

definition path_file_stem :: "string \<Rightarrow> string option" where
  "path_file_stem s = map_option name_stem (path_file_name s)"

text \<open>\<open>join\<close>: an absolute path replaces the base.\<close>

definition path_join :: "string \<Rightarrow> string \<Rightarrow> string" where
  "path_join base p =
     (if is_absolute p then p
      else if base = [] \<or> ends_with base ''/'' then base @ p
      else base @ ''/'' @ p)"

end
