(* ===== verification/Safe_Extract.thy ===== *)
theory Safe_Extract
  imports Paths "HOL-Library.Code_Target_Numeral"
begin

text \<open>
  Unpacking a release archive: \<open>src/init/install/safe_extract.rs\<close> (the \<open>tar.gz\<close> reader; the \<open>zip\<close>
  reader is compiled on Windows only). The \<open>tar\<close> and \<open>gzip\<close> libraries deliver the entries; the
  temporary directory is a tree of directories, files and symbolic links with the path resolution
  of POSIX, whose root is the directory itself, so a path that climbs past it is \<open>Outside\<close>. Shown:
  no entry, through whatever chain of links, resolves outside, and the caps hold.
\<close>

subsection \<open>Limits\<close>

definition MAX_ENTRIES :: nat where
  "MAX_ENTRIES = 10000"

definition MIN_TOTAL_UNCOMPRESSED_BYTES :: nat where
  "MIN_TOTAL_UNCOMPRESSED_BYTES = 2 * 1024 * 1024 * 1024"

definition MAX_UNPACK_RATIO :: nat where
  "MAX_UNPACK_RATIO = 16"

record extract_limits =
  el_max_entries :: nat
  el_total_bytes :: nat
  el_per_entry_bytes :: nat

definition for_asset :: "nat option \<Rightarrow> extract_limits" where
  "for_asset asset_bytes =
     (let total = max (case asset_bytes of Some b \<Rightarrow> sat_mul b MAX_UNPACK_RATIO | None \<Rightarrow> 0)
        MIN_TOTAL_UNCOMPRESSED_BYTES
      in \<lparr>el_max_entries = MAX_ENTRIES, el_total_bytes = total, el_per_entry_bytes = total\<rparr>)"

datatype fs_error = NotFound | NotADirectory | IsADirectory | AlreadyExists | TooManyLinks | Outside

datatype install_error = UnsafeArchive string string | IoFailed fs_error | TarFailed string

record caps =
  ca_entries :: nat
  ca_total :: nat
  ca_limits :: extract_limits

definition new_caps :: "extract_limits \<Rightarrow> caps" where
  "new_caps limits = \<lparr>ca_entries = 0, ca_total = 0, ca_limits = limits\<rparr>"

definition count_entry :: "caps \<Rightarrow> (install_error, caps) result" where
  "count_entry c =
     (let c = c\<lparr>ca_entries := ca_entries c + 1\<rparr>
      in if ca_entries c > el_max_entries (ca_limits c)
         then Inl (UnsafeArchive [] ''entry count exceeded the 10000 cap'') else Inr c)"

definition charge :: "caps \<Rightarrow> string \<Rightarrow> nat \<Rightarrow> (install_error, caps) result" where
  "charge c path declared =
     (if declared > el_per_entry_bytes (ca_limits c)
      then Inl (UnsafeArchive path (''entry size '' @ show_nat declared @ '' exceeds per-entry cap of ''
             @ show_nat (el_per_entry_bytes (ca_limits c)) @ '' bytes''))
      else let c = c\<lparr>ca_total := sat_add (ca_total c) declared\<rparr>
           in if ca_total c > el_total_bytes (ca_limits c)
              then Inl (UnsafeArchive path (''total uncompressed size exceeded the ''
                     @ show_nat (el_total_bytes (ca_limits c)) @ ''-byte cap''))
              else Inr c)"

subsection \<open>Paths of entries\<close>

fun rel_names :: "string list \<Rightarrow> component list \<Rightarrow> (string, string list) result" where
  "rel_names acc [] = Inr acc"
| "rel_names acc (c # cs) =
     (case c of
        Normal n \<Rightarrow> rel_names (acc @ [n]) cs
      | CurDir \<Rightarrow> rel_names acc cs
      | ParentDir \<Rightarrow> Inl ''`..` traversal in archive entry path''
      | RootDir \<Rightarrow> Inl ''absolute path in archive entry'')"

definition safe_relative_path :: "string \<Rightarrow> (string, string list) result" where
  "safe_relative_path p =
     try_then (rel_names [] (path_components p)) (\<lambda>names.
       if names = [] then Inl ''archive entry path is empty after normalisation'' else Inr names)"

text \<open>The stack of a link's target, its top first.\<close>

fun link_stack :: "string list \<Rightarrow> component list \<Rightarrow> (string, string list) result" where
  "link_stack stack [] = Inr stack"
| "link_stack stack (c # cs) =
     (case c of
        Normal n \<Rightarrow> link_stack (n # stack) cs
      | CurDir \<Rightarrow> link_stack stack cs
      | ParentDir \<Rightarrow>
          (case stack of
             [] \<Rightarrow> Inl ''symlink target escapes the archive root via `..`''
           | _ # below \<Rightarrow> link_stack below cs)
      | RootDir \<Rightarrow> Inl ''symlink target contains an absolute component'')"

definition safe_symlink_target :: "string list \<Rightarrow> string \<Rightarrow> (string, string) result" where
  "safe_symlink_target names link =
     (if is_absolute link then Inl ''symlink target is absolute''
      else if link = [] then Inl ''symlink target is empty''
      else let dir = butlast names
           in try_then (link_stack (rev dir) (path_components link)) (\<lambda>stack.
                if length stack \<le> length dir
                then Inl ''symlink target does not descend into a strict subpath'' else Inr link))"

subsection \<open>The temporary directory\<close>

datatype node = DirNode | FileNode bytes | LinkNode "component list"

type_synonym tree = "string list \<Rightarrow> node option"

definition empty_tree :: tree where
  "empty_tree = [[] \<mapsto> DirNode]"

text \<open>Following a path from a directory of the tree; at most so many links are followed.\<close>

function resolve_path_from ::
  "nat \<Rightarrow> tree \<Rightarrow> string list \<Rightarrow> component list \<Rightarrow> (fs_error, string list) result" where
  "resolve_path_from hops fs cur [] = Inr cur"
| "resolve_path_from hops fs cur (c # cs) =
     (case c of
        RootDir \<Rightarrow> Inl Outside
      | CurDir \<Rightarrow> resolve_path_from hops fs cur cs
      | ParentDir \<Rightarrow> if cur = [] then Inl Outside else resolve_path_from hops fs (butlast cur) cs
      | Normal n \<Rightarrow>
          (case fs (cur @ [n]) of
             None \<Rightarrow> if cs = [] then Inr (cur @ [n]) else Inl NotFound
           | Some DirNode \<Rightarrow> resolve_path_from hops fs (cur @ [n]) cs
           | Some (FileNode _) \<Rightarrow> if cs = [] then Inr (cur @ [n]) else Inl NotADirectory
           | Some (LinkNode t) \<Rightarrow>
               if hops = 0 then Inl TooManyLinks else resolve_path_from (hops - 1) fs cur (t @ cs)))"
  by pat_completeness auto
termination
  by (relation "measures [\<lambda>(hops, _, _, _). hops, \<lambda>(_, _, _, cs). length cs]") auto

definition LINK_HOPS :: nat where
  "LINK_HOPS = 40"

text \<open>\<open>create_dir_all\<close>: the directory it ends in.\<close>

fun make_dirs :: "tree \<Rightarrow> string list \<Rightarrow> string list \<Rightarrow> (fs_error, tree \<times> string list) result" where
  "make_dirs fs cur [] = Inr (fs, cur)"
| "make_dirs fs cur (n # ns) =
     (case fs (cur @ [n]) of
        None \<Rightarrow> make_dirs (fs(cur @ [n] \<mapsto> DirNode)) (cur @ [n]) ns
      | Some DirNode \<Rightarrow> make_dirs fs (cur @ [n]) ns
      | Some (FileNode _) \<Rightarrow> Inl AlreadyExists
      | Some (LinkNode _) \<Rightarrow>
          try_then (resolve_path_from LINK_HOPS fs cur [Normal n]) (\<lambda>p.
            if fs p = Some DirNode then make_dirs fs p ns else Inl AlreadyExists))"

definition make_link :: "tree \<Rightarrow> string list \<Rightarrow> string \<Rightarrow> string \<Rightarrow> (fs_error, tree) result" where
  "make_link fs dir n target =
     (if fs (dir @ [n]) = None then Inr (fs(dir @ [n] \<mapsto> LinkNode (path_components target)))
      else Inl AlreadyExists)"

text \<open>\<open>File::create\<close> and the copy: a link in the last place is followed.\<close>

definition write_file :: "tree \<Rightarrow> string list \<Rightarrow> string \<Rightarrow> bytes \<Rightarrow> (fs_error, tree) result" where
  "write_file fs dir n data =
     try_then (resolve_path_from LINK_HOPS fs dir [Normal n]) (\<lambda>p.
       if fs p = Some DirNode then Inl IsADirectory else Inr (fs(p \<mapsto> FileNode data)))"

subsection \<open>Extraction\<close>

datatype entry_type = Regular | Directory | Symlink | HardLink | OtherEntry string

text \<open>What the archive reader yields for an entry; \<open>te_data\<close> is what its body reads as.\<close>

record tar_entry =
  te_path :: "(string, string) result"
  te_type :: entry_type
  te_link :: "(string, string option) result"
  te_size :: "nat option"
  te_data :: bytes

record extraction =
  ex_tree :: tree
  ex_caps :: caps
  ex_binary :: "string list option"

definition io :: "(fs_error, 'a) result \<Rightarrow> (install_error, 'a) result" where
  "io r = (case r of Inl e \<Rightarrow> Inl (IoFailed e) | Inr v \<Rightarrow> Inr v)"

definition refused :: "string \<Rightarrow> (string, 'a) result \<Rightarrow> (install_error, 'a) result" where
  "refused path r = (case r of Inl reason \<Rightarrow> Inl (UnsafeArchive path reason) | Inr v \<Rightarrow> Inr v)"

definition unpack_link :: "extraction \<Rightarrow> string \<Rightarrow> string list \<Rightarrow> tar_entry \<Rightarrow> (install_error, extraction) result" where
  "unpack_link x shown names e =
     try_then (refused shown (case te_link e of
         Inl err \<Rightarrow> Inl (''symlink target unreadable: '' @ err)
       | Inr None \<Rightarrow> Inl ''symlink with no target''
       | Inr (Some link) \<Rightarrow> safe_symlink_target names link)) (\<lambda>link.
     try_then (io (make_dirs (ex_tree x) [] (butlast names))) (\<lambda>(fs, dir).
     try_then (io (make_link fs dir (last names) link)) (\<lambda>fs.
     Inr (x\<lparr>ex_tree := fs\<rparr>))))"

definition unpack_file :: "extraction \<Rightarrow> string \<Rightarrow> string list \<Rightarrow> tar_entry \<Rightarrow> (install_error, extraction) result" where
  "unpack_file x shown names e =
     try_then (charge (ex_caps x) shown (case te_size e of Some n \<Rightarrow> n | None \<Rightarrow> 0)) (\<lambda>caps.
     try_then (io (make_dirs (ex_tree x) [] (butlast names))) (\<lambda>(fs, dir).
     try_then (io (write_file fs dir (last names)
         (take (el_per_entry_bytes (ca_limits caps)) (te_data e)))) (\<lambda>fs.
     Inr \<lparr>ex_tree = fs, ex_caps = caps,
          ex_binary = (if last names = ''llama-server'' then Some names else ex_binary x)\<rparr>)))"

fun type_text :: "entry_type \<Rightarrow> string" where
  "type_text (OtherEntry t) = t"
| "type_text _ = []"

definition unpack_at :: "extraction \<Rightarrow> tar_entry \<Rightarrow> string \<Rightarrow> (install_error, extraction) result" where
  "unpack_at x e p =
     (if te_type e = HardLink then Inl (UnsafeArchive p ''hardlink entries refused'')
      else if te_type e \<notin> {Regular, Directory, Symlink}
      then Inl (UnsafeArchive p (''unsupported entry type '' @ type_text (te_type e)))
      else
        try_then (refused p (safe_relative_path p)) (\<lambda>names.
          if te_type e = Directory
          then try_then (io (make_dirs (ex_tree x) [] names)) (\<lambda>(fs, _). Inr (x\<lparr>ex_tree := fs\<rparr>))
          else if te_type e = Symlink then unpack_link x p names e
          else unpack_file x p names e))"

definition unpack_entry :: "extraction \<Rightarrow> (string, tar_entry) result \<Rightarrow> (install_error, extraction) result" where
  "unpack_entry x item =
     try_then (count_entry (ex_caps x)) (\<lambda>caps.
     case item of Inl err \<Rightarrow> Inl (TarFailed (''tar entry: '' @ err)) | Inr e \<Rightarrow>
     try_then (refused [] (case te_path e of Inl err \<Rightarrow> Inl (''bad path: '' @ err) | Inr p \<Rightarrow> Inr p))
       (unpack_at (x\<lparr>ex_caps := caps\<rparr>) e))"

fun unpack_entries :: "extraction \<Rightarrow> (string, tar_entry) result list \<Rightarrow> (install_error, extraction) result" where
  "unpack_entries x [] = Inr x"
| "unpack_entries x (e # es) = try_then (unpack_entry x e) (\<lambda>x. unpack_entries x es)"

definition start_extraction :: "extract_limits \<Rightarrow> extraction" where
  "start_extraction limits = \<lparr>ex_tree = empty_tree, ex_caps = new_caps limits, ex_binary = None\<rparr>"

text \<open>
  The whole extraction into a fresh directory: the unpacked tree and the names of the binary below
  the final directory, which takes the place of the temporary one if the rename succeeds.
\<close>

definition safe_extract_tar_gz ::
  "extract_limits \<Rightarrow> (string, tar_entry) result list \<Rightarrow> fs_error option
    \<Rightarrow> (install_error, tree \<times> string list) result" where
  "safe_extract_tar_gz limits entries rename_fails =
     try_then (unpack_entries (start_extraction limits) entries) (\<lambda>x.
       case ex_binary x of
         None \<Rightarrow> Inl (UnsafeArchive [] ''archive did not contain a `llama-server` entry'')
       | Some names \<Rightarrow>
           (case rename_fails of
              Some e \<Rightarrow> Inl (IoFailed e)
            | None \<Rightarrow> Inr (ex_tree x, names)))"

subsection \<open>Runtime bundles and other archives\<close>

text \<open>
  A bundle of libraries is unpacked flat: the files written, by name, each through a temporary file
  whose creation and rename may fail (the last argument).
\<close>

definition lib_at ::
  "(string \<Rightarrow> fs_error option) \<Rightarrow> caps \<Rightarrow> (string \<times> bytes) list \<Rightarrow> tar_entry \<Rightarrow> string \<Rightarrow> string list
    \<Rightarrow> (install_error, caps \<times> (string \<times> bytes) list) result" where
  "lib_at fails caps written e p names =
     (if te_type e = Directory then Inr (caps, written)
      else if te_type e \<noteq> Regular
      then Inl (UnsafeArchive p (''unsupported entry type '' @ type_text (te_type e)))
      else let name = last names
           in if \<not> (starts_with name ''lib'' \<and> str_contains name ''.so'')
              then Inl (UnsafeArchive p ''not a shared library'')
              else try_then (charge caps p (case te_size e of Some n \<Rightarrow> n | None \<Rightarrow> 0)) (\<lambda>caps.
                   case fails name of
                     Some err \<Rightarrow> Inl (IoFailed err)
                   | None \<Rightarrow>
                       Inr (caps, written @ [(name, take (el_per_entry_bytes (ca_limits caps)) (te_data e))])))"

definition unpack_lib ::
  "(string \<Rightarrow> fs_error option) \<Rightarrow> caps \<times> (string \<times> bytes) list \<Rightarrow> (string, tar_entry) result
    \<Rightarrow> (install_error, caps \<times> (string \<times> bytes) list) result" where
  "unpack_lib fails st item =
     (case st of (caps, written) \<Rightarrow>
      try_then (count_entry caps) (\<lambda>caps.
      case item of Inl err \<Rightarrow> Inl (TarFailed (''tar entry: '' @ err)) | Inr e \<Rightarrow>
      try_then (refused [] (case te_path e of Inl err \<Rightarrow> Inl (''bad path: '' @ err) | Inr p \<Rightarrow> Inr p)) (\<lambda>p.
      try_then (refused p (safe_relative_path p)) (lib_at fails caps written e p))))"

fun unpack_libs ::
  "(string \<Rightarrow> fs_error option) \<Rightarrow> caps \<times> (string \<times> bytes) list \<Rightarrow> (string, tar_entry) result list
    \<Rightarrow> (install_error, caps \<times> (string \<times> bytes) list) result" where
  "unpack_libs fails st [] = Inr st"
| "unpack_libs fails st (e # es) = try_then (unpack_lib fails st e) (\<lambda>st. unpack_libs fails st es)"

definition safe_extract_libs_tar_gz ::
  "(string \<Rightarrow> fs_error option) \<Rightarrow> extract_limits \<Rightarrow> (string, tar_entry) result list
    \<Rightarrow> (install_error, (string \<times> bytes) list) result" where
  "safe_extract_libs_tar_gz fails limits entries =
     try_then (unpack_libs fails (new_caps limits, []) entries) (\<lambda>(_, written).
       if written = [] then Inl (UnsafeArchive [] ''runtime bundle held no shared libraries'')
       else Inr written)"

text \<open>The reader an archive is given to, by its name (Unix).\<close>

definition archive_kind :: "string \<Rightarrow> (install_error, unit) result" where
  "archive_kind name =
     (let lower = ascii_lower name
      in if ends_with lower ''.tar.gz'' \<or> ends_with lower ''.tgz'' then Inr ()
         else if ends_with lower ''.zip''
         then Inl (UnsafeArchive name ''.zip extraction is only supported on Windows'')
         else Inl (UnsafeArchive name ''unsupported archive extension (expected .tar.gz, .tgz, or .zip)''))"

subsection \<open>Links never climb\<close>

text \<open>
  The depth below the root after following components lexically from a depth, unless they climb
  past it.
\<close>

fun depth_after :: "nat \<Rightarrow> component list \<Rightarrow> nat option" where
  "depth_after d [] = Some d"
| "depth_after d (c # cs) =
     (case c of
        Normal _ \<Rightarrow> depth_after (Suc d) cs
      | CurDir \<Rightarrow> depth_after d cs
      | ParentDir \<Rightarrow> if d = 0 then None else depth_after (d - 1) cs
      | RootDir \<Rightarrow> None)"

lemma depth_after_shift: "depth_after d cs = Some e \<Longrightarrow> depth_after (d + k) cs = Some (e + k)"
proof (induction d cs rule: depth_after.induct)
  case (2 d c cs)
  then show ?case by (cases c; cases d) (auto split: if_splits)
qed simp

lemma depth_after_append:
  "depth_after d (xs @ ys) = Option.bind (depth_after d xs) (\<lambda>e. depth_after e ys)"
  by (induction d xs rule: depth_after.induct) (auto split: component.split)

text \<open>From a directory at least as deep, one ends at least as much deeper.\<close>

lemma depth_after_deeper:
  assumes "depth_after d cs = Some e" "d \<le> d'"
  shows "depth_after d' cs = Some (e + (d' - d))"
  using depth_after_shift[OF assms(1), of "d' - d"] assms(2) by simp

lemma link_stack_depth:
  "link_stack stack cs = Inr stack' \<Longrightarrow> depth_after (length stack) cs = Some (length stack')"
proof (induction stack cs rule: link_stack.induct)
  case (2 stack c cs)
  then show ?case by (cases c; cases stack) auto
qed simp

definition link_descends :: "nat \<Rightarrow> component list \<Rightarrow> bool" where
  "link_descends d t \<longleftrightarrow> (\<exists>e. depth_after d t = Some e \<and> d < e)"

lemma safe_symlink_descends:
  assumes "safe_symlink_target names link = Inr link'"
  shows "link' = link \<and> link_descends (length names - 1) (path_components link)"
  using assms link_stack_depth[of "rev (butlast names)" "path_components link"]
  by (auto simp: safe_symlink_target_def try_then_eq_Inr link_descends_def split: if_splits)

definition links_descend :: "tree \<Rightarrow> bool" where
  "links_descend fs \<longleftrightarrow> (\<forall>dir n t. fs (dir @ [n]) = Some (LinkNode t) \<longrightarrow> link_descends (length dir) t)"

lemma links_descendD: "links_descend fs \<Longrightarrow> fs (dir @ [n]) = Some (LinkNode t) \<Longrightarrow> link_descends (length dir) t"
  by (simp add: links_descend_def)

text \<open>
  Following a path that does not climb lexically stays inside, however many links there are on the
  way, and ends at least as deep.
\<close>

definition stays :: "(fs_error, string list) result \<Rightarrow> nat \<Rightarrow> bool" where
  "stays r d \<longleftrightarrow> (case r of Inl e \<Rightarrow> e \<noteq> Outside | Inr p \<Rightarrow> d \<le> length p)"

lemma stays_mono: "stays r e \<Longrightarrow> d \<le> e \<Longrightarrow> stays r d"
  by (auto simp: stays_def split: sum.splits)

lemma depth_through_link:
  assumes "link_descends d t" "depth_after (Suc d) cs = Some e"
  shows "\<exists>e'. depth_after d (t @ cs) = Some e' \<and> e \<le> e'"
proof -
  obtain m where m: "depth_after d t = Some m" "Suc d \<le> m"
    using assms(1) by (auto simp: link_descends_def)
  then show ?thesis using depth_after_deeper[OF assms(2) m(2)] by (simp add: depth_after_append)
qed

lemma resolve_stays:
  "links_descend fs \<Longrightarrow> depth_after (length cur) cs = Some d \<Longrightarrow>
     stays (resolve_path_from hops fs cur cs) d"
proof (induction hops fs cur cs arbitrary: d rule: resolve_path_from.induct)
  case (1 hops fs cur)
  then show ?case by (simp add: stays_def)
next
  case (2 hops fs cur c cs)
  note links = 2(5) and depth = 2(6)
  show ?case
  proof (cases c)
    case RootDir
    then show ?thesis using depth by simp
  next
    case CurDir
    then show ?thesis using 2(1) links depth by simp
  next
    case ParentDir
    then show ?thesis using 2(2) links depth by (auto split: if_splits)
  next
    case (Normal n)
    with depth have d: "depth_after (Suc (length cur)) cs = Some d" by simp
    consider "fs (cur @ [n]) = None" | "fs (cur @ [n]) = Some DirNode"
      | f where "fs (cur @ [n]) = Some (FileNode f)" | t where "fs (cur @ [n]) = Some (LinkNode t)"
      by (metis node.exhaust option.exhaust)
    then show ?thesis
    proof cases
      case dir: 2
      then show ?thesis using 2(3)[OF Normal dir refl] links d Normal by simp
    next
      case link: (4 t)
      from depth_through_link[OF links_descendD[OF links link] d]
      obtain e where e: "depth_after (length cur) (t @ cs) = Some e" "d \<le> e" by blast
      show ?thesis
      proof (cases "hops = 0")
        case False
        have "stays (resolve_path_from (hops - 1) fs cur (t @ cs)) e"
          by (rule 2(4)[OF Normal link refl False links e(1)])
        then show ?thesis using False Normal link e(2) by (simp add: stays_mono)
      qed (use Normal link in \<open>simp add: stays_def\<close>)
    qed (use Normal d in \<open>auto simp: stays_def\<close>)
  qed
qed

lemma links_descend_upd:
  "links_descend fs \<Longrightarrow> (\<forall>t. x \<noteq> LinkNode t) \<Longrightarrow> links_descend (fs(p \<mapsto> x))"
  by (auto simp: links_descend_def)

lemma links_descend_link:
  "links_descend fs \<Longrightarrow> link_descends (length dir) t \<Longrightarrow> links_descend (fs(dir @ [n] \<mapsto> LinkNode t))"
  by (auto simp: links_descend_def)

lemma resolve_one:
  assumes "links_descend fs"
  shows "stays (resolve_path_from hops fs cur [Normal n]) (Suc (length cur))"
  using resolve_stays[OF assms, of cur "[Normal n]"] by simp

text \<open>What every operation of the extraction guarantees: no error is \<open>Outside\<close>.\<close>

definition inside :: "(fs_error, 'a) result \<Rightarrow> ('a \<Rightarrow> bool) \<Rightarrow> bool" where
  "inside r good \<longleftrightarrow> (case r of Inl e \<Rightarrow> e \<noteq> Outside | Inr v \<Rightarrow> good v)"

lemma inside_then:
  "inside r P \<Longrightarrow> (\<And>v. r = Inr v \<Longrightarrow> P v \<Longrightarrow> inside (f v) Q) \<Longrightarrow> inside (try_then r f) Q"
  by (cases r) (auto simp: inside_def)

lemma stays_inside: "stays r d = inside r (\<lambda>p. d \<le> length p)"
  by (simp add: stays_def inside_def)

lemma make_dirs_inside:
  "links_descend fs \<Longrightarrow>
     inside (make_dirs fs cur ns) (\<lambda>(fs', dir). links_descend fs' \<and> length cur + length ns \<le> length dir)"
proof (induction fs cur ns rule: make_dirs.induct)
  case (1 fs cur)
  then show ?case by (simp add: inside_def)
next
  case (2 fs cur n ns)
  consider "fs (cur @ [n]) = None" | "fs (cur @ [n]) = Some DirNode"
    | f where "fs (cur @ [n]) = Some (FileNode f)" | t where "fs (cur @ [n]) = Some (LinkNode t)"
    by (metis node.exhaust option.exhaust)
  then show ?case
  proof cases
    case 1
    have "links_descend (fs(cur @ [n] \<mapsto> DirNode))" using 2(4) by (simp add: links_descend_upd)
    from 2(1)[folded fun_upd_def, OF 1 this] 1 show ?thesis by (simp add: fun_upd_def)
  next
    case dir: 2
    then show ?thesis using 2(2)[OF dir refl] 2(4) by simp
  next
    case (4 t)
    have "inside (try_then (resolve_path_from LINK_HOPS fs cur [Normal n]) (\<lambda>p.
        if fs p = Some DirNode then make_dirs fs p ns else Inl AlreadyExists))
      (\<lambda>(fs', dir). links_descend fs' \<and> length cur + length (n # ns) \<le> length dir)"
    proof (rule inside_then[OF resolve_one[OF 2(4), unfolded stays_inside]])
      fix p assume p: "resolve_path_from LINK_HOPS fs cur [Normal n] = Inr p" "Suc (length cur) \<le> length p"
      show "inside (if fs p = Some DirNode then make_dirs fs p ns else Inl AlreadyExists)
          (\<lambda>(fs', dir). links_descend fs' \<and> length cur + length (n # ns) \<le> length dir)"
        using 2(3)[OF 4 refl p(1) _ 2(4)] p(2) by (auto simp: inside_def split: sum.splits)
    qed
    then show ?thesis using 4 by simp
  qed (simp add: inside_def)
qed

lemma make_link_inside:
  assumes "links_descend fs" "link_descends (length dir) (path_components target)"
  shows "inside (make_link fs dir n target) links_descend"
  using assms by (simp add: make_link_def inside_def links_descend_link)

lemma write_file_inside: "links_descend fs \<Longrightarrow> inside (write_file fs dir n data) links_descend"
  unfolding write_file_def
  by (rule inside_then[OF resolve_one[unfolded stays_inside]]) (auto simp: inside_def links_descend_upd)

lemma link_descends_deeper: "link_descends d t \<Longrightarrow> d \<le> d' \<Longrightarrow> link_descends d' t"
  by (auto simp: link_descends_def dest: depth_after_deeper)

text \<open>The same over the whole extraction, whose other errors are refusals.\<close>

definition unpack_inside :: "(install_error, extraction) result \<Rightarrow> bool" where
  "unpack_inside r \<longleftrightarrow> (case r of Inl e \<Rightarrow> e \<noteq> IoFailed Outside | Inr x \<Rightarrow> links_descend (ex_tree x))"

lemma unpack_io:
  "inside r P \<Longrightarrow> (\<And>v. P v \<Longrightarrow> unpack_inside (f v)) \<Longrightarrow> unpack_inside (try_then (io r) f)"
  by (cases r) (auto simp: inside_def io_def unpack_inside_def)

lemma unpack_refused:
  "(\<And>v. r = Inr v \<Longrightarrow> unpack_inside (f v)) \<Longrightarrow> unpack_inside (try_then (refused p r) f)"
  by (cases r) (auto simp: refused_def unpack_inside_def)

lemma unpack_charge:
  "(\<And>c. unpack_inside (f c)) \<Longrightarrow> unpack_inside (try_then (charge c p n) f)"
  by (auto simp: charge_def Let_def unpack_inside_def)

lemma unpack_link_inside:
  assumes "links_descend (ex_tree x)"
  shows "unpack_inside (unpack_link x shown names e)"
  unfolding unpack_link_def
proof (rule unpack_refused, goal_cases)
  case (1 link)
  then have link: "link_descends (length names - 1) (path_components link)"
    by (auto split: sum.splits option.splits dest: safe_symlink_descends)
  show ?case
    by (rule unpack_io[OF make_dirs_inside[OF assms]], clarify,
        rule unpack_io[OF make_link_inside])
      (auto simp: unpack_inside_def intro: link_descends_deeper[OF link])
qed

lemma unpack_file_inside:
  assumes "links_descend (ex_tree x)"
  shows "unpack_inside (unpack_file x shown names e)"
  unfolding unpack_file_def
  by (rule unpack_charge, rule unpack_io[OF make_dirs_inside[OF assms]], clarify,
      rule unpack_io[OF write_file_inside]) (auto simp: unpack_inside_def)

lemma unpack_entry_inside:
  assumes "links_descend (ex_tree x)"
  shows "unpack_inside (unpack_entry x item)"
proof -
  have dirs: "unpack_inside (try_then (io (make_dirs (ex_tree x) [] names))
      (\<lambda>(fs, _). Inr (x\<lparr>ex_tree := fs\<rparr>)))" if "links_descend (ex_tree x)" for names x
    by (rule unpack_io[OF make_dirs_inside[OF that]]) (auto simp: unpack_inside_def)
  have at: "unpack_inside (unpack_at x e p)" if "links_descend (ex_tree x)" for x e p
    using dirs[OF that] unpack_link_inside[OF that] unpack_file_inside[OF that]
    by (auto simp: unpack_at_def unpack_inside_def[of "Inl _"] intro!: unpack_refused)
  show ?thesis
    unfolding unpack_entry_def
    by (cases item)
      (auto simp: count_entry_def Let_def unpack_inside_def[of "Inl _"] assms
        intro!: unpack_refused at)
qed

lemma unpack_entries_inside:
  "links_descend (ex_tree x) \<Longrightarrow> unpack_inside (unpack_entries x es)"
proof (induction x es rule: unpack_entries.induct)
  case (2 x e es)
  then show ?case
    using unpack_entry_inside[of x e] by (cases "unpack_entry x e") (simp_all add: unpack_inside_def)
qed (simp add: unpack_inside_def)

lemma depth_after_normal: "depth_after d (map Normal ns) = Some (d + length ns)"
  by (induction ns arbitrary: d) simp_all

text \<open>
  C38. Whatever archive is unpacked, no entry is created, written or linked outside the destination:
  however its links are chained, following a path on the way never climbs past the directory the
  archive is unpacked into. Nor does it afterwards, for whoever opens a file of the unpacked tree.
\<close>

theorem extraction_stays_inside:
  assumes "rename_fails \<noteq> Some Outside"
  shows "safe_extract_tar_gz limits entries rename_fails \<noteq> Inl (IoFailed Outside)
    \<and> (\<forall>fs names hops path. safe_extract_tar_gz limits entries rename_fails = Inr (fs, names) \<longrightarrow>
         resolve_path_from hops fs [] (map Normal path) \<noteq> Inl Outside)"
proof -
  have "links_descend (ex_tree (start_extraction limits))"
    by (simp add: links_descend_def start_extraction_def empty_tree_def)
  from unpack_entries_inside[OF this, of entries] have
    inside: "unpack_inside (unpack_entries (start_extraction limits) entries)" .
  have follow: "resolve_path_from hops fs [] (map Normal path) \<noteq> Inl Outside" if "links_descend fs" for hops fs path
    using resolve_stays[OF that, of "[]" "map Normal path" "length path" hops]
    by (auto simp: depth_after_normal stays_def)
  show ?thesis
    using inside assms follow unfolding safe_extract_tar_gz_def
    by (cases "unpack_entries (start_extraction limits) entries")
      (auto simp: unpack_inside_def split: option.splits)
qed

text \<open>A release with a chain of library names, as upstream packs it.\<close>

definition sample_file :: "string \<Rightarrow> string \<Rightarrow> (string, tar_entry) result" where
  "sample_file path body =
     Inr \<lparr>te_path = Inr path, te_type = Regular, te_link = Inr None, te_size = Some (length body),
          te_data = of_str body\<rparr>"

definition sample_link :: "string \<Rightarrow> string \<Rightarrow> (string, tar_entry) result" where
  "sample_link path target =
     Inr \<lparr>te_path = Inr path, te_type = Symlink, te_link = Inr (Some target), te_size = Some 0, te_data = []\<rparr>"

definition sample_release :: "(string, tar_entry) result list" where
  "sample_release =
     [sample_file ''build/bin/llama-server'' ''ELF'', sample_link ''build/bin/libm.so'' ''libm.so.0'',
      sample_link ''build/bin/libm.so.0'' ''./libm.so.0.1'', sample_file ''build/bin/libm.so.0.1'' ''lib'']"

theorem extraction_stays_inside_witness:
  "\<exists>fs. safe_extract_tar_gz (for_asset None) sample_release None = Inr (fs, [''build'', ''bin'', ''llama-server''])
     \<and> resolve_path_from 40 fs [] (map Normal [''build'', ''bin'', ''libm.so''])
        = Inr [''build'', ''bin'', ''libm.so.0.1'']
     \<and> resolve_path_from 0 fs [] (map Normal [''build'', ''bin'', ''libm.so'']) \<noteq> Inl Outside"
proof -
  let ?r = "safe_extract_tar_gz (for_asset None) sample_release None"
  have r: "(case ?r of Inr (fs, names) \<Rightarrow> names = [''build'', ''bin'', ''llama-server'']
      \<and> resolve_path_from 40 fs [] (map Normal [''build'', ''bin'', ''libm.so''])
        = Inr [''build'', ''bin'', ''libm.so.0.1''] | Inl _ \<Rightarrow> False)"
    by code_simp
  then obtain fs where "?r = Inr (fs, [''build'', ''bin'', ''llama-server''])"
    and "resolve_path_from 40 fs [] (map Normal [''build'', ''bin'', ''libm.so'']) = Inr [''build'', ''bin'', ''libm.so.0.1'']"
    by (auto split: sum.splits)
  moreover have "None \<noteq> Some Outside" by simp
  from extraction_stays_inside[OF this] calculation(1)
  have "resolve_path_from 0 fs [] (map Normal [''build'', ''bin'', ''libm.so'']) \<noteq> Inl Outside" by blast
  ultimately show ?thesis by blast
qed

subsection \<open>The caps\<close>

definition declared :: "(string, tar_entry) result \<Rightarrow> nat" where
  "declared item =
     (case item of
        Inr e \<Rightarrow> if te_type e = Regular then (case te_size e of Some n \<Rightarrow> n | None \<Rightarrow> 0) else 0
      | Inl _ \<Rightarrow> 0)"

definition files_within :: "nat \<Rightarrow> tree \<Rightarrow> bool" where
  "files_within m fs \<longleftrightarrow> (\<forall>p data. fs p = Some (FileNode data) \<longrightarrow> length data \<le> m)"

lemma make_dirs_files:
  "make_dirs fs cur ns = Inr (fs', dir) \<Longrightarrow> files_within m fs \<Longrightarrow> files_within m fs'"
proof (induction fs cur ns rule: make_dirs.induct)
  case (2 fs cur n ns)
  show ?case
  proof (cases "fs (cur @ [n])")
    case None
    have "files_within m (fs(cur @ [n] \<mapsto> DirNode))" using 2(5) by (auto simp: files_within_def)
    with 2(1)[OF None] 2(4) None show ?thesis by (simp add: fun_upd_def)
  next
    case (Some nd)
    then show ?thesis using 2 by (cases nd) (auto simp: try_then_eq_Inr split: if_splits)
  qed
qed simp

lemma files_within_upd:
  "files_within m fs \<Longrightarrow> (\<forall>d. x = FileNode d \<longrightarrow> length d \<le> m) \<Longrightarrow> files_within m (fs(p \<mapsto> x))"
  by (auto simp: files_within_def)

lemma io_Inr [simp]: "io r = Inr v \<longleftrightarrow> r = Inr v"
  by (cases r) (simp_all add: io_def)

lemma refused_Inr [simp]: "refused p r = Inr v \<longleftrightarrow> r = Inr v"
  by (cases r) (simp_all add: refused_def)

lemma charge_Inr:
  "charge c p n = Inr c' \<longleftrightarrow>
     n \<le> el_per_entry_bytes (ca_limits c) \<and> sat_add (ca_total c) n \<le> el_total_bytes (ca_limits c)
     \<and> c' = c\<lparr>ca_total := sat_add (ca_total c) n\<rparr>"
  by (auto simp: charge_def Let_def)

definition files_capped :: "extraction \<Rightarrow> bool" where
  "files_capped x \<longleftrightarrow> files_within (el_per_entry_bytes (ca_limits (ex_caps x))) (ex_tree x)"

lemma unpack_link_caps:
  "unpack_link x shown names e = Inr x' \<Longrightarrow> files_capped x \<Longrightarrow> ex_caps x' = ex_caps x \<and> files_capped x'"
  by (auto simp: unpack_link_def try_then_eq_Inr make_link_def files_capped_def split: if_splits
      intro!: files_within_upd dest: make_dirs_files)

lemma unpack_file_caps:
  "unpack_file x shown names e = Inr x' \<Longrightarrow> files_capped x \<Longrightarrow>
     charge (ex_caps x) shown (case te_size e of Some n \<Rightarrow> n | None \<Rightarrow> 0) = Inr (ex_caps x') \<and> files_capped x'"
  by (auto simp: unpack_file_def try_then_eq_Inr write_file_def files_capped_def charge_Inr split: if_splits
      intro!: files_within_upd dest: make_dirs_files)

text \<open>The effect of one entry on the caps and the files.\<close>

definition caps_after :: "extraction \<Rightarrow> (string, tar_entry) result \<Rightarrow> extraction \<Rightarrow> bool" where
  "caps_after x item x' \<longleftrightarrow>
     ca_limits (ex_caps x') = ca_limits (ex_caps x)
     \<and> ca_entries (ex_caps x') = Suc (ca_entries (ex_caps x))
     \<and> ca_entries (ex_caps x') \<le> el_max_entries (ca_limits (ex_caps x))
     \<and> ca_total (ex_caps x') = sat_add (ca_total (ex_caps x)) (declared item)
     \<and> (ca_total (ex_caps x) \<le> el_total_bytes (ca_limits (ex_caps x)) \<longrightarrow>
          ca_total (ex_caps x') \<le> el_total_bytes (ca_limits (ex_caps x)))
     \<and> files_capped x'"

lemma unpack_entry_caps:
  assumes "unpack_entry x item = Inr x'" and "files_capped x" and "ca_total (ex_caps x) \<le> u64_max"
  shows "caps_after x item x'"
proof -
  define y where "y = x\<lparr>ex_caps := (ex_caps x)\<lparr>ca_entries := ca_entries (ex_caps x) + 1\<rparr>\<rparr>"
  obtain e p names where item: "item = Inr e"
    and cap: "ca_entries (ex_caps x) < el_max_entries (ca_limits (ex_caps x))"
    and kind: "te_type e \<in> {Regular, Directory, Symlink}"
    and rest: "(if te_type e = Directory
          then try_then (io (make_dirs (ex_tree y) [] names)) (\<lambda>(fs, _). Inr (y\<lparr>ex_tree := fs\<rparr>))
          else if te_type e = Symlink then unpack_link y p names e
          else unpack_file y p names e) = Inr x'"
  proof -
    from assms(1) obtain caps where caps: "count_entry (ex_caps x) = Inr caps"
      and rest: "(case item of Inl err \<Rightarrow> Inl (TarFailed (''tar entry: '' @ err)) | Inr e \<Rightarrow>
         try_then (refused [] (case te_path e of Inl err \<Rightarrow> Inl (''bad path: '' @ err) | Inr p \<Rightarrow> Inr p))
           (unpack_at (x\<lparr>ex_caps := caps\<rparr>) e)) = Inr x'"
      by (auto simp: unpack_entry_def try_then_eq_Inr)
    from rest obtain e p where "item = Inr e" "unpack_at (x\<lparr>ex_caps := caps\<rparr>) e p = Inr x'"
      by (auto simp: try_then_eq_Inr split: sum.splits)
    moreover have "x\<lparr>ex_caps := caps\<rparr> = y" "ca_entries (ex_caps x) < el_max_entries (ca_limits (ex_caps x))"
      using caps by (auto simp: count_entry_def Let_def y_def split: if_splits)
    ultimately have at: "unpack_at y e p = Inr x'" "item = Inr e"
      and cap: "ca_entries (ex_caps x) < el_max_entries (ca_limits (ex_caps x))" by simp_all
    have kind: "te_type e \<in> {Regular, Directory, Symlink}" "te_type e \<noteq> HardLink"
      using at(1) by (auto simp: unpack_at_def split: if_splits)
    with at(1) obtain names where "(if te_type e = Directory
          then try_then (io (make_dirs (ex_tree y) [] names)) (\<lambda>(fs, _). Inr (y\<lparr>ex_tree := fs\<rparr>))
          else if te_type e = Symlink then unpack_link y p names e
          else unpack_file y p names e) = Inr x'"
      unfolding unpack_at_def by (auto simp only: try_then_eq_Inr if_False if_True simp_thms)
    then show thesis by (rule that[OF at(2) cap kind(1)])
  qed
  have y: "files_capped y" "ca_total (ex_caps y) = ca_total (ex_caps x)" "ca_limits (ex_caps y) = ca_limits (ex_caps x)"
    "ca_entries (ex_caps y) = Suc (ca_entries (ex_caps x))"
    using assms(2) by (simp_all add: y_def files_capped_def)
  have add_zero: "sat_add (ca_total (ex_caps x)) 0 = ca_total (ex_caps x)"
    using assms(3) by (simp add: sat_add_def)
  consider "te_type e = Directory" | "te_type e = Symlink" | "te_type e = Regular" using kind by auto
  then show ?thesis
  proof cases
    case 1
    then have "ex_caps x' = ex_caps y" "files_capped x'" using rest y(1)
      by (auto simp: try_then_eq_Inr files_capped_def dest: make_dirs_files)
    then show ?thesis using 1 y cap add_zero by (simp add: caps_after_def item declared_def)
  next
    case 2
    then have "ex_caps x' = ex_caps y" "files_capped x'" using rest unpack_link_caps[OF _ y(1)] by auto
    then show ?thesis using 2 y cap add_zero by (simp add: caps_after_def item declared_def)
  next
    case 3
    then have "charge (ex_caps y) p (case te_size e of Some n \<Rightarrow> n | None \<Rightarrow> 0) = Inr (ex_caps x')" "files_capped x'"
      using rest unpack_file_caps[OF _ y(1)] by auto
    then show ?thesis using 3 y cap by (auto simp: caps_after_def item declared_def charge_Inr)
  qed
qed

text \<open>The caps after a list of entries.\<close>

definition charged :: "extraction \<Rightarrow> nat \<Rightarrow> nat \<Rightarrow> bool" where
  "charged x n bytes \<longleftrightarrow>
     ca_entries (ex_caps x) = n \<and> n \<le> el_max_entries (ca_limits (ex_caps x))
     \<and> ca_total (ex_caps x) = min bytes u64_max \<and> ca_total (ex_caps x) \<le> el_total_bytes (ca_limits (ex_caps x))
     \<and> files_capped x"

lemma unpack_entries_charged:
  "unpack_entries x es = Inr x' \<Longrightarrow> charged x n bytes \<Longrightarrow>
     charged x' (n + length es) (bytes + sum_list (map declared es))
     \<and> ca_limits (ex_caps x') = ca_limits (ex_caps x)"
proof (induction x es arbitrary: n bytes rule: unpack_entries.induct)
  case (2 x e es)
  from 2(2) obtain y where y: "unpack_entry x e = Inr y" "unpack_entries y es = Inr x'"
    by (auto simp: try_then_eq_Inr)
  have "caps_after x e y" using unpack_entry_caps[OF y(1)] 2(3) by (simp add: charged_def)
  then have "charged y (Suc n) (bytes + declared e)" "ca_limits (ex_caps y) = ca_limits (ex_caps x)"
    using 2(3) by (auto simp: caps_after_def charged_def sat_add_def)
  with 2(1)[OF y, of "Suc n" "bytes + declared e"] show ?case by (simp add: add.assoc)
qed simp

text \<open>
  An archive that unpacks has no more entries than the cap, its regular files declare no more
  bytes in total than the cap, and no file on disk is longer than the cap of one entry.
\<close>

theorem extraction_within_caps:
  assumes "safe_extract_tar_gz limits entries rename_fails = Inr (fs, names)"
  shows "length entries \<le> el_max_entries limits
    \<and> min (sum_list (map declared entries)) u64_max \<le> el_total_bytes limits
    \<and> files_within (el_per_entry_bytes limits) fs"
proof -
  from assms obtain x where x: "unpack_entries (start_extraction limits) entries = Inr x" "fs = ex_tree x"
    by (auto simp: safe_extract_tar_gz_def try_then_eq_Inr split: option.splits)
  have "charged (start_extraction limits) 0 0"
    by (auto simp: charged_def start_extraction_def new_caps_def files_capped_def files_within_def empty_tree_def
        split: if_splits)
  note done_with = unpack_entries_charged[OF x(1) this]
  have lim: "ca_limits (ex_caps x) = limits"
    using done_with by (simp add: start_extraction_def new_caps_def)
  from done_with have "charged x (length entries) (sum_list (map declared entries))" by simp
  then show ?thesis unfolding charged_def files_capped_def x(2) lim by (elim conjE) simp
qed

theorem extraction_within_caps_witness:
  "length sample_release \<le> el_max_entries (for_asset None)"
proof -
  have "(case safe_extract_tar_gz (for_asset None) sample_release None of Inr _ \<Rightarrow> True | Inl _ \<Rightarrow> False)"
    by code_simp
  then obtain fs names where "safe_extract_tar_gz (for_asset None) sample_release None = Inr (fs, names)"
    by (auto split: sum.splits)
  from extraction_within_caps[OF this] show ?thesis by simp
qed

subsection \<open>Bundles write library names only\<close>

lemma split_on_pieces: "p \<in> set (split_on d s) \<Longrightarrow> d \<notin> set p"
proof (induction s arbitrary: p)
  case (Cons c cs)
  then show ?case by (cases "split_on d cs") (auto split: if_splits)
qed simp

lemma rel_names_plain:
  "rel_names acc cs = Inr names \<Longrightarrow> \<forall>c \<in> set cs. \<forall>n. c = Normal n \<longrightarrow> CHR ''/'' \<notin> set n \<Longrightarrow>
     \<forall>n \<in> set acc. CHR ''/'' \<notin> set n \<Longrightarrow> \<forall>n \<in> set names. CHR ''/'' \<notin> set n"
proof (induction acc cs rule: rel_names.induct)
  case (2 acc c cs)
  then show ?case by (cases c) auto
qed simp

lemma safe_relative_plain:
  assumes "safe_relative_path p = Inr names"
  shows "names \<noteq> [] \<and> (\<forall>n \<in> set names. CHR ''/'' \<notin> set n)"
proof -
  have "\<forall>c \<in> set (path_components p). \<forall>n. c = Normal n \<longrightarrow> CHR ''/'' \<notin> set n"
    by (auto simp: path_components_def Let_def dest: split_on_pieces split: if_splits)
  then show ?thesis using assms rel_names_plain[of "[]" "path_components p" names]
    by (auto simp: safe_relative_path_def try_then_eq_Inr split: if_splits)
qed

definition lib_name :: "string \<Rightarrow> bool" where
  "lib_name n \<longleftrightarrow> starts_with n ''lib'' \<and> str_contains n ''.so'' \<and> CHR ''/'' \<notin> set n"

lemma unpack_lib_names:
  assumes "unpack_lib fails (caps, written) item = Inr (caps', written')"
    and "list_all (\<lambda>(n, _). lib_name n) written"
  shows "list_all (\<lambda>(n, _). lib_name n) written'"
proof -
  obtain e where item: "item = Inr e"
    using assms(1) by (cases item) (auto simp: unpack_lib_def try_then_eq_Inr)
  from assms(1) obtain p names c where "safe_relative_path p = Inr names"
    and at: "lib_at fails c written e p names = Inr (caps', written')"
    by (cases "te_path e") (auto simp: unpack_lib_def try_then_eq_Inr item)
  then have "names \<noteq> []" "\<forall>n \<in> set names. CHR ''/'' \<notin> set n" by (simp_all add: safe_relative_plain)
  then have "CHR ''/'' \<notin> set (last names)" by simp
  with at assms(2) show ?thesis
    by (cases "te_type e = Regular"; cases "te_type e = Directory"; cases "fails (last names)")
      (auto simp: lib_at_def try_then_eq_Inr Let_def lib_name_def split: if_splits)
qed

lemma unpack_libs_names:
  "unpack_libs fails st es = Inr st' \<Longrightarrow> list_all (\<lambda>(n, _). lib_name n) (snd st) \<Longrightarrow>
     list_all (\<lambda>(n, _). lib_name n) (snd st')"
proof (induction fails st es rule: unpack_libs.induct)
  case (2 fails st e es)
  then obtain st'' where "unpack_lib fails st e = Inr st''" "unpack_libs fails st'' es = Inr st'"
    by (auto simp: try_then_eq_Inr)
  with 2 show ?case using unpack_lib_names by (cases st; cases st'') fastforce
qed simp

text \<open>
  Whatever a runtime bundle holds, the files it leaves beside the binary are shared libraries with
  a plain name.
\<close>

theorem bundle_writes_libraries:
  "safe_extract_libs_tar_gz fails limits entries = Inr written \<Longrightarrow>
     written \<noteq> [] \<and> list_all (\<lambda>(n, _). lib_name n) written"
  using unpack_libs_names[of fails "(new_caps limits, [])" entries]
  by (auto simp: safe_extract_libs_tar_gz_def try_then_eq_Inr split: if_splits)

subsection \<open>What the checks let through\<close>

text \<open>
  A link need only be deeper than its directory, not below it: \<open>a/l\<close> may point at \<open>../b/c\<close>, and a
  later entry written to \<open>a/l\<close> replaces the file \<open>b/c\<close> unpacked before.
\<close>

theorem link_beside_overwrites:
  "safe_symlink_target [''a'', ''l''] ''../b/c'' = Inr ''../b/c''
   \<and> (case safe_extract_tar_gz (for_asset None)
          [sample_file ''llama-server'' ''ELF'', sample_file ''b/c'' ''old'', sample_link ''a/l'' ''../b/c'',
           sample_file ''a/l'' ''new''] None of
        Inr (fs, _) \<Rightarrow> fs [''b'', ''c''] = Some (FileNode (of_str ''new'')) | Inl _ \<Rightarrow> False)"
  by code_simp

text \<open>
  The total is charged what the header field declares, not what the reader yields: entries that
  declare nothing, as a size record of the extended header allows, are written to any total.
\<close>

theorem undeclared_bytes_uncapped:
  "case safe_extract_tar_gz \<lparr>el_max_entries = 9, el_total_bytes = 4, el_per_entry_bytes = 4\<rparr>
       (map (\<lambda>path. map_sum id (\<lambda>e. e\<lparr>te_size := Some 0\<rparr>) (sample_file path ''bomb''))
          [''llama-server'', ''x'', ''y'']) None of
     Inr (fs, _) \<Rightarrow> fs [''x''] = Some (FileNode (of_str ''bomb'')) \<and> fs [''y''] = Some (FileNode (of_str ''bomb''))
   | Inl _ \<Rightarrow> False"
  by code_simp

end
