(* ===== verification/Datetime.thy ===== *)
theory Datetime
  imports Text "HOL-Library.Signed_Division" "HOL-Library.Code_Target_Numeral"
begin

text \<open>
  Calendar arithmetic: \<open>src/util/datetime.rs\<close>. The clock is a parameter (the time since the epoch, or
  that it lies before it) and so is the time zone of \<open>localtime_r\<close>. Signed division truncates;
  \<open>as i32\<close> wraps around. Shown: days and civil dates are in bijection with the Gregorian calendar,
  and a printed date reads back to the day it was printed for.
\<close>

subsection \<open>Civil dates\<close>

definition wrap32 :: "int \<Rightarrow> int" where
  "wrap32 i = (i + 2 ^ 31) mod 2 ^ 32 - 2 ^ 31"

type_synonym civil = "int \<times> nat \<times> nat"

definition civil_from_days :: "int \<Rightarrow> civil" where
  "civil_from_days z0 =
     (let z = z0 + 719468;
          era = (if z \<ge> 0 then z else z - 146096) sdiv 146097;
          doe = nat (z - era * 146097);
          yoe = (doe - doe div 1460 + doe div 36524 - doe div 146096) div 365;
          y = wrap32 (int yoe + wrap32 (wrap32 era * 400));
          doy = doe - (365 * yoe + yoe div 4 - yoe div 100);
          mp = (5 * doy + 2) div 153;
          d = doy - (153 * mp + 2) div 5 + 1;
          m = (if mp < 10 then mp + 3 else mp - 9)
      in (if m \<le> 2 then wrap32 (y + 1) else y, m, d))"

definition days_from_civil :: "civil \<Rightarrow> int" where
  "days_from_civil c =
     (case c of (y0, m, d) \<Rightarrow>
        let y = (if m \<le> 2 then wrap32 (y0 - 1) else y0);
            era = (if y \<ge> 0 then y else wrap32 (y - 399)) sdiv 400;
            yoe = nat (y - era * 400);
            doy = (153 * (if m > 2 then m - 3 else m + 9) + 2) div 5 + d - 1;
            doe = yoe * 365 + yoe div 4 - yoe div 100 + doy
        in era * 146097 + int doe - 719468)"

definition secs_to_ymdhms :: "nat \<Rightarrow> int \<times> nat \<times> nat \<times> nat \<times> nat \<times> nat" where
  "secs_to_ymdhms total_secs =
     (let days = int (total_secs div 86400);
          secs = total_secs mod 86400;
          (y, mo, d) = civil_from_days days
      in (y, mo, d, secs div 3600, secs mod 3600 div 60, secs mod 60))"

definition local_hms :: "(nat \<Rightarrow> (nat \<times> nat \<times> nat) option) \<Rightarrow> nat \<Rightarrow> nat \<times> nat \<times> nat" where
  "local_hms localtime epoch_secs =
     (case localtime epoch_secs of
        Some hms \<Rightarrow> hms
      | None \<Rightarrow> (case secs_to_ymdhms epoch_secs of (_, _, _, h, m, s) \<Rightarrow> (h, m, s)))"

subsection \<open>Text\<close>

text \<open>Zero padding to a width, the sign included.\<close>

definition pad_nat :: "nat \<Rightarrow> nat \<Rightarrow> string" where
  "pad_nat w n = replicate (w - length (show_nat n)) (CHR ''0'') @ show_nat n"

definition pad_int :: "nat \<Rightarrow> int \<Rightarrow> string" where
  "pad_int w i = (if i < 0 then ''-'' @ pad_nat (w - 1) (nat (- i)) else pad_nat w (nat i))"

definition date_text :: "civil \<Rightarrow> string" where
  "date_text c = (case c of (y, m, d) \<Rightarrow> pad_int 4 y @ ''-'' @ pad_nat 2 m @ ''-'' @ pad_nat 2 d)"

text \<open>The clock: seconds since the epoch, or \<open>None\<close> before it.\<close>

definition iso8601 :: "nat option \<Rightarrow> string" where
  "iso8601 since_epoch =
     (case secs_to_ymdhms (case since_epoch of Some s \<Rightarrow> s | None \<Rightarrow> 0) of
        (y, mo, d, h, mi, s) \<Rightarrow>
          date_text (y, mo, d) @ ''T'' @ pad_nat 2 h @ '':'' @ pad_nat 2 mi @ '':'' @ pad_nat 2 s @ ''Z'')"

definition yyyymmdd_from_secs :: "nat \<Rightarrow> string" where
  "yyyymmdd_from_secs total_secs = date_text (civil_from_days (int (total_secs div 86400)))"

definition current_yyyymmdd :: "nat option \<Rightarrow> string option" where
  "current_yyyymmdd since_epoch = map_option yyyymmdd_from_secs since_epoch"

definition parse_yyyymmdd :: "string \<Rightarrow> civil option" where
  "parse_yyyymmdd s =
     (case split_on (CHR ''-'') (trim s) of
        [a, b, c] \<Rightarrow>
          Option.bind (parse_unsigned (2 ^ 31 - 1) a) (\<lambda>y.
          Option.bind (parse_unsigned (2 ^ 32 - 1) b) (\<lambda>m.
          Option.bind (parse_unsigned (2 ^ 32 - 1) c) (\<lambda>d.
            if 1 \<le> m \<and> m \<le> 12 \<and> 1 \<le> d \<and> d \<le> 31 then Some (int y, m, d) else None)))
      | _ \<Rightarrow> None)"

definition days_between :: "civil \<Rightarrow> civil \<Rightarrow> nat option" where
  "days_between a b =
     (if days_from_civil b < days_from_civil a then None
      else Some (nat (days_from_civil b - days_from_civil a)))"

subsection \<open>Years of an era\<close>

text \<open>The day of its era the March of a year begins on.\<close>

definition year_start :: "nat \<Rightarrow> nat" where
  "year_start y = 365 * y + y div 4 - y div 100"

definition year_of_day :: "nat \<Rightarrow> nat" where
  "year_of_day doe = (doe - doe div 1460 + doe div 36524 - doe div 146096) div 365"

definition era_days :: "nat \<Rightarrow> nat" where
  "era_days y = (if y = 400 then 146097 else year_start y)"

lemma minus_div_mono: "a \<le> b \<Longrightarrow> 0 < k \<Longrightarrow> a - a div k \<le> b - b div (k :: nat)"
proof -
  assume "a \<le> b" "0 < k"
  have "a - a div k \<le> Suc a - Suc a div k" for a
    using div_le_dividend[of a k] by (simp add: div_Suc Suc_diff_le)
  then show ?thesis using \<open>a \<le> b\<close> by (rule lift_Suc_mono_le)
qed

lemma year_of_day_mono: "a \<le> b \<Longrightarrow> year_of_day a \<le> year_of_day b"
proof -
  assume le: "a \<le> b"
  have split: "n - n div 1460 + n div 36524 - n div 146096
      = (n - n div 1460) + (n div 36524 - n div 36524 div 4)" for n :: nat
    by (simp add: div_mult2_eq[of n 36524 4, simplified])
  have "a - a div 1460 \<le> b - b div 1460" using minus_div_mono[OF le] by simp
  moreover have "a div 36524 - a div 36524 div 4 \<le> b div 36524 - b div 36524 div 4"
    by (intro minus_div_mono div_le_mono le) simp
  ultimately show ?thesis
    unfolding year_of_day_def split by (intro div_le_mono add_le_mono)
qed

text \<open>The Gregorian calendar.\<close>

definition leap_year :: "int \<Rightarrow> bool" where
  "leap_year y \<longleftrightarrow> 4 dvd y \<and> (\<not> 100 dvd y \<or> 400 dvd y)"

definition month_length :: "int \<Rightarrow> nat \<Rightarrow> nat" where
  "month_length y m =
     (if m = 2 then (if leap_year y then 29 else 28) else if m \<in> {4, 6, 9, 11} then 30 else 31)"

definition civil_valid :: "civil \<Rightarrow> bool" where
  "civil_valid c \<longleftrightarrow> (case c of (y, m, d) \<Rightarrow> 1 \<le> m \<and> m \<le> 12 \<and> 1 \<le> d \<and> d \<le> month_length y m)"

definition year_exact :: "nat \<Rightarrow> bool" where
  "year_exact y \<longleftrightarrow>
     year_of_day (year_start y) = y \<and> year_of_day (era_days (y + 1) - 1) = y
     \<and> era_days (y + 1) = year_start y + (if leap_year (int y + 1) then 366 else 365)"

text \<open>Each year of the era is checked at its first and its last day.\<close>

lemma years_0: "list_all year_exact [0..<50]"
  by code_simp

lemma years_50: "list_all year_exact [50..<100]"
  by code_simp

lemma years_100: "list_all year_exact [100..<150]"
  by code_simp

lemma years_150: "list_all year_exact [150..<200]"
  by code_simp

lemma years_200: "list_all year_exact [200..<250]"
  by code_simp

lemma years_250: "list_all year_exact [250..<300]"
  by code_simp

lemma years_300: "list_all year_exact [300..<350]"
  by code_simp

lemma years_350: "list_all year_exact [350..<400]"
  by code_simp

lemma year_exact: "y < 400 \<Longrightarrow> year_exact y"
proof -
  assume y: "y < 400"
  have "\<forall>y \<in> {0..<50} \<union> {50..<100} \<union> {100..<150} \<union> {150..<200} \<union> {200..<250} \<union> {250..<300}
      \<union> {300..<350} \<union> {350..<400}. year_exact y"
    using years_0 years_50 years_100 years_150 years_200 years_250 years_300 years_350
    by (simp only: list_all_iff set_upt Un_iff) blast
  then show "year_exact y" using y by force
qed

lemma year_length:
  "y < 400 \<Longrightarrow> era_days (y + 1) = year_start y + (if leap_year (int y + 1) then 366 else 365)"
  using year_exact[unfolded year_exact_def] by blast

lemma doy_of_year:
  "y < 400 \<Longrightarrow> year_start y + doy < era_days (y + 1) \<longleftrightarrow> doy < (if leap_year (int y + 1) then 366 else 365)"
  by (simp only: year_length nat_add_left_cancel_less)

text \<open>The year of a day of the era, found by the formula, is the one it lies in.\<close>

lemma year_of_day_in:
  assumes "y < 400" "year_start y \<le> doe" "doe < era_days (y + 1)"
  shows "year_of_day doe = y"
proof (rule antisym)
  note ex = year_exact[OF assms(1), unfolded year_exact_def]
  have "year_of_day doe \<le> year_of_day (era_days (y + 1) - 1)" using assms(3) by (intro year_of_day_mono) simp
  moreover have "year_of_day (era_days (y + 1) - 1) = y" using ex by blast
  ultimately show "year_of_day doe \<le> y" by (simp only:)
  have "year_of_day (year_start y) \<le> year_of_day doe" using assms(2) by (rule year_of_day_mono)
  then show "y \<le> year_of_day doe" using ex by simp
qed

lemma year_found:
  assumes "doe < 146097"
  obtains y where "y < 400" "year_start y \<le> doe" "doe < era_days (y + 1)"
proof -
  define y where "y = Max {y. y < 400 \<and> year_start y \<le> doe}"
  have fin: "finite {y. y < 400 \<and> year_start y \<le> doe}" by simp
  have ne: "{y. y < 400 \<and> year_start y \<le> doe} \<noteq> {}" by (auto intro!: exI[of _ 0] simp: year_start_def)
  from Max_in[OF fin ne] have y: "y < 400" "year_start y \<le> doe" by (simp_all add: y_def)
  moreover have "doe < era_days (y + 1)"
  proof (cases "y + 1 = 400")
    case False
    have "y + 1 \<notin> {y. y < 400 \<and> year_start y \<le> doe}"
    proof
      assume "y + 1 \<in> {y. y < 400 \<and> year_start y \<le> doe}"
      from Max_ge[OF fin this] show False by (simp add: y_def)
    qed
    with False y show ?thesis by (auto simp: era_days_def)
  qed (use assms in \<open>simp add: era_days_def\<close>)
  ultimately show thesis by (rule that)
qed

subsection \<open>Days and dates\<close>

lemma wrap32_id: "- (2 ^ 31) \<le> i \<Longrightarrow> i < 2 ^ 31 \<Longrightarrow> wrap32 i = i"
  by (simp add: wrap32_def)

lemma truncated_floor:
  "(if z \<ge> 0 then z else z - 146096) sdiv 146097 = z div (146097 :: int)"
  "(if z \<ge> 0 then z else z - 399) sdiv 400 = z div (400 :: int)"
  by (auto simp: signed_divide_int_def sgn_if)

text \<open>Months, counted from March, by the days before them.\<close>

lemma month_of_day:
  assumes "doy \<le> (365 :: nat)" "mp = (5 * doy + 2) div 153" "d = doy - (153 * mp + 2) div 5 + 1"
    "m = (if mp < 10 then mp + 3 else mp - 9)"
  shows "1 \<le> m" "m \<le> 12" "1 \<le> d" "d \<le> 31" "(if m > 2 then m - 3 else m + 9) = mp"
    "(153 * mp + 2) div 5 + d - 1 = doy"
proof -
  define before where "before = (153 * mp + 2) div 5"
  have mp_bounds: "153 * mp \<le> 5 * doy + 2" "5 * doy + 2 < 153 * mp + 153"
    using assms(2) by simp_all
  have before: "5 * before \<le> 153 * mp + 2" "153 * mp + 2 < 5 * before + 5"
    by (simp_all add: before_def)
  have mp: "mp \<le> 11" using mp_bounds assms(1) by linarith
  have lo: "(153 * mp + 2) div 5 \<le> doy" and hi: "doy < (153 * mp + 2) div 5 + 31"
    using mp_bounds before unfolding before_def[symmetric] by linarith+
  show "1 \<le> m" "m \<le> 12" "(if m > 2 then m - 3 else m + 9) = mp"
    using mp assms(4) by (auto split: if_splits)
  show "1 \<le> d" "d \<le> 31" "(153 * mp + 2) div 5 + d - 1 = doy" using lo hi assms(3) by simp_all
qed

definition day_in_range :: "int \<Rightarrow> bool" where
  "day_in_range z \<longleftrightarrow> \<bar>z\<bar> \<le> 700000000000"

text \<open>A date by the year of its March and the day of that year.\<close>

lemma civil_parts:
  assumes "day_in_range z"
  obtains era yoe doy where
    "yoe < 400" "doy \<le> 365" "year_start yoe + doy < era_days (yoe + 1)"
    "z + 719468 = era * 146097 + int (year_start yoe + doy)" "\<bar>era\<bar> \<le> 5000000"
    "civil_from_days z =
      (let mp = (5 * doy + 2) div 153; m = (if mp < 10 then mp + 3 else mp - 9)
       in (era * 400 + int yoe + (if m \<le> 2 then 1 else 0), m, doy - (153 * mp + 2) div 5 + 1))"
proof -
  define w where "w = z + 719468"
  define era where "era = w div 146097"
  define doe where "doe = nat (w mod 146097)"
  have doe: "doe < 146097" "int doe = w mod 146097" by (simp_all add: doe_def)
  have w: "w = era * 146097 + int doe" by (simp add: era_def doe(2))
  have era: "\<bar>era\<bar> \<le> 5000000" using assms w doe(1) unfolding day_in_range_def w_def by linarith
  obtain yoe where y: "yoe < 400" "year_start yoe \<le> doe" "doe < era_days (yoe + 1)"
    using year_found[OF doe(1)] .
  define doy where "doy = doe - year_start yoe"
  have doy: "doe = year_start yoe + doy" using y(2) by (simp add: doy_def)
  have "doy \<le> 365"
    using year_exact[OF y(1), unfolded year_exact_def] y(3) doy by (auto split: if_splits)
  have yod: "(doe - doe div 1460 + doe div 36524 - doe div 146096) div 365 = yoe"
    using year_of_day_in[OF y] by (simp add: year_of_day_def)
  have d: "doe - (365 * yoe + yoe div 4 - yoe div 100) = doy" by (simp add: doy_def year_start_def)
  have wraps: "wrap32 era = era" "wrap32 (era * 400) = era * 400"
    "wrap32 (int yoe + era * 400) = int yoe + era * 400"
    "wrap32 (int yoe + era * 400 + 1) = int yoe + era * 400 + 1"
    using era y(1) by (auto intro!: wrap32_id)
  have e: "nat (w - era * 146097) = doe" by (simp add: w)
  have "civil_from_days z =
      (let mp = (5 * doy + 2) div 153; m = (if mp < 10 then mp + 3 else mp - 9)
       in (era * 400 + int yoe + (if m \<le> 2 then 1 else 0), m, doy - (153 * mp + 2) div 5 + 1))"
    unfolding civil_from_days_def w_def[symmetric] truncated_floor Let_def era_def[symmetric] e yod d wraps
    by (simp add: wraps add.commute)
  moreover have "z + 719468 = era * 146097 + int (year_start yoe + doy)" using w doy by (simp add: w_def)
  ultimately show thesis using that y(1,3) \<open>doy \<le> 365\<close> era doy by simp
qed

lemma days_of_parts:
  assumes "yoe < 400" "\<bar>era\<bar> \<le> 5000000"
    and "y = era * 400 + int yoe + (if m \<le> 2 then 1 else 0)"
  shows "days_from_civil (y, m, d)
    = era * 146097 + int (year_start yoe + ((153 * (if m > 2 then m - 3 else m + 9) + 2) div 5 + d - 1)) - 719468"
proof -
  have wraps: "m \<le> 2 \<Longrightarrow> wrap32 (y - 1) = era * 400 + int yoe" "\<not> m \<le> 2 \<Longrightarrow> y = era * 400 + int yoe"
    "wrap32 (era * 400 + int yoe - 399) = era * 400 + int yoe - 399"
    using assms by (auto intro!: wrap32_id)
  have div: "(era * 400 + int yoe) div 400 = era" using assms(1) by simp
  have e: "(if era * 400 + int yoe \<ge> 0 then era * 400 + int yoe else wrap32 (era * 400 + int yoe - 399)) sdiv 400 = era"
    using truncated_floor(2)[of "era * 400 + int yoe"] by (simp only: wraps(3) div)
  have yy: "(if m \<le> 2 then wrap32 (y - 1) else y) = era * 400 + int yoe" using wraps(1,2) by simp
  show ?thesis
    unfolding days_from_civil_def prod.case yy Let_def e by (simp add: year_start_def mult.commute)
qed

lemma days_of_civil: "day_in_range z \<Longrightarrow> days_from_civil (civil_from_days z) = z"
proof -
  assume "day_in_range z"
  then obtain era yoe doy where
    y: "yoe < 400" and doy: "doy \<le> 365" and z: "z + 719468 = era * 146097 + int (year_start yoe + doy)"
    and era: "\<bar>era\<bar> \<le> 5000000"
    and c: "civil_from_days z =
      (let mp = (5 * doy + 2) div 153; m = (if mp < 10 then mp + 3 else mp - 9)
       in (era * 400 + int yoe + (if m \<le> 2 then 1 else 0), m, doy - (153 * mp + 2) div 5 + 1))"
    by (rule civil_parts)
  define mp where "mp = (5 * doy + 2) div 153"
  define m where "m = (if mp < 10 then mp + 3 else mp - 9)"
  define d where "d = doy - (153 * mp + 2) div 5 + 1"
  note month = month_of_day[OF doy mp_def d_def m_def]
  have "civil_from_days z = (era * 400 + int yoe + (if m \<le> 2 then 1 else 0), m, d)"
    by (simp only: c Let_def mp_def[symmetric] m_def[symmetric] d_def[symmetric])
  then have "days_from_civil (civil_from_days z)
      = era * 146097 + int (year_start yoe + ((153 * mp + 2) div 5 + d - 1)) - 719468"
    using days_of_parts[OF y era refl, of m d] month(5) by simp
  then show ?thesis using month(6) z by simp
qed

text \<open>The lengths of the months, counted from March, against the formula.\<close>

lemma month_offsets:
  assumes "mp \<le> (11 :: nat)" "m = (if mp < 10 then mp + 3 else mp - 9)"
  shows "doy = (153 * mp + 2) div 5 + d - 1 \<Longrightarrow> 1 \<le> d \<Longrightarrow> d \<le> month_length y m \<Longrightarrow>
      (5 * doy + 2) div 153 = mp \<and> doy \<le> (if leap_year y then 365 else if mp = 11 then 364 else 365)"
    and "(5 * doy + 2) div 153 = mp \<Longrightarrow> doy \<le> 365 \<Longrightarrow> (mp = 11 \<longrightarrow> leap_year y \<or> doy \<le> 364) \<Longrightarrow>
      doy - (153 * mp + 2) div 5 + 1 \<le> month_length y m"
proof -
  have "mp \<in> {0, 1, 2, 3, 4, 5, 6, 7, 8, 9, 10, 11}"
    unfolding insert_iff empty_iff using assms(1) by presburger
  then show "doy = (153 * mp + 2) div 5 + d - 1 \<Longrightarrow> 1 \<le> d \<Longrightarrow> d \<le> month_length y m \<Longrightarrow>
      (5 * doy + 2) div 153 = mp \<and> doy \<le> (if leap_year y then 365 else if mp = 11 then 364 else 365)"
    using assms(2) by (elim insertE) (auto simp: month_length_def div_nat_eqI split: if_splits)
  show "(5 * doy + 2) div 153 = mp \<Longrightarrow> doy \<le> 365 \<Longrightarrow> (mp = 11 \<longrightarrow> leap_year y \<or> doy \<le> 364) \<Longrightarrow>
      doy - (153 * mp + 2) div 5 + 1 \<le> month_length y m"
    using \<open>mp \<in> _\<close> assms(2)
    by (elim insertE) (auto simp: month_length_def split: if_splits)
qed

lemma leap_in_era: "leap_year (era * 400 + k) = leap_year k"
proof -
  have "(4 :: int) dvd era * 400 + k \<longleftrightarrow> 4 dvd k" "(100 :: int) dvd era * 400 + k \<longleftrightarrow> 100 dvd k"
    "(400 :: int) dvd era * 400 + k \<longleftrightarrow> 400 dvd k"
    by (rule dvd_add_right_iff, rule dvd_mult, simp)+
  then show ?thesis by (simp only: leap_year_def)
qed

lemma civil_of_days_valid: "day_in_range z \<Longrightarrow> civil_valid (civil_from_days z)"
proof -
  assume "day_in_range z"
  then obtain era yoe doy where
    y: "yoe < 400" and doy: "doy \<le> 365" and inside: "year_start yoe + doy < era_days (yoe + 1)"
    and z: "z + 719468 = era * 146097 + int (year_start yoe + doy)" and era: "\<bar>era\<bar> \<le> 5000000"
    and c: "civil_from_days z =
      (let mp = (5 * doy + 2) div 153; m = (if mp < 10 then mp + 3 else mp - 9)
       in (era * 400 + int yoe + (if m \<le> 2 then 1 else 0), m, doy - (153 * mp + 2) div 5 + 1))"
    by (rule civil_parts)
  define mp where mp_def: "mp = (5 * doy + 2) div 153"
  define m where m_def: "m = (if mp < 10 then mp + 3 else mp - 9)"
  define yr where "yr = era * 400 + int yoe + (if m \<le> 2 then 1 else 0)"
  note month = month_of_day[OF doy mp_def refl m_def]
  have mp: "mp \<le> 11" using doy unfolding mp_def by linarith
  have "leap_year yr \<or> doy \<le> 364" if "mp = 11"
  proof -
    have "yr = era * 400 + (int yoe + 1)" using that by (simp add: yr_def m_def)
    then have "leap_year yr = leap_year (int yoe + 1)" by (simp only: leap_in_era)
    with inside[unfolded doy_of_year[OF y]] show ?thesis by (cases "leap_year yr") simp_all
  qed
  then have "mp = 11 \<longrightarrow> leap_year yr \<or> doy \<le> 364" by blast
  from month_offsets(2)[OF mp m_def mp_def[symmetric] doy this]
  have "doy - (153 * mp + 2) div 5 + 1 \<le> month_length yr m" .
  moreover have "civil_from_days z = (yr, m, doy - (153 * mp + 2) div 5 + 1)"
    by (simp only: c Let_def mp_def[symmetric] m_def[symmetric] yr_def[symmetric])
  moreover have "1 \<le> m" "m \<le> 12" by (rule month(1), rule month(2))
  ultimately show ?thesis by (simp add: civil_valid_def)
qed

lemma civil_of_civil_days:
  assumes "civil_valid (y, m, d)" "\<bar>y\<bar> \<le> 1000000000"
  shows "civil_from_days (days_from_civil (y, m, d)) = (y, m, d) \<and> day_in_range (days_from_civil (y, m, d))"
proof -
  define yy where "yy = y - (if m \<le> 2 then 1 else 0)"
  define era where "era = yy div 400"
  define yoe where "yoe = nat (yy mod 400)"
  define mp where "mp = (if m > 2 then m - 3 else m + 9)"
  define doy where "doy = (153 * mp + 2) div 5 + d - 1"
  have yoe: "yoe < 400" "int yoe = yy mod 400" by (simp_all add: yoe_def nat_less_iff)
  have era_small: "\<bar>era\<bar> \<le> 2600000" using assms(2) unfolding era_def yy_def by (auto split: if_splits)
  then have era: "\<bar>era\<bar> \<le> 5000000" by linarith
  have y: "y = era * 400 + int yoe + (if m \<le> 2 then 1 else 0)" using yoe(2) by (simp add: era_def yy_def)
  have valid: "1 \<le> m" "m \<le> 12" "1 \<le> d" "d \<le> month_length y m" using assms(1) by (simp_all add: civil_valid_def)
  have mp: "mp \<le> 11" "m = (if mp < 10 then mp + 3 else mp - 9)" using valid by (auto simp: mp_def)
  from month_offsets(1)[OF mp doy_def valid(3,4)] have
    month: "(5 * doy + 2) div 153 = mp" "doy \<le> 365" "leap_year y \<or> mp \<noteq> 11 \<or> doy \<le> 364"
    by (auto split: if_splits)
  have days: "days_from_civil (y, m, d) = era * 146097 + int (year_start yoe + doy) - 719468"
    using days_of_parts[OF yoe(1) era y, of d] by (simp only: mp_def[symmetric] doy_def[symmetric])
  have inside: "year_start yoe + doy < era_days (yoe + 1)"
  proof (cases "leap_year (int yoe + 1)")
    case True
    then show ?thesis unfolding doy_of_year[OF yoe(1)] using month(2) by simp
  next
    case False
    have "doy \<le> 364"
    proof (cases "mp = 11")
      case True
      then have "y = era * 400 + (int yoe + 1)" using y mp by (auto split: if_splits)
      then show ?thesis using False month(3) True by (simp only: leap_in_era simp_thms)
    next
      case False
      then show ?thesis using month(1) mp(1) by linarith
    qed
    then show ?thesis unfolding doy_of_year[OF yoe(1)] using False by simp
  qed
  have doe: "year_start yoe + doy < 146097"
    using inside yoe(1) unfolding era_days_def year_start_def by (cases "yoe + 1 = 400") simp_all
  have range: "day_in_range (days_from_civil (y, m, d))"
    using era_small doe unfolding day_in_range_def days abs_le_iff by linarith
  from range obtain era2 yoe2 doy2 where
    y2: "yoe2 < 400" and doy365: "doy2 \<le> 365" and doy2: "year_start yoe2 + doy2 < era_days (yoe2 + 1)"
    and z: "days_from_civil (y, m, d) + 719468 = era2 * 146097 + int (year_start yoe2 + doy2)"
    and "\<bar>era2\<bar> \<le> 5000000"
    and c: "civil_from_days (days_from_civil (y, m, d)) =
      (let mp = (5 * doy2 + 2) div 153; m = (if mp < 10 then mp + 3 else mp - 9)
       in (era2 * 400 + int yoe2 + (if m \<le> 2 then 1 else 0), m, doy2 - (153 * mp + 2) div 5 + 1))"
    by (rule civil_parts)
  have doe2: "year_start yoe2 + doy2 < 146097"
    using doy2 y2 unfolding era_days_def year_start_def by (cases "yoe2 + 1 = 400") simp_all
  have eq: "era2 * 146097 + int (year_start yoe2 + doy2) = era * 146097 + int (year_start yoe + doy)"
    using z days by linarith
  have era_eq: "era2 = era"
    using eq doe doe2 by linarith
  with eq have doe_eq: "year_start yoe2 + doy2 = year_start yoe + doy" by simp
  have yoe_eq: "yoe2 = yoe"
    using year_of_day_in[OF y2 _ doy2] year_of_day_in[OF yoe(1) _ inside] doe_eq by simp
  with doe_eq have doy_eq: "doy2 = doy" by simp
  have "doy - (153 * mp + 2) div 5 + 1 = d" using valid(3) by (simp add: doy_def)
  then have "civil_from_days (days_from_civil (y, m, d)) = (y, m, d)"
    by (simp only: c era_eq yoe_eq doy_eq Let_def month(1) mp(2)[symmetric] y[symmetric])
  with range show ?thesis by blast
qed

text \<open>The calendar itself: the day after a date.\<close>

definition next_civil :: "civil \<Rightarrow> civil" where
  "next_civil c =
     (case c of (y, m, d) \<Rightarrow>
        if d < month_length y m then (y, m, d + 1) else if m < 12 then (y, m + 1, 1) else (y + 1, 1, 1))"

text \<open>The first of March of a year, and the days from it to the months that follow.\<close>

definition march :: "int \<Rightarrow> int" where
  "march y = y div 400 * 146097 + int (year_start (nat (y mod 400))) - 719468"

lemma march_next: "march (y + 1) = march y + (if leap_year (y + 1) then 366 else 365)"
proof -
  define k where "k = nat (y mod 400)"
  have k: "k < 400" "int k = y mod 400" by (simp_all add: k_def nat_less_iff)
  have y: "y = (y div 400) * 400 + int k" using k(2) by simp
  have leap: "leap_year (y + 1) = leap_year (int k + 1)"
  proof -
    have "y + 1 = y div 400 * 400 + (int k + 1)" using y by linarith
    then have "leap_year (y + 1) = leap_year (y div 400 * 400 + (int k + 1))" by (rule arg_cong)
    then show ?thesis by (simp only: leap_in_era)
  qed
  have era: "int (era_days (k + 1)) = int (year_start k) + (if leap_year (int k + 1) then 366 else 365)"
    by (simp only: year_length[OF k(1)]) simp
  show ?thesis
  proof (cases "k = 399")
    case True
    have "y = q * 400 + int k \<Longrightarrow> y + 1 = (q + 1) * 400" for q using True by simp
    from this[OF y] have "y + 1 = (y div 400 + 1) * 400" .
    then have "(y + 1) mod 400 = 0" "(y + 1) div 400 = y div 400 + 1"
      by (metis mod_mult_self2_is_0, metis nonzero_mult_div_cancel_right zero_neq_numeral)
    then show ?thesis using era True unfolding leap march_def k_def[symmetric]
      by (simp add: era_days_def year_start_def)
  next
    case False
    then have "y + 1 = y div 400 * 400 + int (k + 1)" "k + 1 < 400" using y k(1) by linarith+
    then have "(y + 1) mod 400 = int (k + 1)" "(y + 1) div 400 = y div 400"
      by (intro int_mod_pos_eq[of _ _ "y div 400"] int_div_pos_eq[of _ _ _ "int (k + 1)"]; simp)+
    then have "nat ((y + 1) mod 400) = k + 1" "(y + 1) div 400 = y div 400" by simp_all
    then show ?thesis using era False unfolding leap march_def k_def[symmetric] by (simp add: era_days_def)
  qed
qed

lemma year_in_era:
  "nat (x mod 400) < 400" "x = x div 400 * 400 + int (nat (x mod 400))" for x :: int
  by (simp_all add: nat_less_iff)

lemma days_from_march:
  assumes "\<bar>y\<bar> \<le> 1000000001"
  shows "m > 2 \<Longrightarrow> days_from_civil (y, m, d) = march y + int ((153 * (m - 3) + 2) div 5 + d - 1)"
    and "m \<le> 2 \<Longrightarrow> days_from_civil (y, m, d) = march (y - 1) + int ((153 * (m + 9) + 2) div 5 + d - 1)"
proof -
  have era: "\<bar>y div 400\<bar> \<le> 5000000" "\<bar>(y - 1) div 400\<bar> \<le> 5000000"
    using assms by linarith+
  show "days_from_civil (y, m, d) = march y + int ((153 * (m - 3) + 2) div 5 + d - 1)" if m: "m > 2"
  proof -
    have "y = y div 400 * 400 + int (nat (y mod 400)) + (if m \<le> 2 then 1 else 0)"
      using year_in_era(2)[of y] m by simp
    from days_of_parts[OF year_in_era(1) era(1) this, of d] show ?thesis
      using m by (simp add: march_def)
  qed
  show "days_from_civil (y, m, d) = march (y - 1) + int ((153 * (m + 9) + 2) div 5 + d - 1)" if m: "m \<le> 2"
  proof -
    have "y = (y - 1) div 400 * 400 + int (nat ((y - 1) mod 400)) + (if m \<le> 2 then 1 else 0)"
      using year_in_era(2)[of "y - 1"] m by simp
    from days_of_parts[OF year_in_era(1) era(2) this, of d] show ?thesis
      using m by (simp add: march_def)
  qed
qed

lemma month_cases:
  assumes "1 \<le> m" "m \<le> (12 :: nat)"
  shows "m = 1 \<or> m = 2 \<or> m = 3 \<or> m = 4 \<or> m = 5 \<or> m = 6 \<or> m = 7 \<or> m = 8 \<or> m = 9 \<or> m = 10 \<or> m = 11 \<or> m = 12"
  using assms by presburger

lemma days_of_next:
  assumes "civil_valid c" "\<bar>fst c\<bar> \<le> 1000000000"
  shows "days_from_civil (next_civil c) = days_from_civil c + 1"
proof -
  obtain y m d where c: "c = (y, m, d)" by (cases c)
  have v: "1 \<le> m" "m \<le> 12" "1 \<le> d" "d \<le> month_length y m" and y: "\<bar>y\<bar> \<le> 1000000001" "\<bar>y + 1\<bar> \<le> 1000000001"
    using assms c by (auto simp: civil_valid_def)
  note dm = days_from_march[OF y(1)] days_from_march[OF y(2)]
  show ?thesis
  proof (cases "d < month_length y m")
    case True
    then show ?thesis using v(3) by (cases "m > 2") (simp_all add: c next_civil_def dm)
  next
    case False
    then have "d = month_length y m" using v(4) by simp
    then show ?thesis
      using month_cases[OF v(1,2)] march_next[of "y - 1"]
      by (elim disjE) (simp_all add: c next_civil_def dm month_length_def)
  qed
qed

text \<open>Printed dates.\<close>

lemma parse_digits_zeros: "parse_digits m 0 (replicate k (CHR ''0'') @ s) = parse_digits m 0 s"
  by (induction k) (simp_all add: digit_val_def)

lemma pad_nat_digits: "list_all is_digit (pad_nat w n)"
  using show_nat_digits[of n] by (auto simp: pad_nat_def list_all_iff is_digit_def)

lemma pad_nat_Cons: "\<exists>d cs. is_digit d \<and> pad_nat w n = d # cs"
proof -
  have "pad_nat w n \<noteq> []" using show_nat_Cons[of n] by (auto simp: pad_nat_def)
  then show ?thesis using pad_nat_digits[of w n] by (cases "pad_nat w n") auto
qed

lemma parse_pad_nat: "n \<le> m \<Longrightarrow> parse_unsigned m (pad_nat w n) = Some n"
proof -
  assume n: "n \<le> m"
  obtain d cs where d: "is_digit d" "pad_nat w n = d # cs" using pad_nat_Cons by blast
  then have sign: "(case pad_nat w n of CHR ''+'' # cs \<Rightarrow> cs | _ \<Rightarrow> pad_nat w n) = pad_nat w n"
    by (auto simp: is_digit_def split: list.split char.split bool.splits)
  have "parse_digits m 0 (pad_nat w n) = Some n"
    unfolding pad_nat_def parse_digits_zeros by (rule parse_digits_show_nat[OF n])
  then show ?thesis unfolding parse_unsigned_def sign Let_def using d(2) by simp
qed

lemma dash_no_digit: "CHR ''-'' \<notin> set (pad_nat w n)"
  using pad_nat_digits[of w n] by (auto simp: list_all_iff is_digit_def)

lemma date_text_trim: "0 \<le> y \<Longrightarrow> trim (date_text (y, m, d)) = date_text (y, m, d)"
proof -
  assume "0 \<le> y"
  have "list_all printable (pad_nat w n)" for w n
    using pad_nat_digits[of w n] digit_printable by (auto simp: list_all_iff)
  then have "list_all printable (date_text (y, m, d))"
    using \<open>0 \<le> y\<close> by (simp add: date_text_def pad_int_def) (simp add: printable_def)
  then show ?thesis by (rule trim_printable)
qed

lemma parse_date_text:
  assumes "civil_valid (y, m, d)" "0 \<le> y" "y < 2 ^ 31"
  shows "parse_yyyymmdd (date_text (y, m, d)) = Some (y, m, d)"
proof -
  have "month_length y m \<le> 31" by (simp add: month_length_def)
  then have v: "1 \<le> m" "m \<le> 12" "1 \<le> d" "d \<le> 31" using assms(1) by (auto simp: civil_valid_def)
  have fields: "date_text (y, m, d) = pad_nat 4 (nat y) @ CHR ''-'' # pad_nat 2 m @ CHR ''-'' # pad_nat 2 d"
    using assms(2) by (simp add: date_text_def pad_int_def)
  have parts: "split_on (CHR ''-'') (date_text (y, m, d)) = [pad_nat 4 (nat y), pad_nat 2 m, pad_nat 2 d]"
    unfolding fields by (simp only: split_on_append[OF dash_no_digit] split_on_single[OF dash_no_digit])
  have "nat y \<le> 2 ^ 31 - 1" "m \<le> 2 ^ 32 - 1" "d \<le> 2 ^ 32 - 1" using assms(3) v by auto
  then have "parse_unsigned (2 ^ 31 - 1) (pad_nat 4 (nat y)) = Some (nat y)"
    "parse_unsigned (2 ^ 32 - 1) (pad_nat 2 m) = Some m" "parse_unsigned (2 ^ 32 - 1) (pad_nat 2 d) = Some d"
    by (simp_all only: parse_pad_nat)
  then show ?thesis
    unfolding parse_yyyymmdd_def date_text_trim[OF assms(2)] parts using v assms(2) by simp
qed

subsection \<open>The calendar\<close>

lemma year_of_days:
  assumes "\<bar>z\<bar> \<le> 300000000000"
  shows "\<bar>fst (civil_from_days z)\<bar> \<le> 900000000" and "0 \<le> z \<Longrightarrow> 0 \<le> fst (civil_from_days z)"
proof -
  have "day_in_range z" using assms by (simp add: day_in_range_def)
  then obtain era yoe doy where
    y: "yoe < 400" and "doy \<le> 365" and inside: "year_start yoe + doy < era_days (yoe + 1)"
    and z: "z + 719468 = era * 146097 + int (year_start yoe + doy)" and "\<bar>era\<bar> \<le> 5000000"
    and c: "civil_from_days z =
      (let mp = (5 * doy + 2) div 153; m = (if mp < 10 then mp + 3 else mp - 9)
       in (era * 400 + int yoe + (if m \<le> 2 then 1 else 0), m, doy - (153 * mp + 2) div 5 + 1))"
    by (rule civil_parts)
  have doe: "year_start yoe + doy < 146097"
    using inside y unfolding era_days_def year_start_def by (cases "yoe + 1 = 400") simp_all
  have era: "- 2200000 \<le> era" "era \<le> 2200000" using z doe assms unfolding abs_le_iff by linarith+
  obtain e where e: "e = 0 \<or> e = 1" "fst (civil_from_days z) = era * 400 + int yoe + e"
    unfolding c Let_def by (cases "(if (5 * doy + 2) div 153 < 10 then (5 * doy + 2) div 153 + 3
      else (5 * doy + 2) div 153 - 9) \<le> 2") auto
  show "\<bar>fst (civil_from_days z)\<bar> \<le> 900000000" using e era y by auto
  assume "0 \<le> z"
  then have "0 \<le> era" using z doe by linarith
  then show "0 \<le> fst (civil_from_days z)" using e by auto
qed

lemma next_civil_valid:
  "civil_valid c \<Longrightarrow> civil_valid (next_civil c) \<and> \<bar>fst (next_civil c)\<bar> \<le> \<bar>fst c\<bar> + 1"
  by (cases c) (auto simp: civil_valid_def next_civil_def month_length_def split: if_splits)

text \<open>
  C40. \<open>civil_from_days\<close> and \<open>days_from_civil\<close> are the Gregorian calendar: every day within eight hundred
  million years of the epoch has a valid date which counts back to that day, day \<open>0\<close> is the first of
  January 1970, and the date of the next day is the next date (with the lengths of the months and the
  leap years of the calendar).
\<close>

theorem dates_are_gregorian:
  assumes "\<bar>z\<bar> \<le> 300000000000"
  shows "civil_valid (civil_from_days z) \<and> days_from_civil (civil_from_days z) = z
    \<and> civil_from_days 0 = (1970, 1, 1) \<and> civil_from_days (z + 1) = next_civil (civil_from_days z)"
proof (intro conjI)
  have range: "day_in_range z" using assms by (simp add: day_in_range_def)
  show valid: "civil_valid (civil_from_days z)" by (rule civil_of_days_valid[OF range])
  show days: "days_from_civil (civil_from_days z) = z" by (rule days_of_civil[OF range])
  show "civil_from_days 0 = (1970, 1, 1)" by code_simp
  have year: "\<bar>fst (civil_from_days z)\<bar> \<le> 900000000" by (rule year_of_days(1)[OF assms])
  then have next_day: "days_from_civil (next_civil (civil_from_days z)) = z + 1"
    using days_of_next[OF valid] days by simp
  obtain y m d where n: "next_civil (civil_from_days z) = (y, m, d)" by (cases "next_civil (civil_from_days z)")
  with next_civil_valid[OF valid] year have "civil_valid (y, m, d)" "\<bar>y\<bar> \<le> 1000000000" by auto
  from conjunct1[OF civil_of_civil_days[OF this]] next_day n
  show "civil_from_days (z + 1) = next_civil (civil_from_days z)" by simp
qed

theorem dates_are_gregorian_witness:
  "civil_from_days 20512 = (2026, 2, 28) \<and> civil_from_days (20512 + 1) = (2026, 3, 1)
   \<and> next_civil (2028, 2, 28) = (2028, 2, 29)"
proof -
  have date: "civil_from_days 20512 = (2026, 2, 28)" "next_civil (2026, 2, 28) = (2026, 3, 1)"
    "next_civil (2028, 2, 28) = (2028, 2, 29)"
    by code_simp+
  have "\<bar>20512\<bar> \<le> (300000000000 :: int)" by simp
  from dates_are_gregorian[OF this] date show ?thesis by (simp only: simp_thms)
qed

text \<open>
  A date printed for one time and a date printed for a later one read back, and the age in days
  counted from them (\<open>days_between\<close>, which \<open>doctor\<close> compares with its limit) is the exact number of
  days between the two, and none when the order is reversed.
\<close>

theorem printed_dates_give_age:
  assumes "s \<le> t" "t < 2 ^ 54"
  shows "\<exists>a b. parse_yyyymmdd (yyyymmdd_from_secs s) = Some a \<and> parse_yyyymmdd (yyyymmdd_from_secs t) = Some b
    \<and> days_between a b = Some (t div 86400 - s div 86400)
    \<and> days_between b a = (if s div 86400 = t div 86400 then Some 0 else None)"
proof -
  have day: "parse_yyyymmdd (yyyymmdd_from_secs u) = Some (civil_from_days (int (u div 86400)))
      \<and> days_from_civil (civil_from_days (int (u div 86400))) = int (u div 86400)" if u: "u < 2 ^ 54" for u
  proof -
    have z: "\<bar>int (u div 86400)\<bar> \<le> 300000000000" "0 \<le> int (u div 86400)" using u by auto
    obtain y m d where c: "civil_from_days (int (u div 86400)) = (y, m, d)"
      by (cases "civil_from_days (int (u div 86400))")
    have range: "day_in_range (int (u div 86400))" using z(1) by (simp add: day_in_range_def)
    have "civil_valid (y, m, d)" "0 \<le> y" "y < 2 ^ 31"
      using civil_of_days_valid[OF range] year_of_days[OF z(1)] z(2) c by auto
    from parse_date_text[OF this] days_of_civil[OF range] c show ?thesis
      by (simp add: yyyymmdd_from_secs_def)
  qed
  have le: "s div 86400 \<le> t div 86400" using assms(1) by (rule div_le_mono)
  have "s < 2 ^ 54" using assms by linarith
  note day[OF this] day[OF assms(2)]
  then show ?thesis using le by (auto simp: days_between_def nat_diff_distrib)
qed

theorem printed_dates_give_age_witness:
  "\<exists>a b. parse_yyyymmdd ''2026-05-24'' = Some a \<and> parse_yyyymmdd ''2026-07-03'' = Some b
    \<and> days_between a b = Some 40 \<and> days_between b a = None"
proof -
  have "yyyymmdd_from_secs 1779600000 = ''2026-05-24''" "yyyymmdd_from_secs 1783036800 = ''2026-07-03''"
    by code_simp+
  then show ?thesis using printed_dates_give_age[of 1779600000 1783036800] by simp
qed

end
