(* ===== verification/Utf8_Chars.thy ===== *)
theory Utf8_Chars
  imports Text
begin

text \<open>
  The characters of a text: \<open>str::chars\<close> over the UTF-8 bytes a \<open>string\<close> holds. A character is the
  bytes that encode it; its code point is read from them. The bytes of a text are always well formed
  in the program; on other bytes the functions still return.
\<close>

definition byte :: "char \<Rightarrow> nat" where
  "byte c = of_char c"

definition char_width :: "char \<Rightarrow> nat" where
  "char_width c =
     (let b = byte c in if b < 194 then 1 else if b < 224 then 2 else if b < 240 then 3 else 4)"

lemma char_width_pos [simp]: "0 < char_width c"
  by (simp add: char_width_def Let_def)

function chars :: "string \<Rightarrow> string list" where
  "chars [] = []"
| "chars (c # cs) = take (char_width c) (c # cs) # chars (drop (char_width c) (c # cs))"
  by pat_completeness auto
termination
  by (relation "measure length") (simp_all add: char_width_def Let_def)

lemma concat_chars [simp]: "concat (chars s) = s"
  by (induction s rule: chars.induct) simp_all

lemma chars_nonempty: "ch \<in> set (chars s) \<Longrightarrow> ch \<noteq> []"
  by (induction s rule: chars.induct) (auto simp: char_width_def Let_def split: if_splits)

fun code_point :: "string \<Rightarrow> nat" where
  "code_point [] = 0"
| "code_point [a] = byte a"
| "code_point [a, b] = (byte a - 192) * 64 + (byte b - 128)"
| "code_point [a, b, c] = (byte a - 224) * 4096 + (byte b - 128) * 64 + (byte c - 128)"
| "code_point (a # b # c # d # _) =
     (byte a - 240) * 262144 + (byte b - 128) * 4096 + (byte c - 128) * 64 + (byte d - 128)"

text \<open>A text given by its characters is cut into them again.\<close>

definition one_char :: "string \<Rightarrow> bool" where
  "one_char ch \<longleftrightarrow> ch \<noteq> [] \<and> length ch = char_width (hd ch)"

lemma chars_Cons: "one_char ch \<Longrightarrow> chars (ch @ s) = ch # chars s"
  by (cases ch) (auto simp: one_char_def dest!: sym[of "Suc _"])

lemma chars_concat: "list_all one_char chs \<Longrightarrow> chars (concat chs) = chs"
  by (induction chs) (simp_all add: chars_Cons)

text \<open>Well-formed text: no character is cut short.\<close>

definition whole_chars :: "string \<Rightarrow> bool" where
  "whole_chars s \<longleftrightarrow> list_all one_char (chars s)"

lemma whole_chars_ascii: "list_all (\<lambda>c. byte c < 128) s \<Longrightarrow> chars s = map (\<lambda>c. [c]) s"
  by (induction s) (simp_all add: char_width_def)

text \<open>\<open>char::is_control\<close>: the category Cc.\<close>

definition is_control :: "nat \<Rightarrow> bool" where
  "is_control c \<longleftrightarrow> c < 32 \<or> (127 \<le> c \<and> c < 160)"

end
