(* ===== verification/Request_Row.thy ===== *)
theory Request_Row
  imports Usage_Tap Utf8_Chars "HOL-Library.Product_Lexorder"
begin

text \<open>
  One logged request and the figures added up over requests: the row, its predicates, the cleaning of
  stored text, \<open>Totals\<close>, \<open>Throughput\<close>, \<open>Clients\<close> and \<open>RowFigures\<close> of
  \<open>src/proxy/request_log.rs\<close>. Shown: the busy wall of a scope is the size of the union of its
  windows, and stored text holds nothing a terminal hides or obeys.
\<close>

subsection \<open>Rows\<close>

datatype request_state = InFlight | Done | ClientClosed | UpstreamError

record request_row =
  rq_seq :: nat
  rq_started_at_ms :: nat
  rq_started_mono_ms :: "nat option"
  rq_client :: "string option"
  rq_route :: string
  rq_requested_model :: "string option"
  rq_model :: "string option"
  rq_model_path :: "string option"
  rq_launch_id :: "string option"
  rq_state :: request_state
  rq_status :: "nat option"
  rq_error :: "string option"
  rq_cause :: "string option"
  rq_auto_start :: bool
  rq_alias :: bool
  rq_ui :: bool
  rq_evicted :: "string list"
  rq_fallback :: "string option"
  rq_ttfb_ms :: "nat option"
  rq_duration_ms :: "nat option"
  rq_prompt_tokens :: "nat option"
  rq_completion_tokens :: "nat option"
  rq_tokens_per_second :: "fp option"
  rq_tokens_per_second_estimated :: bool
  rq_prefill_tokens :: "nat option"
  rq_prefill_tokens_per_second :: "fp option"
  rq_prefill_end_ms :: "nat option"
  rq_prefill_estimated :: bool
  rq_cached_tokens :: "nat option"
  rq_cache_hit_ratio :: "fp option"

definition default_row :: request_row where
  "default_row =
     \<lparr>rq_seq = 0, rq_started_at_ms = 0, rq_started_mono_ms = None, rq_client = None, rq_route = [],
      rq_requested_model = None, rq_model = None, rq_model_path = None, rq_launch_id = None,
      rq_state = InFlight, rq_status = None, rq_error = None, rq_cause = None, rq_auto_start = False,
      rq_alias = False, rq_ui = False, rq_evicted = [], rq_fallback = None, rq_ttfb_ms = None,
      rq_duration_ms = None, rq_prompt_tokens = None, rq_completion_tokens = None,
      rq_tokens_per_second = None, rq_tokens_per_second_estimated = False, rq_prefill_tokens = None,
      rq_prefill_tokens_per_second = None, rq_prefill_end_ms = None, rq_prefill_estimated = False,
      rq_cached_tokens = None, rq_cache_hit_ratio = None\<rparr>"

definition is_error :: "request_row \<Rightarrow> bool" where
  "is_error r \<longleftrightarrow>
     rq_state r = UpstreamError \<or> (case rq_status r of Some s \<Rightarrow> s \<ge> 400 | None \<Rightarrow> False)"

definition is_success :: "request_row \<Rightarrow> bool" where
  "is_success r \<longleftrightarrow> rq_state r = Done \<and> (case rq_status r of Some s \<Rightarrow> s < 400 | None \<Rightarrow> False)"

definition mono_start_ms :: "request_row \<Rightarrow> nat" where
  "mono_start_ms r = (case rq_started_mono_ms r of Some m \<Rightarrow> m | None \<Rightarrow> rq_started_at_ms r)"

definition cache_hit_ratio :: "nat option \<Rightarrow> nat option \<Rightarrow> fp option" where
  "cache_hit_ratio cached prompt =
     (case (cached, prompt) of
        (Some c, Some p) \<Rightarrow> if p > 0 then Some (fp_div (fp_of_nat (min c p)) (fp_of_nat p)) else None
      | _ \<Rightarrow> None)"

subsection \<open>Stored text\<close>

definition MAX_MODEL_CHARS :: nat where
  "MAX_MODEL_CHARS = 200"

definition MAX_CAUSE_CHARS :: nat where
  "MAX_CAUSE_CHARS = 300"

definition is_invisible :: "nat \<Rightarrow> bool" where
  "is_invisible c \<longleftrightarrow>
     is_control c \<or> c = 0xad \<or> c = 0x61c \<or> c = 0x180e \<or> (0x200b \<le> c \<and> c \<le> 0x200f)
     \<or> (0x202a \<le> c \<and> c \<le> 0x202e) \<or> (0x2060 \<le> c \<and> c \<le> 0x2064) \<or> (0x2066 \<le> c \<and> c \<le> 0x2069)
     \<or> (0x206a \<le> c \<and> c \<le> 0x206f) \<or> c = 0xfeff \<or> (0xfff9 \<le> c \<and> c \<le> 0xfffb) \<or> c = 0xe0001
     \<or> (0xe0020 \<le> c \<and> c \<le> 0xe007f)"

definition clean_char :: "string \<Rightarrow> string" where
  "clean_char ch = (if is_invisible (code_point ch) then '' '' else ch)"

definition clean :: "string \<Rightarrow> nat \<Rightarrow> string" where
  "clean s max_chars = concat (map clean_char (take max_chars (chars s)))"

lemma clean_chars:
  assumes "whole_chars s"
  shows "chars (clean s n) = map clean_char (take n (chars s))"
proof -
  have "list_all one_char (map clean_char (take n (chars s)))"
    using assms unfolding whole_chars_def list_all_iff
    by (auto simp: clean_char_def one_char_def char_width_def byte_def dest: in_set_takeD)
  then show ?thesis unfolding clean_def by (rule chars_concat)
qed

subsection \<open>Clients\<close>

text \<open>\<open>rsplit_once(':')\<close> and \<open>trim_matches\<close> of the brackets.\<close>

definition rsplit_colon :: "string \<Rightarrow> (string \<times> string) option" where
  "rsplit_colon s =
     map_option (\<lambda>(port, host). (rev host, rev port)) (split_once (CHR '':'') (rev s))"

definition is_bracket :: "char \<Rightarrow> bool" where
  "is_bracket c \<longleftrightarrow> c = CHR ''['' \<or> c = CHR '']''"

definition trim_brackets :: "string \<Rightarrow> string" where
  "trim_brackets s = rev (dropWhile is_bracket (rev (dropWhile is_bracket s)))"

definition client_host :: "string \<Rightarrow> string" where
  "client_host client =
     trim_brackets
       (case rsplit_colon client of
          Some (host, port) \<Rightarrow> if list_all is_digit port \<and> port \<noteq> [] then host else client
        | None \<Rightarrow> client)"

record clients =
  ci_requests :: nat
  ci_hosts :: "string set"
  ci_connections :: "string set"

definition no_clients :: clients where
  "no_clients = \<lparr>ci_requests = 0, ci_hosts = {}, ci_connections = {}\<rparr>"

definition clients_add :: "clients \<Rightarrow> request_row \<Rightarrow> clients" where
  "clients_add c r =
     (let c = c\<lparr>ci_requests := ci_requests c + 1\<rparr>
      in case rq_client r of
           None \<Rightarrow> c
         | Some client \<Rightarrow>
             c\<lparr>ci_connections := insert client (ci_connections c),
               ci_hosts := insert (client_host client) (ci_hosts c)\<rparr>)"

definition host_count :: "clients \<Rightarrow> nat" where
  "host_count c = card (ci_hosts c)"

definition connection_count :: "clients \<Rightarrow> nat" where
  "connection_count c = card (ci_connections c)"

subsection \<open>Throughput\<close>

record throughput =
  tp_windows :: "(nat \<times> nat) list"
  tp_tokens :: nat

definition no_throughput :: throughput where
  "no_throughput = \<lparr>tp_windows = [], tp_tokens = 0\<rparr>"

text \<open>\<open>f64::round\<close>, halves away from zero.\<close>

fun fp_round :: "fp \<Rightarrow> fp" where
  "fp_round (Fin neg q) = Fin neg (of_int \<lfloor>q + 1 / 2\<rfloor>)"
| "fp_round x = x"

text \<open>The milliseconds a number of tokens takes at a speed.\<close>

definition token_span :: "nat \<Rightarrow> fp \<Rightarrow> nat" where
  "token_span tokens tps =
     fp_to_u64 (fp_round (fp_mul (fp_div (fp_of_nat tokens) tps) (fp_of_nat 1000)))"

definition tp_push :: "throughput \<Rightarrow> nat \<Rightarrow> nat \<Rightarrow> nat \<Rightarrow> throughput" where
  "tp_push t start finish tokens =
     t\<lparr>tp_windows := tp_windows t @ [(start, finish)], tp_tokens := sat_add (tp_tokens t) tokens\<rparr>"

text \<open>The window of \<open>len\<close> milliseconds that ends \<open>wait\<close> after the start of a row, inside the row.\<close>

definition tp_window :: "throughput \<Rightarrow> nat \<Rightarrow> nat \<Rightarrow> nat \<Rightarrow> nat \<Rightarrow> throughput" where
  "tp_window t began wait len tokens =
     (let finish = sat_add began wait;
          start = max (finish - len) began
      in if start \<ge> finish then t else tp_push t start finish tokens)"

definition prefill_wait :: "request_row \<Rightarrow> nat" where
  "prefill_wait r =
     (case rq_prefill_end_ms r of
        Some w \<Rightarrow> w
      | None \<Rightarrow>
          let generated =
                (case (rq_completion_tokens r, rq_tokens_per_second r) of
                   (Some g, Some tps) \<Rightarrow> if g > 0 \<and> fp_less fp_zero tps then token_span g tps else 0
                 | _ \<Rightarrow> 0);
              ttfb = value_or_zero (rq_ttfb_ms r)
          in min ((case rq_duration_ms r of Some d \<Rightarrow> d | None \<Rightarrow> ttfb) - generated) ttfb)"

definition add_prefill :: "throughput \<Rightarrow> request_row \<Rightarrow> throughput" where
  "add_prefill t r =
     (case (rq_prefill_tokens r, rq_prefill_tokens_per_second r) of
        (Some tokens, Some pps) \<Rightarrow>
          if rq_state r = InFlight \<or> tokens = 0 \<or> fp_le pps fp_zero then t
          else tp_window t (mono_start_ms r) (prefill_wait r) (token_span tokens pps) tokens
      | _ \<Rightarrow> t)"

definition add_generation :: "throughput \<Rightarrow> request_row \<Rightarrow> throughput" where
  "add_generation t r =
     (case (rq_tokens_per_second r, rq_duration_ms r, rq_completion_tokens r) of
        (Some tps, Some dur_ms, Some tokens) \<Rightarrow>
          if rq_state r = InFlight \<or> fp_le tps fp_zero \<or> tokens = 0 \<or> dur_ms = 0 then t
          else tp_window t (mono_start_ms r) dur_ms (token_span tokens tps) tokens
      | _ \<Rightarrow> t)"

text \<open>The loop over the sorted windows: the finished stretches, and the one that still grows.\<close>

fun busy_loop :: "nat \<Rightarrow> nat \<times> nat \<Rightarrow> (nat \<times> nat) list \<Rightarrow> nat \<times> nat \<times> nat" where
  "busy_loop busy run [] = (busy, run)"
| "busy_loop busy run ((start, finish) # ws) =
     (if start > snd run then busy_loop (sat_add busy (snd run - fst run)) (start, finish) ws
      else busy_loop busy (fst run, max (snd run) finish) ws)"

definition figures :: "throughput \<Rightarrow> fp option \<times> nat option" where
  "figures t =
     (case sort (tp_windows t) of
        [] \<Rightarrow> (None, None)
      | w # ws \<Rightarrow>
          (case busy_loop 0 w ws of (done_ms, run) \<Rightarrow>
             let busy = sat_add done_ms (snd run - fst run)
             in if busy = 0 then (None, None)
                else (Some (fp_div (fp_mul (fp_of_nat (tp_tokens t)) (fp_of_nat 1000)) (fp_of_nat busy)),
                      Some busy)))"

text \<open>The busy wall is the size of the union of the windows.\<close>

definition busy_time :: "(nat \<times> nat) list \<Rightarrow> nat set" where
  "busy_time ws = (\<Union>(s, e) \<in> set ws. {s..<e})"

lemma busy_time_Cons [simp]: "busy_time ((s, e) # ws) = {s..<e} \<union> busy_time ws"
  by (simp add: busy_time_def)

lemma busy_time_bounded: "\<forall>w \<in> set ws. snd w \<le> m \<Longrightarrow> busy_time ws \<subseteq> {..<m}"
  by (fastforce simp: busy_time_def)

lemma busy_time_finite [simp]: "finite (busy_time ws)"
  by (auto simp: busy_time_def)

lemma busy_loop_union:
  assumes "sorted (run # ws)" "\<forall>w \<in> set (run # ws). fst w < snd w \<and> snd w \<le> u64_max"
    and "busy = card B" "finite B" "\<forall>b \<in> B. b < fst run"
  shows "\<exists>d s e. busy_loop busy run ws = (d, s, e) \<and> s < e \<and> e \<le> u64_max
    \<and> sat_add d (e - s) = card (B \<union> busy_time (run # ws))"
  using assms
proof (induction busy run ws arbitrary: B rule: busy_loop.induct)
  case (1 busy run)
  obtain s e where r: "run = (s, e)" by (cases run)
  have "B \<inter> {s..<e} = {}" using 1 r by fastforce
  then have c: "card (B \<union> {s..<e}) = card B + (e - s)" using 1(4) by (simp add: card_Un_disjoint)
  have "B \<union> {s..<e} \<subseteq> {..<u64_max}" using 1 r by fastforce
  from card_mono[OF _ this] have "card B + (e - s) \<le> u64_max" by (simp add: c)
  then show ?case using 1 r c by (simp add: busy_time_def sat_add_def)
next
  case (2 busy run start finish ws)
  obtain s e where r: "run = (s, e)" by (cases run)
  have ord: "s \<le> start" using 2(3) r by auto
  show ?case
  proof (cases "start > e")
    case True
    have "B \<inter> {s..<e} = {}" using 2 r by fastforce
    then have c: "card (B \<union> {s..<e}) = card B + (e - s)" using 2(6) by (simp add: card_Un_disjoint)
    have "B \<union> {s..<e} \<subseteq> {..<u64_max}" using 2 r by fastforce
    from card_mono[OF _ this] have "sat_add busy (e - s) = card (B \<union> {s..<e})"
      using c 2(5) by (simp add: sat_add_def)
    moreover have "\<forall>b \<in> B \<union> {s..<e}. b < start" using 2 r True by fastforce
    moreover have "sorted ((start, finish) # ws)" using 2(3) by simp
    moreover have "\<forall>w \<in> set ((start, finish) # ws). fst w < snd w \<and> snd w \<le> u64_max" using 2(4) by simp
    ultimately have "\<exists>d s' e'. busy_loop (sat_add busy (e - s)) (start, finish) ws = (d, s', e') \<and> s' < e'
        \<and> e' \<le> u64_max \<and> sat_add d (e' - s') = card ((B \<union> {s..<e}) \<union> busy_time ((start, finish) # ws))"
      using 2(1)[of "B \<union> {s..<e}"] True r 2(6) by simp
    then show ?thesis using True r by (simp add: Un_assoc)
  next
    case False
    have u: "{s..<e} \<union> {start..<finish} = {s..<max e finish}" using ord False 2(4) r by auto
    have "sorted ((s, max e finish) # ws)"
    proof -
      have "(s, max e finish) \<le> w" if "w \<in> set ws" for w
      proof -
        have "(start, finish) \<le> w" using 2(3) that by simp
        then have "start < fst w \<or> start = fst w \<and> finish \<le> snd w" by (cases w) (auto simp: less_eq_prod_simp)
        moreover have "(s, e) \<le> w" using 2(3) r that by simp
        then have "s < fst w \<or> s = fst w \<and> e \<le> snd w" by (cases w) (auto simp: less_eq_prod_simp)
        ultimately show ?thesis using ord by (cases w) (auto simp: less_eq_prod_simp)
      qed
      moreover have "sorted ws" using 2(3) by simp
      ultimately show ?thesis by simp
    qed
    moreover have "\<forall>w \<in> set ((s, max e finish) # ws). fst w < snd w \<and> snd w \<le> u64_max"
      using 2(4) r by auto
    moreover have "\<forall>b \<in> B. b < s" using 2(7) r by simp
    ultimately have "\<exists>d s' e'. busy_loop busy (s, max e finish) ws = (d, s', e') \<and> s' < e'
        \<and> e' \<le> u64_max \<and> sat_add d (e' - s') = card (B \<union> busy_time ((s, max e finish) # ws))"
      using 2(2)[of B] False r 2(5,6) by simp
    then show ?thesis using False r by (simp add: u[symmetric] Un_assoc)
  qed
qed

definition windows_ok :: "throughput \<Rightarrow> bool" where
  "windows_ok t \<longleftrightarrow> list_all (\<lambda>(s, e). s < e \<and> e \<le> u64_max) (tp_windows t)"

lemma figures_busy:
  assumes "windows_ok t"
  shows "snd (figures t) = (if tp_windows t = [] then None else Some (card (busy_time (tp_windows t))))"
proof (cases "sort (tp_windows t)")
  case Nil
  then have "tp_windows t = []" by (metis set_empty set_sort)
  then show ?thesis by (simp add: figures_def)
next
  case (Cons w ws)
  have set: "set (w # ws) = set (tp_windows t)" by (metis Cons set_sort)
  have ne: "tp_windows t \<noteq> []" using Cons by auto
  have "sorted (w # ws)" by (metis Cons sorted_sort)
  moreover have "\<forall>v \<in> set (w # ws). fst v < snd v \<and> snd v \<le> u64_max"
    unfolding set using assms by (auto simp: windows_ok_def list_all_iff)
  ultimately obtain d s e where l: "busy_loop 0 w ws = (d, s, e)" "s < e" "e \<le> u64_max"
    "sat_add d (e - s) = card ({} \<union> busy_time (w # ws))"
    using busy_loop_union[of w ws 0 "{}"] by auto
  have u: "busy_time (w # ws) = busy_time (tp_windows t)" by (simp only: busy_time_def set)
  have "sat_add d (e - s) \<noteq> 0" using l(2,3) by (simp add: sat_add_def)
  then show ?thesis using ne l(1,4) by (simp add: figures_def Cons u Let_def)
qed

lemma windows_ok_window: "windows_ok t \<Longrightarrow> windows_ok (tp_window t began wait len tokens)"
  by (auto simp: windows_ok_def tp_window_def tp_push_def Let_def)

lemma windows_ok_none [simp]: "windows_ok no_throughput"
  by (simp add: windows_ok_def no_throughput_def)

lemma windows_ok_prefill: "windows_ok t \<Longrightarrow> windows_ok (add_prefill t r)"
  by (auto simp: add_prefill_def windows_ok_window split: option.split)

lemma windows_ok_generation: "windows_ok t \<Longrightarrow> windows_ok (add_generation t r)"
  by (auto simp: add_generation_def windows_ok_window split: option.split)

subsection \<open>Totals\<close>

record totals =
  tt_requests :: nat
  tt_errors :: nat
  tt_duration_ms_sum :: nat
  tt_ttfb_ms_sum :: nat
  tt_timed :: nat
  tt_tps_sum :: fp
  tt_tps_n :: nat
  tt_tps_last :: "fp option"
  tt_prefill_tokens :: nat
  tt_prefill_seconds :: fp
  tt_cached_tokens :: nat
  tt_cached_prompt_tokens :: nat
  tt_prompt_tokens :: nat
  tt_completion_tokens :: nat
  tt_auto_starts :: nat
  tt_evictions :: nat
  tt_label :: "string option"

definition no_totals :: totals where
  "no_totals =
     \<lparr>tt_requests = 0, tt_errors = 0, tt_duration_ms_sum = 0, tt_ttfb_ms_sum = 0, tt_timed = 0,
      tt_tps_sum = fp_zero, tt_tps_n = 0, tt_tps_last = None, tt_prefill_tokens = 0,
      tt_prefill_seconds = fp_zero, tt_cached_tokens = 0, tt_cached_prompt_tokens = 0,
      tt_prompt_tokens = 0, tt_completion_tokens = 0, tt_auto_starts = 0, tt_evictions = 0,
      tt_label = None\<rparr>"

definition add_counts :: "totals \<Rightarrow> request_row \<Rightarrow> totals" where
  "add_counts t r =
     (let t = (if rq_model r \<noteq> None then t\<lparr>tt_label := rq_model r\<rparr> else t);
          t = t\<lparr>tt_requests := tt_requests t + 1\<rparr>
      in if is_error r then t\<lparr>tt_errors := tt_errors t + 1\<rparr> else t)"

definition add_times :: "totals \<Rightarrow> request_row \<Rightarrow> totals" where
  "add_times t r =
     (case (is_success r, rq_duration_ms r, rq_ttfb_ms r) of
        (True, Some total_ms, Some ttfb) \<Rightarrow>
          t\<lparr>tt_duration_ms_sum := sat_add (tt_duration_ms_sum t) total_ms,
            tt_ttfb_ms_sum := sat_add (tt_ttfb_ms_sum t) ttfb,
            tt_timed := tt_timed t + 1\<rparr>
      | _ \<Rightarrow> t)"

definition add_speeds :: "totals \<Rightarrow> request_row \<Rightarrow> totals" where
  "add_speeds t r =
     (let t = (case rq_tokens_per_second r of
                 Some tps \<Rightarrow> t\<lparr>tt_tps_sum := fp_add (tt_tps_sum t) tps, tt_tps_n := tt_tps_n t + 1,
                               tt_tps_last := Some tps\<rparr>
               | None \<Rightarrow> t)
      in case (rq_prefill_tokens r, rq_prefill_tokens_per_second r) of
           (Some tokens, Some tps) \<Rightarrow>
             if tokens > 0 \<and> fp_less fp_zero tps
             then t\<lparr>tt_prefill_tokens := sat_add (tt_prefill_tokens t) tokens,
                    tt_prefill_seconds := fp_add (tt_prefill_seconds t) (fp_div (fp_of_nat tokens) tps)\<rparr>
             else t
         | _ \<Rightarrow> t)"

definition add_tokens :: "totals \<Rightarrow> request_row \<Rightarrow> totals" where
  "add_tokens t r =
     (let t = (case (rq_cached_tokens r, rq_prompt_tokens r) of
                 (Some cached, Some prompt) \<Rightarrow>
                   t\<lparr>tt_cached_tokens := sat_add (tt_cached_tokens t) (min cached prompt),
                     tt_cached_prompt_tokens := sat_add (tt_cached_prompt_tokens t) prompt\<rparr>
               | _ \<Rightarrow> t)
      in t\<lparr>tt_prompt_tokens := sat_add (tt_prompt_tokens t) (value_or_zero (rq_prompt_tokens r)),
           tt_completion_tokens := sat_add (tt_completion_tokens t) (value_or_zero (rq_completion_tokens r)),
           tt_auto_starts := tt_auto_starts t + (if rq_auto_start r then 1 else 0),
           tt_evictions := tt_evictions t + length (rq_evicted r)\<rparr>)"

definition totals_add :: "totals \<Rightarrow> request_row \<Rightarrow> totals" where
  "totals_add t r = add_tokens (add_speeds (add_times (add_counts t r) r) r) r"

subsection \<open>Summaries\<close>

record request_summary =
  sm_requests :: nat
  sm_errors :: nat
  sm_avg_duration_ms :: "nat option"
  sm_avg_ttfb_ms :: "nat option"
  sm_tokens_per_second_avg :: "fp option"
  sm_tokens_per_second_aggregate :: "fp option"
  sm_busy_ms :: "nat option"
  sm_tokens_per_second_session :: "fp option"
  sm_prefill_tokens_per_second :: "fp option"
  sm_prefill_tokens_per_second_aggregate :: "fp option"
  sm_prefill_busy_ms :: "nat option"
  sm_tokens_per_second_last :: "fp option"
  sm_hosts :: "nat option"
  sm_connections :: "nat option"
  sm_live_hosts :: "nat option"
  sm_live_connections :: "nat option"
  sm_prompt_tokens :: nat
  sm_cached_tokens :: nat
  sm_cache_hit_ratio :: "fp option"
  sm_completion_tokens :: nat
  sm_auto_starts :: nat
  sm_evictions :: nat

definition checked_div :: "nat \<Rightarrow> nat \<Rightarrow> nat option" where
  "checked_div a b = (if b = 0 then None else Some (a div b))"

definition totals_summary :: "totals \<Rightarrow> request_summary" where
  "totals_summary t =
     \<lparr>sm_requests = tt_requests t, sm_errors = tt_errors t,
      sm_avg_duration_ms = checked_div (tt_duration_ms_sum t) (tt_timed t),
      sm_avg_ttfb_ms = checked_div (tt_ttfb_ms_sum t) (tt_timed t),
      sm_tokens_per_second_avg =
        (if tt_tps_n t > 0 then Some (fp_div (tt_tps_sum t) (fp_of_nat (tt_tps_n t))) else None),
      sm_tokens_per_second_aggregate = None, sm_busy_ms = None, sm_tokens_per_second_session = None,
      sm_prefill_tokens_per_second =
        (if fp_less fp_zero (tt_prefill_seconds t)
         then Some (fp_div (fp_of_nat (tt_prefill_tokens t)) (tt_prefill_seconds t)) else None),
      sm_prefill_tokens_per_second_aggregate = None, sm_prefill_busy_ms = None,
      sm_tokens_per_second_last = tt_tps_last t,
      sm_hosts = None, sm_connections = None, sm_live_hosts = None, sm_live_connections = None,
      sm_prompt_tokens = tt_prompt_tokens t, sm_cached_tokens = tt_cached_tokens t,
      sm_cache_hit_ratio =
        (if tt_cached_prompt_tokens t > 0
         then Some (fp_div (fp_of_nat (tt_cached_tokens t)) (fp_of_nat (tt_cached_prompt_tokens t)))
         else None),
      sm_completion_tokens = tt_completion_tokens t, sm_auto_starts = tt_auto_starts t,
      sm_evictions = tt_evictions t\<rparr>"

text \<open>\<open>RequestSummary::default()\<close> is the summary of nothing.\<close>

definition default_summary :: request_summary where
  "default_summary = totals_summary no_totals"

record row_figures =
  fg_all :: clients
  fg_live :: clients
  fg_throughput :: throughput
  fg_prefill :: throughput

definition no_figures :: row_figures where
  "no_figures =
     \<lparr>fg_all = no_clients, fg_live = no_clients, fg_throughput = no_throughput, fg_prefill = no_throughput\<rparr>"

definition figures_add :: "row_figures \<Rightarrow> request_row \<Rightarrow> row_figures" where
  "figures_add f r =
     f\<lparr>fg_all := clients_add (fg_all f) r,
       fg_live := (if rq_state r = InFlight then clients_add (fg_live f) r else fg_live f),
       fg_throughput := add_generation (fg_throughput f) r,
       fg_prefill := add_prefill (fg_prefill f) r\<rparr>"

definition stamp_figures :: "row_figures \<Rightarrow> request_summary \<Rightarrow> request_summary" where
  "stamp_figures f s =
     s\<lparr>sm_hosts := Some (host_count (fg_all f)),
       sm_connections := Some (connection_count (fg_all f)),
       sm_live_hosts := Some (host_count (fg_live f)),
       sm_live_connections := Some (connection_count (fg_live f)),
       sm_tokens_per_second_aggregate := fst (figures (fg_throughput f)),
       sm_busy_ms := snd (figures (fg_throughput f)),
       sm_prefill_tokens_per_second_aggregate := fst (figures (fg_prefill f)),
       sm_prefill_busy_ms := snd (figures (fg_prefill f))\<rparr>"

definition figures_of :: "request_row list \<Rightarrow> row_figures" where
  "figures_of rows = foldl figures_add no_figures rows"

lemma default_summary_eq:
  "sm_requests default_summary = 0" "sm_tokens_per_second_avg default_summary = None"
  by (simp_all add: default_summary_def totals_summary_def no_totals_def)

subsection \<open>What the figures mean\<close>

lemma figures_of_snoc: "figures_of (rows @ [r]) = figures_add (figures_of rows) r"
  by (simp add: figures_of_def)

lemma figures_windows_ok:
  "windows_ok (fg_throughput (figures_of rows))" "windows_ok (fg_prefill (figures_of rows))"
proof (induction rows rule: rev_induct)
  case Nil
  show "windows_ok (fg_throughput (figures_of []))" "windows_ok (fg_prefill (figures_of []))"
    by (simp_all add: figures_of_def no_figures_def)
next
  case (snoc r rows)
  then show "windows_ok (fg_throughput (figures_of (rows @ [r])))" "windows_ok (fg_prefill (figures_of (rows @ [r])))"
    by (simp_all add: figures_of_snoc figures_add_def windows_ok_generation windows_ok_prefill)
qed

text \<open>The stretch of the clock a finished row covers.\<close>

definition within_row :: "request_row \<Rightarrow> nat \<times> nat \<Rightarrow> bool" where
  "within_row r w \<longleftrightarrow>
     rq_state r \<noteq> InFlight \<and> mono_start_ms r \<le> fst w
     \<and> snd w = sat_add (mono_start_ms r) (value_or_zero (rq_duration_ms r))"

lemma tp_window_cases:
  obtains "tp_window t b wt len n = t"
    | s e where "tp_window t b wt len n = tp_push t s e n" "b \<le> s" "s < e" "e = sat_add b wt"
  by (cases "max (sat_add b wt - len) b \<ge> sat_add b wt")
    (auto simp: tp_window_def Let_def)

lemma add_generation_within:
  assumes "list_all (\<lambda>w. list_ex (\<lambda>r. within_row r w) rows) (tp_windows t)"
  shows "list_all (\<lambda>w. list_ex (\<lambda>r. within_row r w) (rows @ [r])) (tp_windows (add_generation t r))"
proof -
  have old: "list_all (\<lambda>w. list_ex (\<lambda>r. within_row r w) (rows @ [r])) (tp_windows t)"
    using assms by (auto simp: list_all_iff)
  show ?thesis
  proof (cases "add_generation t r = t")
    case True
    then show ?thesis using old by simp
  next
    case False
    then obtain tps d n where g: "rq_state r \<noteq> InFlight" "rq_duration_ms r = Some d"
      "add_generation t r = tp_window t (mono_start_ms r) d (token_span n tps) n"
      by (auto simp: add_generation_def split: option.splits if_splits)
    show ?thesis
      using old g by (cases rule: tp_window_cases[of t "mono_start_ms r" d "token_span n tps" n])
        (auto simp: tp_push_def within_row_def value_or_zero_def)
  qed
qed

text \<open>
  C30. The busy wall the aggregate speed divides by is the number of milliseconds at least one
  request of the scope was generating, a millisecond two requests shared counted once, and every
  window counted lies inside a finished request and ends where its response did; the wall of prompt
  computation is the same union of its own windows.
\<close>

theorem busy_wall_is_union:
  "snd (figures (fg_throughput (figures_of rows)))
     = (if tp_windows (fg_throughput (figures_of rows)) = [] then None
        else Some (card (busy_time (tp_windows (fg_throughput (figures_of rows))))))
   \<and> snd (figures (fg_prefill (figures_of rows)))
     = (if tp_windows (fg_prefill (figures_of rows)) = [] then None
        else Some (card (busy_time (tp_windows (fg_prefill (figures_of rows))))))
   \<and> list_all (\<lambda>w. list_ex (\<lambda>r. within_row r w) rows) (tp_windows (fg_throughput (figures_of rows)))"
proof (intro conjI figures_busy figures_windows_ok)
  show "list_all (\<lambda>w. list_ex (\<lambda>r. within_row r w) rows) (tp_windows (fg_throughput (figures_of rows)))"
  proof (induction rows rule: rev_induct)
    case Nil
    show ?case by (simp add: figures_of_def no_figures_def no_throughput_def)
  next
    case (snoc r rows)
    from add_generation_within[OF this] show ?case by (simp add: figures_of_snoc figures_add_def)
  qed
qed

lemma clean_char_visible: "\<not> is_invisible (code_point (clean_char ch))"
  by (simp add: clean_char_def) (simp add: is_invisible_def is_control_def byte_def)

text \<open>
  Text of a client or a child is stored cut to its length in characters, and no character of it
  is one a terminal obeys, hides or reorders by.
\<close>

theorem stored_text_is_visible:
  assumes "whole_chars s"
  shows "length (chars (clean s n)) \<le> n
    \<and> list_all (\<lambda>ch. \<not> is_invisible (code_point ch)) (chars (clean s n))"
  unfolding clean_chars[OF assms] by (simp add: list_all_iff clean_char_visible)

theorem stored_text_is_visible_witness:
  "list_all (\<lambda>ch. \<not> is_invisible (code_point ch)) (chars (clean (map char_of [27, 97, 226, 128, 174 :: nat, 10]) 5))
   \<and> clean (map char_of [27, 97, 226, 128, 174 :: nat, 10]) 5 = '' a  ''"
proof -
  have "whole_chars (map char_of [27, 97, 226, 128, 174 :: nat, 10])" by code_simp
  from conjunct2[OF stored_text_is_visible[OF this, of 5]] show ?thesis
    by (intro conjI) (assumption, code_simp)
qed

end
