(* ===== verification/Request_Log.thy ===== *)
theory Request_Log
  imports Request_Row
begin

text \<open>
  The log of the requests the proxy handled: \<open>Inner\<close>, \<open>RequestLog\<close>, \<open>RequestRecord\<close> and the file sink
  of \<open>src/proxy/request_log.rs\<close>. Every lock scope is one step of the world, and so is every operation on the
  queue of the file, on its count and on the file itself: a request that ends is counted under the lock
  and sends its row afterwards, so other steps may come between. A program is a list of such steps in
  the order they happen. The
  clocks, the JSON text of a row and the answers of the file are what the environment supplies. Shown:
  the ring holds the newest rows in order, each request is counted exactly once, no request stays in
  flight once its record is gone, and every finished row is written, queued or counted as dropped.
\<close>

definition CAPACITY :: nat where
  "CAPACITY = 1000"

definition DEFAULT_TAIL :: nat where
  "DEFAULT_TAIL = 100"

definition clamp_limit :: "nat option \<Rightarrow> nat" where
  "clamp_limit raw = min (case raw of Some n \<Rightarrow> n | None \<Rightarrow> DEFAULT_TAIL) CAPACITY"

definition RETIRED_LAUNCH_HISTORY :: nat where
  "RETIRED_LAUNCH_HISTORY = 16"

definition FILE_QUEUE :: nat where
  "FILE_QUEUE = 1024"

subsection \<open>The log\<close>

text \<open>A hash map is an association list without repeated keys; its order is never observed.\<close>

type_synonym 'v table = "(string \<times> 'v) list"

definition table_or :: "'v \<Rightarrow> 'v table \<Rightarrow> string \<Rightarrow> 'v" where
  "table_or d m k = (case map_of m k of Some v \<Rightarrow> v | None \<Rightarrow> d)"

text \<open>\<open>entry(k).or_default()\<close> and a change of what it holds.\<close>

definition table_change :: "'v \<Rightarrow> string \<Rightarrow> ('v \<Rightarrow> 'v) \<Rightarrow> 'v table \<Rightarrow> 'v table" where
  "table_change d k f m = AList.update k (f (table_or d m k)) m"

record log_inner =
  li_rows :: "request_row list"
  li_next_seq :: nat
  li_all :: totals
  li_by_route :: "nat table"
  li_by_model :: "totals table"
  li_by_launch :: "totals table"
  li_retired :: "(string \<times> totals) list"

definition empty_log :: log_inner where
  "empty_log =
     \<lparr>li_rows = [], li_next_seq = 0, li_all = no_totals, li_by_route = [], li_by_model = [],
      li_by_launch = [], li_retired = []\<rparr>"

definition store_row :: "log_inner \<Rightarrow> request_row \<Rightarrow> log_inner" where
  "store_row l row =
     (case li_rows l of
        [] \<Rightarrow> l
      | front # _ \<Rightarrow>
          if rq_seq row < rq_seq front then l
          else let i = rq_seq row - rq_seq front
               in if i < length (li_rows l) then l\<lparr>li_rows := (li_rows l)[i := row]\<rparr> else l)"

datatype log_scope = AllRows | ModelRows string | LaunchRows string

fun scope_matches :: "log_scope \<Rightarrow> request_row \<Rightarrow> bool" where
  "scope_matches AllRows r = True"
| "scope_matches (ModelRows p) r = (rq_model_path r = Some p)"
| "scope_matches (LaunchRows i) r = (rq_launch_id r = Some i)"

definition launch_totals :: "log_inner \<Rightarrow> string \<Rightarrow> totals option" where
  "launch_totals l i =
     (case map_of (li_by_launch l) i of
        Some t \<Rightarrow> Some t
      | None \<Rightarrow> map_of (rev (li_retired l)) i)"

fun scope_totals_of :: "log_inner \<Rightarrow> log_scope \<Rightarrow> totals option" where
  "scope_totals_of l AllRows = Some (li_all l)"
| "scope_totals_of l (ModelRows p) = map_of (li_by_model l) p"
| "scope_totals_of l (LaunchRows i) = launch_totals l i"

text \<open>The start of a row.\<close>

definition begin_row :: "string \<Rightarrow> string option \<Rightarrow> nat \<Rightarrow> nat \<Rightarrow> log_inner \<Rightarrow> log_inner \<times> request_row" where
  "begin_row route client now mono_ms l =
     (let s = li_next_seq l + 1;
          row = default_row\<lparr>rq_seq := s, rq_started_at_ms := now, rq_started_mono_ms := Some mono_ms,
                            rq_client := client, rq_route := route\<rparr>;
          rows = (if length (li_rows l) \<ge> CAPACITY then tl (li_rows l) else li_rows l)
      in (l\<lparr>li_next_seq := s, li_rows := rows @ [row]\<rparr>, row))"

definition launch_entry :: "string \<Rightarrow> log_inner \<Rightarrow> log_inner" where
  "launch_entry i l = l\<lparr>li_by_launch := table_change no_totals i (\<lambda>t. t) (li_by_launch l)\<rparr>"

definition publish_row :: "request_row \<Rightarrow> log_inner \<Rightarrow> log_inner" where
  "publish_row row l =
     (let l = store_row l row
      in case rq_model_path row of
           None \<Rightarrow> l
         | Some p \<Rightarrow>
             l\<lparr>li_by_model := table_change no_totals p
                 (\<lambda>t. if tt_label t = None then t\<lparr>tt_label := rq_model row\<rparr> else t) (li_by_model l)\<rparr>)"

definition ended_row :: "request_row \<Rightarrow> request_state \<Rightarrow> usage \<Rightarrow> nat \<Rightarrow> request_row" where
  "ended_row r st u elapsed =
     r\<lparr>rq_state := st, rq_duration_ms := Some elapsed,
       rq_prompt_tokens := us_prompt_tokens u, rq_completion_tokens := us_completion_tokens u,
       rq_tokens_per_second := us_tokens_per_second u,
       rq_tokens_per_second_estimated := us_tokens_per_second_estimated u,
       rq_prefill_tokens := us_prefill_tokens u,
       rq_prefill_tokens_per_second := us_prefill_tokens_per_second u,
       rq_prefill_estimated := us_prefill_estimated u,
       rq_cached_tokens := us_cached_tokens u,
       rq_cache_hit_ratio := cache_hit_ratio (us_cached_tokens u) (us_prompt_tokens u)\<rparr>"

definition count_row :: "request_row \<Rightarrow> log_inner \<Rightarrow> log_inner" where
  "count_row row l =
     (let l = store_row l row;
          l = l\<lparr>li_all := totals_add (li_all l) row,
                li_by_route := table_change 0 (rq_route row) Suc (li_by_route l)\<rparr>;
          l = (case rq_model_path row of
                 None \<Rightarrow> l
               | Some p \<Rightarrow> l\<lparr>li_by_model := table_change no_totals p (\<lambda>t. totals_add t row) (li_by_model l)\<rparr>)
      in case rq_launch_id row of
           None \<Rightarrow> l
         | Some i \<Rightarrow>
             (case map_of (li_by_launch l) i of
                None \<Rightarrow> l
              | Some t \<Rightarrow> l\<lparr>li_by_launch := AList.update i (totals_add t row) (li_by_launch l)\<rparr>))"

definition forget_launch :: "string \<Rightarrow> log_inner \<Rightarrow> log_inner" where
  "forget_launch i l =
     (case map_of (li_by_launch l) i of
        None \<Rightarrow> l
      | Some t \<Rightarrow>
          let q = li_retired l @ [(i, t)]
          in l\<lparr>li_by_launch := AList.delete i (li_by_launch l),
               li_retired := drop (length q - RETIRED_LAUNCH_HISTORY) q\<rparr>)"

subsection \<open>The file\<close>

text \<open>
  The task that writes the file, between two of its steps: it opens the file, waits for a line, holds a
  line it has taken off the queue, and once the file has failed it closes the queue, empties it and
  adds what was lost to the count. The numbers are the local \<open>lost\<close>.
\<close>

datatype writer_phase =
    WriterOpening
  | WriterWaiting
  | WriterHolding string
  | WriterClosing nat
  | WriterDraining nat
  | WriterCounting nat
  | WriterGone

text \<open>
  The sink: the lines that wait for the writer, whether the queue was closed, the sends that were
  refused and whose sender has not counted them yet, the count of the lines that did not reach the
  file, the lines the file has taken, and where the writer stands.
\<close>

record file_sink =
  fk_path :: string
  fk_queue :: "string list"
  fk_closed :: bool
  fk_refused :: nat
  fk_dropped :: nat
  fk_written :: "string list"
  fk_writer :: writer_phase

definition new_sink :: "string \<Rightarrow> file_sink" where
  "new_sink path =
     \<lparr>fk_path = path, fk_queue = [], fk_closed = False, fk_refused = 0, fk_dropped = 0, fk_written = [],
      fk_writer = WriterOpening\<rparr>"

text \<open>
  \<open>try_send\<close> of the bounded queue, one operation of the channel; a row without a text is not sent.
  A refused sender adds itself to the count in a step of its own.
\<close>

definition sink_send :: "string option \<Rightarrow> file_sink \<Rightarrow> file_sink" where
  "sink_send line k =
     (case line of
        Some s \<Rightarrow> if \<not> fk_closed k \<and> length (fk_queue k) < FILE_QUEUE
                  then k\<lparr>fk_queue := fk_queue k @ [s]\<rparr> else k\<lparr>fk_refused := fk_refused k + 1\<rparr>
      | None \<Rightarrow> k\<lparr>fk_refused := fk_refused k + 1\<rparr>)"

definition count_refused :: "file_sink \<Rightarrow> file_sink" where
  "count_refused k =
     (if fk_refused k = 0 then k
      else k\<lparr>fk_refused := fk_refused k - 1, fk_dropped := fk_dropped k + 1\<rparr>)"

text \<open>
  One step of \<open>write_lines\<close>: the answer is that of the file to the opening or to the writing, and a
  failure leaves the loop with the line it held lost.
\<close>

definition write_lines_step :: "bool \<Rightarrow> file_sink \<Rightarrow> file_sink" where
  "write_lines_step ok k =
     (case fk_writer k of
        WriterOpening \<Rightarrow> k\<lparr>fk_writer := if ok then WriterWaiting else WriterClosing 0\<rparr>
      | WriterWaiting \<Rightarrow>
          (case fk_queue k of
             [] \<Rightarrow> k
           | line # rest \<Rightarrow> k\<lparr>fk_queue := rest, fk_writer := WriterHolding line\<rparr>)
      | WriterHolding line \<Rightarrow>
          if ok then k\<lparr>fk_written := fk_written k @ [line], fk_writer := WriterWaiting\<rparr>
          else k\<lparr>fk_writer := WriterClosing 1\<rparr>
      | _ \<Rightarrow> k)"

text \<open>One step of the task after the loop: close, take one line off or find none, count.\<close>

definition writer_end_step :: "file_sink \<Rightarrow> file_sink" where
  "writer_end_step k =
     (case fk_writer k of
        WriterClosing lost \<Rightarrow> k\<lparr>fk_closed := True, fk_writer := WriterDraining lost\<rparr>
      | WriterDraining lost \<Rightarrow>
          (case fk_queue k of
             [] \<Rightarrow> k\<lparr>fk_writer := WriterCounting lost\<rparr>
           | _ # rest \<Rightarrow> k\<lparr>fk_queue := rest, fk_writer := WriterDraining (Suc lost)\<rparr>)
      | WriterCounting lost \<Rightarrow> k\<lparr>fk_dropped := fk_dropped k + lost, fk_writer := WriterGone\<rparr>
      | _ \<Rightarrow> k)"

definition writer_step :: "bool \<Rightarrow> file_sink \<Rightarrow> file_sink" where
  "writer_step ok k =
     (case fk_writer k of
        WriterClosing _ \<Rightarrow> writer_end_step k
      | WriterDraining _ \<Rightarrow> writer_end_step k
      | WriterCounting _ \<Rightarrow> writer_end_step k
      | _ \<Rightarrow> write_lines_step ok k)"

definition file_status :: "file_sink option \<Rightarrow> (string \<times> nat) option" where
  "file_status k = map_option (\<lambda>k. (fk_path k, fk_dropped k)) k"

subsection \<open>Records and steps\<close>

record request_record =
  re_row :: request_row
  re_finished :: bool

text \<open>
  The world: the log, the live records, the rows whose request has ended and whose sender has left the
  lock but not yet tried the queue of the file, and the sink.
\<close>

record log_world =
  lw_log :: log_inner
  lw_records :: "nat \<Rightarrow> request_record option"
  lw_unsent :: "request_row list"
  lw_sink :: "file_sink option"

definition new_world :: log_world where
  "new_world = \<lparr>lw_log = empty_log, lw_records = (\<lambda>_. None), lw_unsent = [], lw_sink = None\<rparr>"

text \<open>A record is named by the number of its row; the last argument of a clocked step is the time elapsed.\<close>

datatype row_setter =
    SetRequestedModel "string option"
  | SetModel string string
  | SetAutoStart
  | SetAlias
  | SetUi
  | SetEvicted "string list"
  | SetFallback string
  | SetStatus nat
  | MarkFirstByte nat
  | MarkFirstToken nat

fun apply_setter :: "row_setter \<Rightarrow> request_row \<Rightarrow> request_row" where
  "apply_setter (SetRequestedModel m) r =
     r\<lparr>rq_requested_model := map_option (\<lambda>m. clean m MAX_MODEL_CHARS) m\<rparr>"
| "apply_setter (SetModel name path) r =
     r\<lparr>rq_model := Some (clean name MAX_MODEL_CHARS), rq_model_path := Some path\<rparr>"
| "apply_setter SetAutoStart r = r\<lparr>rq_auto_start := True\<rparr>"
| "apply_setter SetAlias r = r\<lparr>rq_alias := True\<rparr>"
| "apply_setter SetUi r = r\<lparr>rq_ui := True\<rparr>"
| "apply_setter (SetEvicted launches) r = r\<lparr>rq_evicted := launches\<rparr>"
| "apply_setter (SetFallback reason) r = r\<lparr>rq_fallback := Some reason\<rparr>"
| "apply_setter (SetStatus s) r = r\<lparr>rq_status := Some s\<rparr>"
| "apply_setter (MarkFirstByte elapsed) r =
     (if rq_ttfb_ms r = None then r\<lparr>rq_ttfb_ms := Some elapsed\<rparr> else r)"
| "apply_setter (MarkFirstToken elapsed) r =
     (if rq_prefill_end_ms r = None then r\<lparr>rq_prefill_end_ms := Some elapsed\<rparr> else r)"

datatype log_step =
    Begin string "string option" nat nat
  | Setter nat row_setter
  | SetLaunch nat string
  | Publish nat
  | Respond nat nat "string option" "string option" nat
  | Finish nat request_state usage nat
  | DropRecord nat nat
  | ForgetLaunch string
  | WriteTo string
  | TrySend nat
  | CountRefused
  | WriterRuns bool

definition no_usage :: usage where
  "no_usage =
     \<lparr>us_prompt_tokens = None, us_completion_tokens = None, us_tokens_per_second = None,
      us_tokens_per_second_estimated = False, us_prefill_tokens = None,
      us_prefill_tokens_per_second = None, us_prefill_estimated = False, us_cached_tokens = None\<rparr>"

definition set_row :: "nat \<Rightarrow> (request_row \<Rightarrow> request_row) \<Rightarrow> log_world \<Rightarrow> log_world" where
  "set_row h f w =
     (case lw_records w h of
        None \<Rightarrow> w
      | Some rec \<Rightarrow> w\<lparr>lw_records := (lw_records w)(h \<mapsto> rec\<lparr>re_row := f (re_row rec)\<rparr>)\<rparr>)"

text \<open>
  The part of \<open>finish\<close> up to the release of the lock; the send of the row is still to come.
\<close>

definition finish_record :: "nat \<Rightarrow> request_state \<Rightarrow> usage \<Rightarrow> nat \<Rightarrow> log_world \<Rightarrow> log_world" where
  "finish_record h st u elapsed w =
     (case lw_records w h of
        None \<Rightarrow> w
      | Some rec \<Rightarrow>
          if re_finished rec then w
          else let row = ended_row (re_row rec) st u elapsed
               in w\<lparr>lw_log := count_row row (lw_log w),
                    lw_records := (lw_records w)(h \<mapsto> \<lparr>re_row = row, re_finished = True\<rparr>),
                    lw_unsent := lw_unsent w @ [row]\<rparr>)"

text \<open>The part behind the lock, of the request whose row has the number.\<close>

definition try_send_row :: "(request_row \<Rightarrow> string option) \<Rightarrow> nat \<Rightarrow> log_world \<Rightarrow> log_world" where
  "try_send_row json h w =
     (case List.find (\<lambda>r. rq_seq r = h) (lw_unsent w) of
        None \<Rightarrow> w
      | Some row \<Rightarrow>
          w\<lparr>lw_unsent := remove1 row (lw_unsent w),
            lw_sink := map_option (sink_send (json row)) (lw_sink w)\<rparr>)"

definition drop_record :: "nat \<Rightarrow> nat \<Rightarrow> log_world \<Rightarrow> log_world" where
  "drop_record h elapsed w =
     (let w = finish_record h ClientClosed no_usage elapsed w
      in w\<lparr>lw_records := (lw_records w)(h := None)\<rparr>)"

definition answer_row :: "nat \<Rightarrow> string option \<Rightarrow> string option \<Rightarrow> request_row \<Rightarrow> request_row" where
  "answer_row status err cause r =
     r\<lparr>rq_status := Some status, rq_error := err,
       rq_cause := map_option (\<lambda>c. clean c MAX_CAUSE_CHARS) cause\<rparr>"

definition respond :: "nat \<Rightarrow> nat \<Rightarrow> string option \<Rightarrow> string option \<Rightarrow> nat \<Rightarrow> log_world \<Rightarrow> log_world" where
  "respond h status err cause elapsed w =
     drop_record h elapsed
       (finish_record h Done no_usage elapsed (set_row h (answer_row status err cause) w))"

definition begin_request :: "string \<Rightarrow> string option \<Rightarrow> nat \<Rightarrow> nat \<Rightarrow> log_world \<Rightarrow> log_world" where
  "begin_request route client now mono_ms w =
     (case begin_row route client now mono_ms (lw_log w) of
        (l, row) \<Rightarrow>
          w\<lparr>lw_log := l,
            lw_records := (lw_records w)(rq_seq row \<mapsto> \<lparr>re_row = row, re_finished = False\<rparr>)\<rparr>)"

definition set_launch :: "nat \<Rightarrow> string \<Rightarrow> log_world \<Rightarrow> log_world" where
  "set_launch h i w =
     (case lw_records w h of
        None \<Rightarrow> w
      | Some _ \<Rightarrow> (set_row h (\<lambda>r. r\<lparr>rq_launch_id := Some i\<rparr>) w)\<lparr>lw_log := launch_entry i (lw_log w)\<rparr>)"

definition publish_record :: "nat \<Rightarrow> log_world \<Rightarrow> log_world" where
  "publish_record h w =
     (case lw_records w h of
        None \<Rightarrow> w
      | Some rec \<Rightarrow> w\<lparr>lw_log := publish_row (re_row rec) (lw_log w)\<rparr>)"

definition write_to :: "string \<Rightarrow> log_world \<Rightarrow> log_world" where
  "write_to path w =
     (case lw_sink w of None \<Rightarrow> w\<lparr>lw_sink := Some (new_sink path)\<rparr> | Some _ \<Rightarrow> w)"

fun exec_step :: "(request_row \<Rightarrow> string option) \<Rightarrow> log_step \<Rightarrow> log_world \<Rightarrow> log_world" where
  "exec_step json (Begin route client now mono_ms) w = begin_request route client now mono_ms w"
| "exec_step json (Setter h s) w = set_row h (apply_setter s) w"
| "exec_step json (SetLaunch h i) w = set_launch h i w"
| "exec_step json (Publish h) w = publish_record h w"
| "exec_step json (Respond h status err cause elapsed) w = respond h status err cause elapsed w"
| "exec_step json (Finish h st u elapsed) w = finish_record h st u elapsed w"
| "exec_step json (DropRecord h elapsed) w = drop_record h elapsed w"
| "exec_step json (ForgetLaunch i) w = w\<lparr>lw_log := forget_launch i (lw_log w)\<rparr>"
| "exec_step json (WriteTo path) w = write_to path w"
| "exec_step json (TrySend h) w = try_send_row json h w"
| "exec_step json CountRefused w = w\<lparr>lw_sink := map_option count_refused (lw_sink w)\<rparr>"
| "exec_step json (WriterRuns ok) w = w\<lparr>lw_sink := map_option (writer_step ok) (lw_sink w)\<rparr>"

definition exec_log :: "(request_row \<Rightarrow> string option) \<Rightarrow> log_step list \<Rightarrow> log_world" where
  "exec_log json steps = foldl (\<lambda>w s. exec_step json s w) new_world steps"

subsection \<open>Reading\<close>

record tail_reply =
  ta_summary :: request_summary
  ta_rows :: "request_row list"

text \<open>The launch of the newest row of a model.\<close>

definition newest_launch :: "log_scope \<Rightarrow> request_row list \<Rightarrow> string option" where
  "newest_launch scope rows = Option.bind (List.find (scope_matches scope) (rev rows)) rq_launch_id"

definition with_session :: "log_scope \<Rightarrow> fp option \<Rightarrow> request_summary \<Rightarrow> request_summary" where
  "with_session scope session s =
     (case scope of ModelRows _ \<Rightarrow> s\<lparr>sm_tokens_per_second_session := session\<rparr> | _ \<Rightarrow> s)"

definition newest_rows :: "log_scope \<Rightarrow> nat \<Rightarrow> request_row list \<Rightarrow> request_row list" where
  "newest_rows scope limit rows = take limit (filter (scope_matches scope) (rev rows))"

definition log_tail :: "log_inner \<Rightarrow> log_scope \<Rightarrow> nat \<Rightarrow> tail_reply" where
  "log_tail l scope limit =
     (let summary = (case scope_totals_of l scope of Some t \<Rightarrow> totals_summary t | None \<Rightarrow> default_summary);
          summary = stamp_figures (figures_of (filter (scope_matches scope) (li_rows l))) summary
      in \<lparr>ta_summary =
            with_session scope
              (Option.bind (Option.bind (newest_launch scope (li_rows l)) (launch_totals l))
                (\<lambda>t. sm_tokens_per_second_avg (totals_summary t))) summary,
          ta_rows = newest_rows scope limit (li_rows l)\<rparr>)"

definition launch_summary :: "log_inner \<Rightarrow> string \<Rightarrow> request_summary" where
  "launch_summary l i = ta_summary (log_tail l (LaunchRows i) 0)"

definition launch_label :: "log_inner \<Rightarrow> string \<Rightarrow> string option" where
  "launch_label l i = Option.bind (launch_totals l i) tt_label"

end
