(* ===== verification/Request_Count.thy ===== *)
theory Request_Count
  imports Request_Log "HOL-Library.Sublist" "HOL-Library.Multiset"
begin

text \<open>
  What every run of the request log of \<open>src/proxy/request_log.rs\<close> keeps: the ring in order, each
  request counted once, no request in flight without its record, and no finished row lost by the file
  sink unnoticed. A run also collects the rows its steps ended, in order.
\<close>

subsection \<open>The ring\<close>

definition ring_ok :: "log_inner \<Rightarrow> bool" where
  "ring_ok l \<longleftrightarrow>
     map rq_seq (li_rows l) = [Suc (li_next_seq l - length (li_rows l))..<Suc (li_next_seq l)]
     \<and> length (li_rows l) = min (li_next_seq l) CAPACITY"

lemma ring_seq:
  assumes "ring_ok l" "i < length (li_rows l)"
  shows "rq_seq (li_rows l ! i) = Suc (li_next_seq l - length (li_rows l)) + i"
proof -
  have "map rq_seq (li_rows l) ! i = [Suc (li_next_seq l - length (li_rows l))..<Suc (li_next_seq l)] ! i"
    using assms(1) by (simp add: ring_ok_def)
  moreover have "Suc (li_next_seq l - length (li_rows l)) + i < Suc (li_next_seq l)"
    using assms by (auto simp: ring_ok_def)
  ultimately show ?thesis using assms(2) by (simp only: nth_map nth_upt)
qed

definition replace_row :: "request_row \<Rightarrow> request_row \<Rightarrow> request_row" where
  "replace_row row r = (if rq_seq r = rq_seq row then row else r)"

lemma store_row_replaces:
  assumes "ring_ok l"
  shows "store_row l row = l\<lparr>li_rows := map (replace_row row) (li_rows l)\<rparr>"
proof (cases "li_rows l")
  case Nil
  then show ?thesis by (simp add: store_row_def)
next
  case (Cons front rest)
  define k where "k = Suc (li_next_seq l - length (li_rows l))"
  have seq: "rq_seq (li_rows l ! i) = k + i" if "i < length (li_rows l)" for i
    using ring_seq[OF assms that] by (simp add: k_def)
  have front: "rq_seq front = k" using seq[of 0] Cons by simp
  show ?thesis
  proof (cases "k \<le> rq_seq row \<and> rq_seq row - k < length (li_rows l)")
    case True
    define i where "i = rq_seq row - k"
    have i: "rq_seq row = k + i" "i < length (li_rows l)" using True by (auto simp: i_def)
    have "(li_rows l)[i := row] = map (replace_row row) (li_rows l)"
      by (rule nth_equalityI) (auto simp: nth_list_update replace_row_def seq i)
    then show ?thesis using Cons front i by (simp add: store_row_def)
  next
    case False
    have "map (replace_row row) (li_rows l) = li_rows l"
      by (rule nth_equalityI) (use False seq in \<open>auto simp: replace_row_def\<close>)
    then show ?thesis using Cons front False by (auto simp: store_row_def)
  qed
qed

lemma replace_row_seq [simp]: "rq_seq (replace_row row r) = rq_seq r"
  by (simp add: replace_row_def)

lemma ring_ok_replace: "ring_ok l \<Longrightarrow> ring_ok (l\<lparr>li_rows := map (replace_row row) (li_rows l)\<rparr>)"
  by (simp add: ring_ok_def comp_def)

lemma ring_ok_begin:
  assumes "ring_ok l"
  shows "ring_ok (fst (begin_row route client now mono_ms l))"
proof (cases "length (li_rows l) \<ge> CAPACITY")
  case True
  then have len: "length (li_rows l) = CAPACITY" "CAPACITY \<le> li_next_seq l"
    using assms by (auto simp: ring_ok_def)
  have "map rq_seq (tl (li_rows l)) = tl [Suc (li_next_seq l - CAPACITY)..<Suc (li_next_seq l)]"
    using assms len(1) by (simp add: ring_ok_def map_tl)
  also have "\<dots> = [Suc (Suc (li_next_seq l) - CAPACITY)..<Suc (li_next_seq l)]"
    using len(2) by (simp add: tl_upt Suc_diff_le)
  finally show ?thesis
    using True len by (simp add: ring_ok_def begin_row_def Let_def default_row_def CAPACITY_def)
next
  case False
  then have "length (li_rows l) = li_next_seq l" using assms by (auto simp: ring_ok_def)
  then show ?thesis
    using assms False by (simp add: ring_ok_def begin_row_def Let_def default_row_def)
qed

subsection \<open>What the steps leave alone\<close>

lemma count_row_ring:
  "ring_ok l \<Longrightarrow> li_rows (count_row row l) = map (replace_row row) (li_rows l)
    \<and> li_next_seq (count_row row l) = li_next_seq l"
  by (auto simp: count_row_def store_row_replaces Let_def split: option.split)

lemma publish_row_ring:
  "ring_ok l \<Longrightarrow> li_rows (publish_row row l) = map (replace_row row) (li_rows l)
    \<and> li_next_seq (publish_row row l) = li_next_seq l"
  by (auto simp: publish_row_def store_row_replaces Let_def split: option.split)

lemma forget_launch_ring:
  "li_rows (forget_launch i l) = li_rows l" "li_next_seq (forget_launch i l) = li_next_seq l"
  by (auto simp: forget_launch_def Let_def split: option.split)

lemma launch_entry_ring:
  "li_rows (launch_entry i l) = li_rows l" "li_next_seq (launch_entry i l) = li_next_seq l"
  by (simp_all add: launch_entry_def)

text \<open>The world of the ring and the records.\<close>

definition record_ok :: "nat \<Rightarrow> nat \<Rightarrow> request_record \<Rightarrow> bool" where
  "record_ok n h rec \<longleftrightarrow>
     rq_seq (re_row rec) = h \<and> 1 \<le> h \<and> h \<le> n \<and> (re_finished rec \<longleftrightarrow> rq_state (re_row rec) \<noteq> InFlight)"

definition live :: "log_world \<Rightarrow> nat \<Rightarrow> bool" where
  "live w h \<longleftrightarrow> (case lw_records w h of None \<Rightarrow> False | Some rec \<Rightarrow> \<not> re_finished rec)"

definition world_ok :: "log_world \<Rightarrow> bool" where
  "world_ok w \<longleftrightarrow>
     ring_ok (lw_log w)
     \<and> (\<forall>h rec. lw_records w h = Some rec \<longrightarrow> record_ok (li_next_seq (lw_log w)) h rec)
     \<and> (\<forall>r \<in> set (li_rows (lw_log w)). rq_state r = InFlight \<longleftrightarrow> live w (rq_seq r))"

lemma world_ok_new: "world_ok new_world"
  by (simp add: world_ok_def new_world_def empty_log_def ring_ok_def)

lemma ring_le: "ring_ok l \<Longrightarrow> r \<in> set (li_rows l) \<Longrightarrow> rq_seq r \<le> li_next_seq l"
proof -
  assume "ring_ok l" "r \<in> set (li_rows l)"
  then have "rq_seq r \<in> set (map rq_seq (li_rows l))" by simp
  then show ?thesis using \<open>ring_ok l\<close> unfolding ring_ok_def by auto
qed

lemma world_ok_record: "world_ok w \<Longrightarrow> lw_records w h = Some rec \<Longrightarrow> record_ok (li_next_seq (lw_log w)) h rec"
  by (simp add: world_ok_def)

text \<open>A row that changes keeps its number and whether it is in flight.\<close>

definition mild :: "(request_row \<Rightarrow> request_row) \<Rightarrow> bool" where
  "mild f \<longleftrightarrow> (\<forall>r. rq_seq (f r) = rq_seq r \<and> rq_state (f r) = rq_state r)"

lemma mild_setter: "mild (apply_setter s)"
  by (cases s) (auto simp: mild_def)

lemma mild_answer: "mild (answer_row status err cause)"
  by (simp add: mild_def answer_row_def)

lemma mild_launch: "mild (\<lambda>r. r\<lparr>rq_launch_id := i\<rparr>)"
  by (simp add: mild_def)

lemma set_row_parts:
  "lw_log (set_row h f w) = lw_log w" "lw_sink (set_row h f w) = lw_sink w"
  "live (set_row h f w) = live w"
  by (auto simp: set_row_def live_def fun_eq_iff split: option.split)

lemma set_row_ok: "mild f \<Longrightarrow> world_ok w \<Longrightarrow> world_ok (set_row h f w)"
  unfolding world_ok_def set_row_parts
  by (auto simp: set_row_def record_ok_def mild_def split: option.splits if_splits)

lemma ended_row_parts [simp]:
  "rq_seq (ended_row r st u t) = rq_seq r" "rq_state (ended_row r st u t) = st"
  "rq_route (ended_row r st u t) = rq_route r" "rq_model_path (ended_row r st u t) = rq_model_path r"
  "rq_launch_id (ended_row r st u t) = rq_launch_id r"
  by (simp_all add: ended_row_def)

lemma finish_live:
  "live (finish_record h st u t w) = (live w)(h := False)"
  by (auto simp: finish_record_def live_def Let_def fun_eq_iff split: option.split)

lemma finish_ok:
  assumes "world_ok w" "st \<noteq> InFlight"
  shows "world_ok (finish_record h st u t w)"
proof (cases "live w h")
  case False
  then have "finish_record h st u t w = w"
    by (auto simp: finish_record_def live_def split: option.splits)
  then show ?thesis using assms(1) by simp
next
  case True
  then obtain rec where rec: "lw_records w h = Some rec" "\<not> re_finished rec"
    by (auto simp: live_def split: option.splits)
  define row where "row = ended_row (re_row rec) st u t"
  have ring: "ring_ok (lw_log w)" using assms(1) by (simp add: world_ok_def)
  have seq: "rq_seq row = h" "1 \<le> h" "h \<le> li_next_seq (lw_log w)"
    using world_ok_record[OF assms(1) rec(1)] by (simp_all add: record_ok_def row_def)
  have w': "finish_record h st u t w
      = w\<lparr>lw_log := count_row row (lw_log w),
          lw_records := (lw_records w)(h \<mapsto> \<lparr>re_row = row, re_finished = True\<rparr>),
          lw_unsent := lw_unsent w @ [row]\<rparr>"
    using rec by (simp add: finish_record_def row_def Let_def)
  note c = count_row_ring[OF ring, of row]
  have "ring_ok (count_row row (lw_log w))"
    using ring c by (simp add: ring_ok_def comp_def)
  moreover have "\<forall>r \<in> set (map (replace_row row) (li_rows (lw_log w))).
      rq_state r = InFlight \<longleftrightarrow> live (finish_record h st u t w) (rq_seq r)"
  proof
    fix r assume "r \<in> set (map (replace_row row) (li_rows (lw_log w)))"
    then obtain r0 where r0: "r0 \<in> set (li_rows (lw_log w))" "r = replace_row row r0" by auto
    have "rq_state r0 = InFlight \<longleftrightarrow> live w (rq_seq r0)" using assms(1) r0(1) by (simp add: world_ok_def)
    then show "rq_state r = InFlight \<longleftrightarrow> live (finish_record h st u t w) (rq_seq r)"
      using assms(2) seq(1) by (simp add: finish_live r0(2) replace_row_def) (simp add: row_def)
  qed
  moreover have "\<forall>k rec. lw_records (finish_record h st u t w) k = Some rec
      \<longrightarrow> record_ok (li_next_seq (lw_log w)) k rec"
    using assms seq world_ok_record[OF assms(1)] by (auto simp: w' record_ok_def) (simp_all add: row_def)
  ultimately show ?thesis using c unfolding world_ok_def by (simp add: w')
qed

lemma drop_parts:
  "lw_log (drop_record h t w) = lw_log (finish_record h ClientClosed no_usage t w)"
  "live (drop_record h t w) = (live w)(h := False)"
  by (auto simp: drop_record_def Let_def live_def fun_eq_iff finish_record_def split: option.split)

lemma drop_ok: "world_ok w \<Longrightarrow> world_ok (drop_record h t w)"
proof -
  assume "world_ok w"
  then have ok: "world_ok (finish_record h ClientClosed no_usage t w)" by (rule finish_ok) simp
  have l: "live (finish_record h ClientClosed no_usage t w) = live (drop_record h t w)"
    by (simp add: drop_parts finish_live)
  show ?thesis
    using ok unfolding world_ok_def drop_parts(1) l by (simp add: drop_record_def Let_def)
qed

lemma begin_ok:
  assumes "world_ok w"
  shows "world_ok (begin_request route client now mono_ms w)"
proof -
  have ring: "ring_ok (lw_log w)" using assms by (simp add: world_ok_def)
  define s where "s = li_next_seq (lw_log w) + 1"
  have none: "r \<in> set (li_rows (lw_log w)) \<Longrightarrow> rq_seq r \<noteq> s" for r
    using ring_le[OF ring] by (fastforce simp: s_def)
  have sub: "set (tl (li_rows (lw_log w))) \<subseteq> set (li_rows (lw_log w))" by (cases "li_rows (lw_log w)") auto
  have "\<forall>h rec. lw_records w h = Some rec \<longrightarrow> record_ok s h rec"
    using world_ok_record[OF assms] by (fastforce simp: record_ok_def s_def)
  then show ?thesis
    using assms ring_ok_begin[OF ring, of route client now mono_ms] none sub
    by (auto simp: world_ok_def begin_request_def begin_row_def Let_def live_def default_row_def s_def record_ok_def)
qed

lemma publish_ok:
  assumes "world_ok w"
  shows "world_ok (publish_record h w)"
proof (cases "lw_records w h")
  case None
  then show ?thesis using assms by (simp add: publish_record_def)
next
  case (Some rec)
  have ring: "ring_ok (lw_log w)" using assms by (simp add: world_ok_def)
  have rec: "rq_seq (re_row rec) = h" "re_finished rec \<longleftrightarrow> rq_state (re_row rec) \<noteq> InFlight"
    using world_ok_record[OF assms Some] by (simp_all add: record_ok_def)
  have "ring_ok (publish_row (re_row rec) (lw_log w))"
    using ring publish_row_ring[OF ring, of "re_row rec"] by (simp add: ring_ok_def comp_def)
  moreover have "live (publish_record h w) = live w"
    by (simp add: publish_record_def Some live_def fun_eq_iff)
  ultimately show ?thesis
    using assms publish_row_ring[OF ring, of "re_row rec"] Some rec
    unfolding world_ok_def by (auto simp: publish_record_def replace_row_def live_def split: option.splits)
qed

lemma log_change_ok:
  "world_ok w \<Longrightarrow> li_rows l = li_rows (lw_log w) \<Longrightarrow> li_next_seq l = li_next_seq (lw_log w)
    \<Longrightarrow> world_ok (w\<lparr>lw_log := l\<rparr>)"
  by (simp add: world_ok_def ring_ok_def live_def)

lemma set_launch_ok: "world_ok w \<Longrightarrow> world_ok (set_launch h i w)"
  by (auto simp: set_launch_def launch_entry_ring set_row_parts intro!: log_change_ok set_row_ok mild_launch
      split: option.split)

lemma sink_change_ok: "world_ok (w\<lparr>lw_sink := k\<rparr>) \<longleftrightarrow> world_ok w" "world_ok (try_send_row json h w) \<longleftrightarrow> world_ok w"
  by (simp_all add: world_ok_def live_def try_send_row_def split: option.split)

text \<open>A request never ends as in flight.\<close>

definition step_ok :: "log_step \<Rightarrow> bool" where
  "step_ok s \<longleftrightarrow> (case s of Finish _ st _ _ \<Rightarrow> st \<noteq> InFlight | _ \<Rightarrow> True)"

lemma exec_step_ok: "step_ok s \<Longrightarrow> world_ok w \<Longrightarrow> world_ok (exec_step json s w)"
  by (cases s) (auto simp: step_ok_def sink_change_ok write_to_def respond_def forget_launch_ring
      intro!: begin_ok set_row_ok mild_setter mild_answer set_launch_ok publish_ok finish_ok drop_ok log_change_ok
      split: option.split)

subsection \<open>Runs and the rows they ended\<close>

definition finish_ends :: "nat \<Rightarrow> request_state \<Rightarrow> usage \<Rightarrow> nat \<Rightarrow> log_world \<Rightarrow> request_row list" where
  "finish_ends h st u t w =
     (case lw_records w h of
        None \<Rightarrow> []
      | Some rec \<Rightarrow> if re_finished rec then [] else [ended_row (re_row rec) st u t])"

fun step_ends :: "log_step \<Rightarrow> log_world \<Rightarrow> request_row list" where
  "step_ends (Respond h status err cause t) w =
     finish_ends h Done no_usage t (set_row h (answer_row status err cause) w)"
| "step_ends (Finish h st u t) w = finish_ends h st u t w"
| "step_ends (DropRecord h t) w = finish_ends h ClientClosed no_usage t w"
| "step_ends _ w = []"

definition log_run :: "(request_row \<Rightarrow> string option) \<Rightarrow> log_step list \<Rightarrow> log_world \<times> request_row list" where
  "log_run json steps =
     foldl (\<lambda>(w, ended) s. (exec_step json s w, ended @ step_ends s w)) (new_world, []) steps"

lemma log_run_Nil [simp]: "log_run json [] = (new_world, [])"
  by (simp add: log_run_def)

lemma log_run_snoc:
  "log_run json (steps @ [s]) =
     (exec_step json s (fst (log_run json steps)), snd (log_run json steps) @ step_ends s (fst (log_run json steps)))"
  by (simp add: log_run_def split_beta)

lemma fst_log_run: "fst (log_run json steps) = exec_log json steps"
  by (induction steps rule: rev_induct) (simp_all add: log_run_snoc exec_log_def)

lemma finish_then_drop:
  "lw_log (drop_record h t (finish_record h st u t w)) = lw_log (finish_record h st u t w)"
  "lw_unsent (drop_record h t (finish_record h st u t w)) = lw_unsent (finish_record h st u t w)"
  "lw_sink (drop_record h t (finish_record h st u t w)) = lw_sink w"
  "live (drop_record h t (finish_record h st u t w)) = live (finish_record h st u t w)"
  by (auto simp: drop_record_def finish_record_def live_def Let_def fun_eq_iff split: option.split)

lemma finish_log:
  "lw_log (finish_record h st u t w) = foldl (\<lambda>l r. count_row r l) (lw_log w) (finish_ends h st u t w)"
  by (simp add: finish_record_def finish_ends_def Let_def split: option.split)

lemma finish_unsent: "lw_unsent (finish_record h st u t w) = lw_unsent w @ finish_ends h st u t w"
  by (simp add: finish_record_def finish_ends_def Let_def split: option.split)

lemma finish_sink [simp]: "lw_sink (finish_record h st u t w) = lw_sink w"
  by (simp add: finish_record_def Let_def split: option.split)

lemma try_send_parts [simp]:
  "lw_log (try_send_row json h w) = lw_log w" "lw_records (try_send_row json h w) = lw_records w"
  by (simp_all add: try_send_row_def split: option.split)

text \<open>Which requests a step ends: only a live one, and it is no longer live then.\<close>

lemma finish_ends_seq:
  assumes "world_ok w"
  shows "map rq_seq (finish_ends h st u t w) = (if live w h then [h] else [])"
  using world_ok_record[OF assms]
  by (auto simp: finish_ends_def live_def record_ok_def split: option.split)

lemma step_ends_live:
  assumes "world_ok w"
  shows "\<exists>hs. map rq_seq (step_ends s w) = hs \<and> distinct hs \<and> list_all (live w) hs
    \<and> (\<forall>h. live (exec_step json s w) h \<longleftrightarrow>
         (live w h \<and> h \<notin> set hs) \<or> (h = Suc (li_next_seq (lw_log w)) \<and> (\<exists>r c n m. s = Begin r c n m)))
    \<and> li_next_seq (lw_log (exec_step json s w))
        = (case s of Begin _ _ _ _ \<Rightarrow> Suc (li_next_seq (lw_log w)) | _ \<Rightarrow> li_next_seq (lw_log w))"
proof -
  have ring: "ring_ok (lw_log w)" using assms by (simp add: world_ok_def)
  have fin: "li_next_seq (lw_log (finish_record h st u t w)) = li_next_seq (lw_log w)" for h st u t
    using count_row_ring[OF ring] by (auto simp: finish_log finish_ends_def split: option.split)
  show ?thesis
  proof (cases s)
    case (Respond h status err cause t)
    have ok: "world_ok (set_row h (answer_row status err cause) w)" by (rule set_row_ok[OF mild_answer assms])
    have ring': "ring_ok (lw_log (set_row h (answer_row status err cause) w))" using ring by (simp add: set_row_parts)
    have "li_next_seq (lw_log (finish_record h Done no_usage t (set_row h (answer_row status err cause) w)))
        = li_next_seq (lw_log w)"
      using count_row_ring[OF ring']
      by (auto simp: finish_log finish_ends_def set_row_parts split: option.split)
    then show ?thesis using Respond finish_ends_seq[OF ok]
      by (simp add: respond_def finish_then_drop finish_live set_row_parts)
  next
    case (Begin r c n m)
    then show ?thesis
      by (auto simp: begin_request_def begin_row_def Let_def live_def default_row_def)
  next
    case (Finish h st u t)
    then show ?thesis using finish_ends_seq[OF assms] fin by (simp add: finish_live)
  next
    case (DropRecord h t)
    then show ?thesis using finish_ends_seq[OF assms] fin by (simp add: drop_parts finish_live)
  next
    case (Publish h)
    then show ?thesis using publish_row_ring[OF ring]
      by (auto simp: publish_record_def live_def split: option.split)
  next
    case (SetLaunch h i)
    then show ?thesis by (auto simp: set_launch_def set_row_def launch_entry_ring live_def split: option.split)
  next
    case (Setter h f)
    then show ?thesis by (simp add: set_row_parts)
  next
    case (ForgetLaunch i)
    then show ?thesis by (simp add: forget_launch_ring live_def)
  qed (simp_all add: live_def write_to_def split: option.split)
qed

lemma run_ok: "list_all step_ok steps \<Longrightarrow> world_ok (exec_log json steps)"
  by (induction steps rule: rev_induct) (simp_all add: exec_log_def world_ok_new exec_step_ok)

definition once :: "log_world \<Rightarrow> request_row list \<Rightarrow> bool" where
  "once w ended \<longleftrightarrow>
     distinct (map rq_seq ended) \<and> set (map rq_seq ended) \<inter> {h. live w h} = {}
     \<and> set (map rq_seq ended) \<union> {h. live w h} = {1..li_next_seq (lw_log w)}"

lemma once_step:
  assumes "world_ok w" "once w ended"
  shows "once (exec_step json s w) (ended @ step_ends s w)"
proof -
  define hs where "hs = map rq_seq (step_ends s w)"
  define n where "n = li_next_seq (lw_log w)"
  have e: "distinct hs" "\<forall>h \<in> set hs. live w h"
    and l: "\<And>h. live (exec_step json s w) h \<longleftrightarrow>
         (live w h \<and> h \<notin> set hs) \<or> (h = Suc n \<and> (\<exists>r c n m. s = Begin r c n m))"
    and next': "li_next_seq (lw_log (exec_step json s w)) = (case s of Begin _ _ _ _ \<Rightarrow> Suc n | _ \<Rightarrow> n)"
    using step_ends_live[OF assms(1), of s json] unfolding n_def by (auto simp: hs_def list_all_iff)
  have o: "distinct (map rq_seq ended)" "set (map rq_seq ended) \<inter> {h. live w h} = {}"
    "set (map rq_seq ended) \<union> {h. live w h} = {1..n}"
    using assms(2) by (simp_all add: once_def n_def)
  have dist: "distinct (map rq_seq (ended @ step_ends s w))"
    using o(1,2) e by (auto simp: hs_def)
  show ?thesis
  proof (cases "\<exists>r c n m. s = Begin r c n m")
    case True
    then have "hs = []" by (auto simp: hs_def)
    moreover have "{h. live (exec_step json s w) h} = insert (Suc n) {h. live w h}"
      using True l \<open>hs = []\<close> by auto
    moreover have "set (map rq_seq ended) \<subseteq> {1..n}" using o(3) by blast
    then have "Suc n \<notin> set (map rq_seq ended)" by (metis atLeastAtMost_iff not_less_eq_eq order_refl subsetD)
    moreover have "{1..Suc n} = insert (Suc n) {1..n}" by auto
    moreover have "li_next_seq (lw_log (exec_step json s w)) = Suc n" using next' True by auto
    ultimately show ?thesis using dist o(2,3) unfolding once_def hs_def by (metis Int_insert_right Un_insert_right append_Nil2 map_is_Nil_conv)
  next
    case False
    then have "{h. live (exec_step json s w) h} = {h. live w h} - set hs" using l by auto
    moreover have "li_next_seq (lw_log (exec_step json s w)) = n" using next' False by (cases s) auto
    moreover have "set hs \<subseteq> {h. live w h}" using e(2) by auto
    moreover have "set (map rq_seq (ended @ step_ends s w)) = set (map rq_seq ended) \<union> set hs" by (simp add: hs_def)
    ultimately show ?thesis using dist o(2,3) unfolding once_def by blast
  qed
qed

text \<open>
  C27. Whatever the order of the steps of the requests in progress, every request received is ended
  exactly once or is still held by its live record, the ring holds the newest rows in the order they
  arrived, and a row of it reads as in flight exactly while the record of its request is live: a
  request that is abandoned leaves no row that stays in flight.
\<close>

theorem requests_end_once:
  assumes "list_all step_ok steps"
  shows "once (exec_log json steps) (snd (log_run json steps))
    \<and> ring_ok (lw_log (exec_log json steps))
    \<and> list_all (\<lambda>r. (rq_state r = InFlight) = live (exec_log json steps) (rq_seq r))
        (li_rows (lw_log (exec_log json steps)))"
proof (intro conjI)
  have "once (fst (log_run json steps)) (snd (log_run json steps))" using assms
  proof (induction steps rule: rev_induct)
    case Nil
    show ?case by (simp add: once_def new_world_def empty_log_def live_def)
  next
    case (snoc s steps)
    then have "world_ok (fst (log_run json steps))" by (simp add: fst_log_run run_ok)
    from once_step[OF this] snoc show ?case by (simp add: log_run_snoc)
  qed
  then show "once (exec_log json steps) (snd (log_run json steps))" by (simp add: fst_log_run)
  show "ring_ok (lw_log (exec_log json steps))" using run_ok[OF assms] by (simp add: world_ok_def)
  show "list_all (\<lambda>r. (rq_state r = InFlight) = live (exec_log json steps) (rq_seq r))
        (li_rows (lw_log (exec_log json steps)))"
    using run_ok[OF assms] by (simp add: world_ok_def list_all_iff)
qed

subsection \<open>Totals\<close>

text \<open>Totals apart from the name they are shown under.\<close>

definition unnamed :: "totals \<Rightarrow> totals" where
  "unnamed t = t\<lparr>tt_label := None\<rparr>"

lemma unnamed_label [simp]: "unnamed (t\<lparr>tt_label := x\<rparr>) = unnamed t"
  by (simp add: unnamed_def)

lemma unnamed_counts: "unnamed (add_counts t r) = unnamed (add_counts (unnamed t) r)"
  by (simp add: unnamed_def add_counts_def Let_def)

lemma unnamed_times: "unnamed (add_times t r) = add_times (unnamed t) r"
  by (simp add: unnamed_def add_times_def split: option.split bool.split)

lemma unnamed_speeds: "unnamed (add_speeds t r) = add_speeds (unnamed t) r"
  by (simp add: unnamed_def add_speeds_def Let_def split: option.split)

lemma unnamed_tokens: "unnamed (add_tokens t r) = add_tokens (unnamed t) r"
  by (simp add: unnamed_def add_tokens_def Let_def split: option.split)

lemma unnamed_add: "unnamed t = unnamed t' \<Longrightarrow> unnamed (totals_add t r) = unnamed (totals_add t' r)"
  unfolding totals_add_def unnamed_tokens unnamed_speeds unnamed_times
  by (subst (1 2) unnamed_counts) simp

lemma unnamed_summary: "unnamed t = unnamed t' \<Longrightarrow> totals_summary t = totals_summary t'"
proof -
  have "totals_summary t = totals_summary (unnamed t)" for t
    by (simp add: totals_summary_def unnamed_def)
  then show "unnamed t = unnamed t' \<Longrightarrow> totals_summary t = totals_summary t'" by metis
qed

definition totals_of :: "request_row list \<Rightarrow> totals" where
  "totals_of rows = foldl totals_add no_totals rows"

lemma totals_of_snoc [simp]: "totals_of (rows @ [r]) = totals_add (totals_of rows) r"
  by (simp add: totals_of_def)

lemma table_or_change:
  "table_or d (table_change d k f m) j = (if j = k then f (table_or d m k) else table_or d m j)"
  by (simp add: table_or_def table_change_def update_conv)

definition counted :: "log_inner \<Rightarrow> request_row list \<Rightarrow> bool" where
  "counted l ended \<longleftrightarrow>
     li_all l = totals_of ended
     \<and> (\<forall>p. unnamed (table_or no_totals (li_by_model l) p)
            = unnamed (totals_of (filter (\<lambda>r. rq_model_path r = Some p) ended)))
     \<and> (\<forall>rt. table_or 0 (li_by_route l) rt = length (filter (\<lambda>r. rq_route r = rt) ended))"

lemma store_row_tables:
  "li_all (store_row l r) = li_all l" "li_by_route (store_row l r) = li_by_route l"
  "li_by_model (store_row l r) = li_by_model l" "li_by_launch (store_row l r) = li_by_launch l"
  "li_retired (store_row l r) = li_retired l"
  by (auto simp: store_row_def Let_def split: list.split)

lemma count_row_tables:
  "li_all (count_row row l) = totals_add (li_all l) row"
  "li_by_route (count_row row l) = table_change 0 (rq_route row) Suc (li_by_route l)"
  "li_by_model (count_row row l) =
     (case rq_model_path row of
        None \<Rightarrow> li_by_model l
      | Some p \<Rightarrow> table_change no_totals p (\<lambda>t. totals_add t row) (li_by_model l))"
  by (simp_all add: count_row_def store_row_tables Let_def split: option.split)

lemma counted_count:
  assumes "counted l ended"
  shows "counted (count_row row l) (ended @ [row])"
proof -
  note c = assms[unfolded counted_def]
  have "unnamed (table_or no_totals (li_by_model (count_row row l)) p)
      = unnamed (totals_of (filter (\<lambda>r. rq_model_path r = Some p) (ended @ [row])))" for p
  proof (cases "rq_model_path row = Some p")
    case True
    then show ?thesis
      using unnamed_add[of "table_or no_totals (li_by_model l) p"] c by (simp add: count_row_tables table_or_change)
  next
    case False
    then show ?thesis using c by (cases "rq_model_path row") (simp_all add: count_row_tables table_or_change)
  qed
  moreover have "table_or 0 (li_by_route (count_row row l)) rt
      = length (filter (\<lambda>r. rq_route r = rt) (ended @ [row]))" for rt
    using c by (simp add: count_row_tables table_or_change)
  ultimately show ?thesis using c by (simp only: counted_def count_row_tables(1) totals_of_snoc simp_thms)
qed

lemma counted_publish: "counted l ended \<Longrightarrow> counted (publish_row row l) ended"
proof (cases "rq_model_path row")
  case None
  assume "counted l ended"
  then show ?thesis using None by (simp add: counted_def publish_row_def store_row_tables Let_def)
next
  case (Some p)
  have named: "unnamed (table_or no_totals (li_by_model (publish_row row l)) q)
      = unnamed (table_or no_totals (li_by_model l) q)" for q
    using Some by (simp add: publish_row_def store_row_tables table_or_change Let_def)
  have rest: "li_all (publish_row row l) = li_all l" "li_by_route (publish_row row l) = li_by_route l"
    using Some by (simp_all add: publish_row_def store_row_tables Let_def)
  assume "counted l ended"
  then show ?thesis unfolding counted_def named rest .
qed

lemma counted_ends:
  "counted (lw_log w) ended
    \<Longrightarrow> counted (lw_log (finish_record h st u t w)) (ended @ finish_ends h st u t w)"
  by (auto simp: finish_log finish_ends_def counted_count split: option.split)

lemma counted_step: "counted (lw_log w) ended \<Longrightarrow> counted (lw_log (exec_step json s w)) (ended @ step_ends s w)"
proof (cases s)
  case (Respond h status err cause t)
  assume "counted (lw_log w) ended"
  then have "counted (lw_log (set_row h (answer_row status err cause) w)) ended" by (simp add: set_row_parts)
  from counted_ends[OF this] show ?thesis by (simp add: Respond respond_def finish_then_drop)
next
  case (Publish h)
  assume "counted (lw_log w) ended"
  then show ?thesis by (auto simp: Publish publish_record_def counted_publish split: option.split)
next
  case (SetLaunch h i)
  assume "counted (lw_log w) ended"
  then show ?thesis by (auto simp: SetLaunch set_launch_def set_row_parts counted_def launch_entry_def split: option.split)
next
  case (ForgetLaunch i)
  assume "counted (lw_log w) ended"
  then show ?thesis by (auto simp: ForgetLaunch forget_launch_def counted_def Let_def split: option.split)
next
  case (Finish h st u t)
  assume "counted (lw_log w) ended"
  then show ?thesis by (simp add: Finish counted_ends)
next
  case (DropRecord h t)
  assume "counted (lw_log w) ended"
  then show ?thesis by (simp add: DropRecord drop_parts counted_ends)
qed (auto simp: set_row_parts write_to_def begin_request_def begin_row_def counted_def Let_def
    split: option.split)

lemma counted_run: "counted (lw_log (exec_log json steps)) (snd (log_run json steps))"
proof -
  have "counted (lw_log (fst (log_run json steps))) (snd (log_run json steps))"
  proof (induction steps rule: rev_induct)
    case Nil
    show ?case by (simp add: counted_def new_world_def empty_log_def totals_of_def table_or_def)
  next
    case (snoc s steps)
    from counted_step[OF this] show ?case by (simp add: log_run_snoc)
  qed
  then show ?thesis by (simp add: fst_log_run)
qed

text \<open>
  C28. The totals of the log, and those of every model and route, are those of the requests that
  ended: each is added to them once, at its end, and the summary of a model is the summary of the
  ended requests of that model, whether their rows are still in the ring or not.
\<close>

theorem log_totals_exact:
  "li_all (lw_log (exec_log json steps)) = totals_of (snd (log_run json steps))
   \<and> totals_summary (table_or no_totals (li_by_model (lw_log (exec_log json steps))) p)
     = totals_summary (totals_of (filter (\<lambda>r. rq_model_path r = Some p) (snd (log_run json steps))))
   \<and> table_or 0 (li_by_route (lw_log (exec_log json steps))) rt
     = length (filter (\<lambda>r. rq_route r = rt) (snd (log_run json steps)))"
proof (intro conjI)
  note c = counted_run[of json steps, unfolded counted_def]
  show "li_all (lw_log (exec_log json steps)) = totals_of (snd (log_run json steps))" using c by blast
  show "totals_summary (table_or no_totals (li_by_model (lw_log (exec_log json steps))) p)
     = totals_summary (totals_of (filter (\<lambda>r. rq_model_path r = Some p) (snd (log_run json steps))))"
    using c by (intro unnamed_summary) blast
  show "table_or 0 (li_by_route (lw_log (exec_log json steps))) rt
     = length (filter (\<lambda>r. rq_route r = rt) (snd (log_run json steps)))" using c by blast
qed

text \<open>The totals of a launch, while it is not retired.\<close>

definition launch_counted :: "string \<Rightarrow> log_world \<Rightarrow> request_row list \<Rightarrow> bool" where
  "launch_counted i w ended \<longleftrightarrow>
     (\<forall>h rec. lw_records w h = Some rec \<longrightarrow> rq_launch_id (re_row rec) = Some i
        \<longrightarrow> map_of (li_by_launch (lw_log w)) i \<noteq> None)
     \<and> table_or no_totals (li_by_launch (lw_log w)) i = totals_of (filter (\<lambda>r. rq_launch_id r = Some i) ended)"

lemma launch_of_setter: "rq_launch_id (apply_setter s r) = rq_launch_id r"
  by (cases s) auto

lemma launch_counted_set_row:
  "\<forall>r. rq_launch_id (f r) = rq_launch_id r \<Longrightarrow> launch_counted i w ended \<Longrightarrow> launch_counted i (set_row h f w) ended"
  by (auto simp: launch_counted_def set_row_def split: option.split)

lemma count_row_launches:
  "li_by_launch (count_row row l) =
     (case rq_launch_id row of
        None \<Rightarrow> li_by_launch l
      | Some i \<Rightarrow>
          (case map_of (li_by_launch l) i of
             None \<Rightarrow> li_by_launch l
           | Some t \<Rightarrow> AList.update i (totals_add t row) (li_by_launch l)))"
  by (simp add: count_row_def store_row_tables Let_def split: option.split)

lemma launch_counted_finish:
  assumes "launch_counted i w ended"
  shows "launch_counted i (finish_record h st u t w) (ended @ finish_ends h st u t w)"
proof (cases "live w h")
  case False
  then have "finish_record h st u t w = w" "finish_ends h st u t w = []"
    by (auto simp: finish_record_def finish_ends_def live_def split: option.splits)
  then show ?thesis using assms by simp
next
  case True
  then obtain rec where rec: "lw_records w h = Some rec" "\<not> re_finished rec"
    by (auto simp: live_def split: option.splits)
  define row where "row = ended_row (re_row rec) st u t"
  have id: "rq_launch_id row = rq_launch_id (re_row rec)" by (simp add: row_def)
  have w': "lw_log (finish_record h st u t w) = count_row row (lw_log w)"
    "lw_records (finish_record h st u t w) = (lw_records w)(h \<mapsto> \<lparr>re_row = row, re_finished = True\<rparr>)"
    "finish_ends h st u t w = [row]"
    using rec by (simp_all add: finish_record_def finish_ends_def row_def Let_def)
  have dom: "map_of (li_by_launch (count_row row (lw_log w))) i = None
      \<longleftrightarrow> map_of (li_by_launch (lw_log w)) i = None"
    by (auto simp: count_row_launches update_conv split: option.split)
  have "table_or no_totals (li_by_launch (count_row row (lw_log w))) i
      = (if rq_launch_id row = Some i then totals_add (table_or no_totals (li_by_launch (lw_log w)) i) row
         else table_or no_totals (li_by_launch (lw_log w)) i)"
    using assms rec id by (auto simp: launch_counted_def count_row_launches table_or_def update_conv split: option.split)
  then show ?thesis
    using assms rec id dom by (auto simp: launch_counted_def w')
qed

lemma launch_counted_drop:
  "launch_counted i (finish_record h ClientClosed no_usage t w) ended
    \<Longrightarrow> launch_counted i (drop_record h t w) ended"
  by (auto simp: launch_counted_def drop_record_def Let_def)

lemma finish_twice: "finish_record h st u t (finish_record h st' u' t' w) = finish_record h st' u' t' w"
  by (auto simp: finish_record_def Let_def split: option.split)

lemma launch_counted_step:
  assumes "launch_counted i w ended" "s \<noteq> ForgetLaunch i"
  shows "launch_counted i (exec_step json s w) (ended @ step_ends s w)"
proof (cases s)
  case (Respond h status err cause t)
  have "launch_counted i (set_row h (answer_row status err cause) w) ended"
    using assms(1) by (intro launch_counted_set_row) (simp_all add: answer_row_def)
  from launch_counted_finish[OF this] show ?thesis
    by (simp add: Respond respond_def) (rule launch_counted_drop, simp add: finish_twice)
next
  case (Finish h st u t)
  then show ?thesis using launch_counted_finish[OF assms(1)] by simp
next
  case (DropRecord h t)
  then show ?thesis using launch_counted_drop[OF launch_counted_finish[OF assms(1)]] by simp
next
  case (SetLaunch h j)
  then show ?thesis using assms(1)
    by (auto simp: launch_counted_def set_launch_def set_row_def launch_entry_def table_change_def table_or_def update_conv
        split: option.splits)
next
  case (Setter h f)
  then show ?thesis using assms(1) by (simp add: launch_counted_set_row launch_of_setter)
next
  case (Begin r c n m)
  then show ?thesis using assms(1)
    by (auto simp: launch_counted_def begin_request_def begin_row_def Let_def default_row_def)
next
  case (Publish h)
  have "li_by_launch (publish_row r l) = li_by_launch l" for r l
    by (simp add: publish_row_def Let_def store_row_tables split: option.split)
  then show ?thesis using assms(1) by (simp add: Publish launch_counted_def publish_record_def split: option.split)
next
  case (ForgetLaunch j)
  then show ?thesis using assms
    by (auto simp: launch_counted_def forget_launch_def table_or_def delete_conv' Let_def split: option.split)
qed (use assms(1) in \<open>auto simp: launch_counted_def write_to_def split: option.split\<close>)

text \<open>
  Until a launch stops, its totals are those of the ended requests handed to it, in whatever
  order requests were handed over, published and ended, and when it stops they stay readable.
\<close>

theorem launch_totals_exact:
  assumes "ForgetLaunch i \<notin> set steps"
  shows "table_or no_totals (li_by_launch (lw_log (exec_log json steps))) i
      = totals_of (filter (\<lambda>r. rq_launch_id r = Some i) (snd (log_run json steps)))
    \<and> launch_totals (forget_launch i (lw_log (exec_log json steps))) i
      = launch_totals (lw_log (exec_log json steps)) i"
proof (intro conjI)
  have "launch_counted i (fst (log_run json steps)) (snd (log_run json steps))" using assms
  proof (induction steps rule: rev_induct)
    case Nil
    show ?case by (simp add: launch_counted_def new_world_def empty_log_def totals_of_def table_or_def)
  next
    case (snoc s steps)
    then have "launch_counted i (fst (log_run json steps)) (snd (log_run json steps))" "s \<noteq> ForgetLaunch i" by auto
    from launch_counted_step[OF this] show ?case by (simp add: log_run_snoc)
  qed
  then show "table_or no_totals (li_by_launch (lw_log (exec_log json steps))) i
      = totals_of (filter (\<lambda>r. rq_launch_id r = Some i) (snd (log_run json steps)))"
    by (simp add: launch_counted_def fst_log_run)
  show "launch_totals (forget_launch i (lw_log (exec_log json steps))) i
      = launch_totals (lw_log (exec_log json steps)) i"
    by (auto simp: launch_totals_def forget_launch_def Let_def delete_conv' RETIRED_LAUNCH_HISTORY_def split: option.split)
qed

subsection \<open>The file\<close>

text \<open>The rows whose sender has tried the queue, in that order.\<close>

fun step_sends :: "log_step \<Rightarrow> log_world \<Rightarrow> request_row list" where
  "step_sends (TrySend h) w = (case List.find (\<lambda>r. rq_seq r = h) (lw_unsent w) of None \<Rightarrow> [] | Some r \<Rightarrow> [r])"
| "step_sends _ w = []"

definition sent_run :: "(request_row \<Rightarrow> string option) \<Rightarrow> log_step list \<Rightarrow> log_world \<times> request_row list" where
  "sent_run json steps =
     foldl (\<lambda>(w, sent) s. (exec_step json s w, sent @ step_sends s w)) (new_world, []) steps"

lemma sent_run_snoc:
  "sent_run json (steps @ [s]) =
     (exec_step json s (fst (sent_run json steps)), snd (sent_run json steps) @ step_sends s (fst (sent_run json steps)))"
  by (simp add: sent_run_def split_beta)

lemma fst_sent_run: "fst (sent_run json steps) = exec_log json steps"
  by (induction steps rule: rev_induct) (simp_all add: sent_run_snoc exec_log_def, simp add: sent_run_def)

text \<open>What the writer has in its hands, and what it knows to be lost.\<close>

fun in_hand :: "writer_phase \<Rightarrow> string list" where
  "in_hand (WriterHolding line) = [line]"
| "in_hand _ = []"

fun known_lost :: "writer_phase \<Rightarrow> nat" where
  "known_lost (WriterClosing n) = n"
| "known_lost (WriterDraining n) = n"
| "known_lost (WriterCounting n) = n"
| "known_lost _ = 0"

text \<open>The queue is open until the writer has closed it, and empty once the writer has drained it.\<close>

fun queue_fits :: "writer_phase \<Rightarrow> bool \<Rightarrow> string list \<Rightarrow> bool" where
  "queue_fits WriterGone shut q \<longleftrightarrow> shut \<and> q = []"
| "queue_fits (WriterCounting _) shut q \<longleftrightarrow> shut \<and> q = []"
| "queue_fits (WriterDraining _) shut q \<longleftrightarrow> shut"
| "queue_fits _ shut q \<longleftrightarrow> \<not> shut"

definition accounted :: "(request_row \<Rightarrow> string option) \<Rightarrow> file_sink \<Rightarrow> request_row list \<Rightarrow> bool" where
  "accounted json k sent \<longleftrightarrow>
     length (fk_written k) + length (in_hand (fk_writer k)) + length (fk_queue k)
       + known_lost (fk_writer k) + fk_refused k + fk_dropped k = length sent
     \<and> subseq (map Some (fk_written k @ in_hand (fk_writer k) @ fk_queue k)) (map json sent)
     \<and> length (fk_queue k) \<le> FILE_QUEUE
     \<and> queue_fits (fk_writer k) (fk_closed k) (fk_queue k)"

lemma subseq_step: "subseq xs (map json sent) \<Longrightarrow> subseq xs (map json (sent @ [r]))"
  by (simp add: subseq_rev_drop_many)

lemma accounted_send:
  assumes "accounted json k sent"
  shows "accounted json (sink_send (json r) k) (sent @ [r])"
proof (cases "json r \<noteq> None \<and> \<not> fk_closed k \<and> length (fk_queue k) < FILE_QUEUE")
  case True
  then obtain l where l: "json r = Some l" by blast
  have "subseq (map Some (fk_written k @ in_hand (fk_writer k) @ fk_queue k) @ [Some l]) (map json sent @ [Some l])"
    using assms unfolding accounted_def by (intro list_emb_append_mono) auto
  moreover have "queue_fits (fk_writer k) (fk_closed k) (fk_queue k @ [l])"
    using assms True by (cases "fk_writer k") (simp_all add: accounted_def)
  ultimately show ?thesis using assms True l by (simp add: accounted_def sink_send_def)
next
  case False
  then have "sink_send (json r) k = k\<lparr>fk_refused := fk_refused k + 1\<rparr>"
    by (auto simp: sink_send_def split: option.split)
  then show ?thesis using assms subseq_step[of _ json sent r] by (simp add: accounted_def)
qed

lemma accounted_count: "accounted json k sent \<Longrightarrow> accounted json (count_refused k) sent"
  by (auto simp: accounted_def count_refused_def)

text \<open>A line left out of what is kept leaves the rest in order.\<close>

lemma subseq_without:
  assumes "subseq (map Some (a @ b @ c)) ys"
  shows "subseq (map Some (a @ c)) ys"
proof -
  have "subseq (map Some a @ [] @ map Some c) (map Some a @ map Some b @ map Some c)"
    by (intro list_emb_append_mono) auto
  then show ?thesis using assms subseq_order.order_trans by (metis append_Nil map_append)
qed

lemma accounted_writer:
  assumes "accounted json k sent"
  shows "accounted json (writer_step ok k) sent"
proof (cases "fk_writer k")
  case WriterWaiting
  then show ?thesis using assms
    by (cases "fk_queue k") (auto simp: accounted_def writer_step_def write_lines_step_def)
next
  case (WriterHolding line)
  then show ?thesis using assms subseq_without[of "fk_written k" "[line]" "fk_queue k"]
    by (auto simp: accounted_def writer_step_def write_lines_step_def)
next
  case (WriterDraining n)
  show ?thesis
  proof (cases "fk_queue k")
    case (Cons line rest)
    then show ?thesis using assms WriterDraining subseq_without[of "fk_written k" "[line]" rest]
      by (simp add: accounted_def writer_step_def writer_end_step_def)
  qed (use assms WriterDraining in \<open>simp add: accounted_def writer_step_def writer_end_step_def\<close>)
qed (use assms in \<open>auto simp: accounted_def writer_step_def write_lines_step_def writer_end_step_def\<close>)

definition sink_accounted :: "(request_row \<Rightarrow> string option) \<Rightarrow> log_world \<Rightarrow> request_row list \<Rightarrow> bool" where
  "sink_accounted json w sent \<longleftrightarrow> (case lw_sink w of None \<Rightarrow> False | Some k \<Rightarrow> accounted json k sent)"

lemma sink_accounted_step:
  assumes "sink_accounted json w sent"
  shows "sink_accounted json (exec_step json s w) (sent @ step_sends s w)"
proof (cases s)
  case (TrySend h)
  then show ?thesis using assms
    by (auto simp: sink_accounted_def try_send_row_def accounted_send split: option.splits)
qed (use assms in \<open>auto simp: sink_accounted_def begin_request_def set_row_parts set_launch_def publish_record_def
      respond_def drop_record_def write_to_def accounted_count accounted_writer Let_def
      split: option.splits prod.split\<close>)

text \<open>The rows still to be sent and those sent are the ended ones.\<close>

definition unsent_known :: "log_world \<Rightarrow> request_row list \<Rightarrow> request_row list \<Rightarrow> bool" where
  "unsent_known w ended sent \<longleftrightarrow> mset ended = mset sent + mset (lw_unsent w)"

lemma unsent_known_step:
  assumes "unsent_known w ended sent"
  shows "unsent_known (exec_step json s w) (ended @ step_ends s w) (sent @ step_sends s w)"
proof (cases s)
  case (TrySend h)
  show ?thesis
  proof (cases "List.find (\<lambda>r. rq_seq r = h) (lw_unsent w)")
    case (Some r)
    then have "r \<in> set (lw_unsent w)" by (auto simp: find_Some_iff intro: nth_mem)
    then show ?thesis using assms Some by (simp add: TrySend unsent_known_def try_send_row_def)
  qed (use assms TrySend in \<open>simp add: unsent_known_def try_send_row_def\<close>)
next
  case (Respond h status err cause t)
  have "lw_unsent (set_row h f w) = lw_unsent w" for f by (simp add: set_row_def split: option.split)
  then show ?thesis using assms by (simp add: Respond respond_def finish_then_drop finish_unsent unsent_known_def)
next
  case (DropRecord h t)
  then show ?thesis using assms by (simp add: drop_record_def Let_def finish_unsent unsent_known_def)
qed (use assms in \<open>auto simp: unsent_known_def begin_request_def set_launch_def set_row_def publish_record_def
      write_to_def finish_unsent split: option.split prod.split\<close>)

lemma unsent_known_run: "unsent_known (exec_log json steps) (snd (log_run json steps)) (snd (sent_run json steps))"
proof (induction steps rule: rev_induct)
  case Nil
  show ?case by (simp add: unsent_known_def exec_log_def new_world_def sent_run_def)
next
  case (snoc s steps)
  from unsent_known_step[OF this, of json s] show ?case
    by (simp add: log_run_snoc sent_run_snoc fst_log_run fst_sent_run exec_log_def)
qed

text \<open>
  C29. When the log is also written to a file, every ended request is at every moment in one place: its
  row waits to be sent, is in the queue or in the writer's hands, is written, is known to be lost to the
  sender or the writer that will count it, or is counted as dropped, whatever the file answers. What is
  written and what is yet to be written is in the order the rows were sent, each line the text of its
  row, the queue never holds more than its bound, and a writer that is gone leaves nothing in it.
\<close>

theorem file_accounts_for_rows:
  "sink_accounted json (exec_log json (WriteTo path # steps)) (snd (sent_run json (WriteTo path # steps)))
   \<and> mset (snd (log_run json (WriteTo path # steps)))
     = mset (snd (sent_run json (WriteTo path # steps))) + mset (lw_unsent (exec_log json (WriteTo path # steps)))"
proof
  have "sink_accounted json (fst (sent_run json (WriteTo path # steps))) (snd (sent_run json (WriteTo path # steps)))"
  proof (induction steps rule: rev_induct)
    case Nil
    show ?case
      by (simp add: sent_run_def sink_accounted_def new_world_def write_to_def accounted_def new_sink_def)
  next
    case (snoc s steps)
    from sink_accounted_step[OF this, of s] show ?case
      using sent_run_snoc[of json "WriteTo path # steps" s] by simp
  qed
  then show "sink_accounted json (exec_log json (WriteTo path # steps)) (snd (sent_run json (WriteTo path # steps)))"
    by (simp add: fst_sent_run)
  show "mset (snd (log_run json (WriteTo path # steps)))
     = mset (snd (sent_run json (WriteTo path # steps))) + mset (lw_unsent (exec_log json (WriteTo path # steps)))"
    using unsent_known_run[of json "WriteTo path # steps"] by (simp add: unsent_known_def)
qed

text \<open>Two requests that end at the same time may reach the file in the other order.\<close>

lemma late_send_reorders:
  "let json = (\<lambda>r. Some (show_nat (rq_seq r)));
       steps = [WriteTo ''f'', Begin ''/v1/rerank'' None 1 1, Begin ''/v1/rerank'' None 2 2,
                Finish 1 Done no_usage 5, Finish 2 Done no_usage 4, TrySend 2, TrySend 1,
                WriterRuns True, WriterRuns True, WriterRuns True, WriterRuns True, WriterRuns True]
   in map rq_seq (snd (log_run json steps)) = [1, 2]
      \<and> map_option fk_written (lw_sink (exec_log json steps)) = Some [''2'', ''1'']"
  by code_simp

subsection \<open>Runs\<close>

definition sample_steps :: "log_step list" where
  "sample_steps =
     [Begin ''/v1/chat/completions'' (Some ''127.0.0.1:5000'') 1000 10,
      Begin ''/v1/embeddings'' None 1001 11,
      Setter 1 (SetModel ''qwen'' ''/m/qwen.gguf''), Publish 1, SetLaunch 1 ''L1'', Publish 1,
      Setter 1 (SetStatus 200), Setter 1 (MarkFirstByte 40),
      Respond 2 404 (Some ''model_not_found'') (Some ''no such model'') 3,
      Finish 1 Done no_usage 90, DropRecord 1 91, Begin ''/v1/rerank'' None 1100 12]"

theorem requests_end_once_witness:
  "once (exec_log (\<lambda>_. None) sample_steps) (snd (log_run (\<lambda>_. None) sample_steps))
   \<and> map rq_seq (snd (log_run (\<lambda>_. None) sample_steps)) = [2, 1]
   \<and> live (exec_log (\<lambda>_. None) sample_steps) 3"
proof -
  have "list_all step_ok sample_steps" by (simp add: sample_steps_def step_ok_def)
  from conjunct1[OF requests_end_once[OF this]] have "once (exec_log (\<lambda>_. None) sample_steps) (snd (log_run (\<lambda>_. None) sample_steps))" .
  moreover have "map rq_seq (snd (log_run (\<lambda>_. None) sample_steps)) = [2, 1]" by code_simp
  moreover have "live (exec_log (\<lambda>_. None) sample_steps) 3" by code_simp
  ultimately show ?thesis by blast
qed

theorem launch_totals_exact_witness:
  "tt_requests (table_or no_totals (li_by_launch (lw_log (exec_log (\<lambda>_. None) sample_steps))) ''L1'') = 1"
proof -
  have "ForgetLaunch ''L1'' \<notin> set sample_steps" by (simp add: sample_steps_def)
  from conjunct1[OF launch_totals_exact[OF this, of "\<lambda>_. None"]]
  have "table_or no_totals (li_by_launch (lw_log (exec_log (\<lambda>_. None) sample_steps))) ''L1''
      = totals_of (filter (\<lambda>r. rq_launch_id r = Some ''L1'') (snd (log_run (\<lambda>_. None) sample_steps)))" .
  also have "tt_requests \<dots> = 1" by code_simp
  finally show ?thesis .
qed

text \<open>
  A request handed to a launch after the launch was forgotten brings its entry back: the totals it
  had read as zero, and nothing will retire the new entry.
\<close>

lemma late_handover_revives_launch:
  "let w = exec_log (\<lambda>_. None) (sample_steps @ [ForgetLaunch ''L1''])
   in map_option tt_requests (launch_totals (lw_log w) ''L1'') = Some 1
      \<and> map_option tt_requests (launch_totals (lw_log (exec_step (\<lambda>_. None) (SetLaunch 3 ''L1'') w)) ''L1'') = Some 0"
  by code_simp

end
