(* ===== verification/Request_Snapshot.thy ===== *)
theory Request_Snapshot
  imports Request_Count Stable_Sort
begin

text \<open>
  The whole log in owned data: \<open>RequestLog::snapshot\<close>, \<open>LogSnapshot\<close> and its \<open>tail\<close> of
  \<open>src/proxy/request_log.rs\<close>. Shown: for a scope the log has totals of, the tail read from a snapshot
  is the tail the log itself answers.
\<close>

subsection \<open>Sorting by name\<close>

text \<open>The order of \<open>String\<close>: bytes, lexicographically.\<close>

fun compare_str :: "string \<Rightarrow> string \<Rightarrow> ordering" where
  "compare_str [] [] = Equal"
| "compare_str [] (_ # _) = Less"
| "compare_str (_ # _) [] = Greater"
| "compare_str (a # as) (b # bs) =
     (case compare_nat (byte a) (byte b) of Equal \<Rightarrow> compare_str as bs | r \<Rightarrow> r)"

subsection \<open>Views\<close>

record scope_totals =
  sc_key :: string
  sc_label :: "string option"
  sc_summary :: request_summary
  sc_duration_ms_sum :: nat
  sc_ttfb_ms_sum :: nat
  sc_timed :: nat
  sc_prefill_tokens :: nat
  sc_prefill_seconds :: fp

record log_launch =
  ll_totals :: scope_totals
  ll_live :: bool

record log_view =
  ls_rows :: "request_row list"
  ls_all :: scope_totals
  ls_models :: "scope_totals list"
  ls_launches :: "log_launch list"
  ls_routes :: "(string \<times> nat) list"

definition totals_view :: "string \<Rightarrow> totals \<Rightarrow> scope_totals" where
  "totals_view key t =
     \<lparr>sc_key = key, sc_label = tt_label t, sc_summary = totals_summary t,
      sc_duration_ms_sum = tt_duration_ms_sum t, sc_ttfb_ms_sum = tt_ttfb_ms_sum t,
      sc_timed = tt_timed t, sc_prefill_tokens = tt_prefill_tokens t,
      sc_prefill_seconds = tt_prefill_seconds t\<rparr>"

text \<open>The figures of every model, or launch, from one pass over the rows.\<close>

definition figures_by :: "(request_row \<Rightarrow> string option) \<Rightarrow> request_row list \<Rightarrow> row_figures table" where
  "figures_by key rows =
     foldl (\<lambda>m r. case key r of None \<Rightarrow> m | Some k \<Rightarrow> table_change no_figures k (\<lambda>f. figures_add f r) m) [] rows"

definition stamped :: "row_figures \<Rightarrow> scope_totals \<Rightarrow> scope_totals" where
  "stamped f t = t\<lparr>sc_summary := stamp_figures f (sc_summary t)\<rparr>"

text \<open>Each scope takes its figures out of the map; a scope without any is stamped with zeros.\<close>

fun stamp_models :: "row_figures table \<Rightarrow> scope_totals list \<Rightarrow> scope_totals list" where
  "stamp_models figs [] = []"
| "stamp_models figs (m # ms) =
     stamped (table_or no_figures figs (sc_key m)) m # stamp_models (AList.delete (sc_key m) figs) ms"

fun stamp_launches :: "row_figures table \<Rightarrow> log_launch list \<Rightarrow> log_launch list" where
  "stamp_launches figs [] = []"
| "stamp_launches figs (m # ms) =
     m\<lparr>ll_totals := stamped (table_or no_figures figs (sc_key (ll_totals m))) (ll_totals m)\<rparr>
     # stamp_launches (AList.delete (sc_key (ll_totals m)) figs) ms"

definition snapshot_models :: "log_inner \<Rightarrow> scope_totals list" where
  "snapshot_models l =
     stamp_models (figures_by rq_model_path (li_rows l))
       (sort_by (\<lambda>a b. compare_str (sc_key a) (sc_key b)) (map (\<lambda>(p, t). totals_view p t) (li_by_model l)))"

definition snapshot_launches :: "log_inner \<Rightarrow> log_launch list" where
  "snapshot_launches l =
     stamp_launches (figures_by rq_launch_id (li_rows l))
       (sort_by (\<lambda>a b. compare_str (sc_key (ll_totals a)) (sc_key (ll_totals b)))
          (map (\<lambda>(i, t). \<lparr>ll_totals = totals_view i t, ll_live = True\<rparr>) (li_by_launch l))
        @ map (\<lambda>(i, t). \<lparr>ll_totals = totals_view i t, ll_live = False\<rparr>) (li_retired l))"

definition log_snapshot :: "log_inner \<Rightarrow> log_view" where
  "log_snapshot l =
     \<lparr>ls_rows = li_rows l,
      ls_all = stamped (figures_of (li_rows l)) (totals_view [] (li_all l)),
      ls_models = snapshot_models l,
      ls_launches = snapshot_launches l,
      ls_routes = sort_by (\<lambda>a b. case compare_str (fst a) (fst b) of Equal \<Rightarrow> compare_nat (snd a) (snd b) | r \<Rightarrow> r)
        (li_by_route l)\<rparr>"

definition find_launch :: "string \<Rightarrow> log_launch list \<Rightarrow> scope_totals option" where
  "find_launch i ls = map_option ll_totals (List.find (\<lambda>m. sc_key (ll_totals m) = i) ls)"

fun snapshot_scope :: "log_view \<Rightarrow> log_scope \<Rightarrow> scope_totals option" where
  "snapshot_scope s AllRows = Some (ls_all s)"
| "snapshot_scope s (ModelRows p) = List.find (\<lambda>m. sc_key m = p) (ls_models s)"
| "snapshot_scope s (LaunchRows i) = find_launch i (ls_launches s)"

definition snapshot_tail :: "log_view \<Rightarrow> log_scope \<Rightarrow> nat \<Rightarrow> tail_reply" where
  "snapshot_tail s scope limit =
     (let summary = (case snapshot_scope s scope of
                       Some t \<Rightarrow> sc_summary t
                     | None \<Rightarrow> stamp_figures no_figures default_summary)
      in \<lparr>ta_summary =
            with_session scope
              (Option.bind (Option.bind (newest_launch scope (ls_rows s)) (\<lambda>i. find_launch i (ls_launches s)))
                (\<lambda>t. sm_tokens_per_second_avg (sc_summary t))) summary,
          ta_rows = newest_rows scope limit (ls_rows s)\<rparr>)"

definition snapshot_in_flight :: "log_view \<Rightarrow> (request_row \<Rightarrow> bool) \<Rightarrow> clients" where
  "snapshot_in_flight s pred =
     foldl clients_add no_clients (filter pred (filter (\<lambda>r. rq_state r = InFlight) (ls_rows s)))"

definition snapshot_launch_path :: "log_view \<Rightarrow> string \<Rightarrow> string option" where
  "snapshot_launch_path s i =
     Option.bind (List.find (\<lambda>r. rq_launch_id r = Some i) (rev (ls_rows s))) rq_model_path"

subsection \<open>One pass gives the figures of every scope\<close>

lemma figures_by_scope:
  "table_or no_figures (figures_by key rows) k = figures_of (filter (\<lambda>r. key r = Some k) rows)"
  by (induction rows rule: rev_induct)
    (auto simp: figures_by_def figures_of_def table_or_change split: option.split, simp add: table_or_def)

lemma table_or_delete: "k \<noteq> j \<Longrightarrow> table_or d (AList.delete j m) k = table_or d m k"
  by (simp add: table_or_def delete_conv')

lemma stamped_key [simp]: "sc_key (stamped f t) = sc_key t"
  by (simp add: stamped_def)

lemma stamp_models_distinct:
  "distinct (map sc_key ms) \<Longrightarrow> stamp_models figs ms = map (\<lambda>m. stamped (table_or no_figures figs (sc_key m)) m) ms"
proof (induction ms arbitrary: figs)
  case (Cons m ms)
  have "map (\<lambda>x. stamped (table_or no_figures (AList.delete (sc_key m) figs) (sc_key x)) x) ms
      = map (\<lambda>x. stamped (table_or no_figures figs (sc_key x)) x) ms"
  proof (intro map_cong refl)
    fix x assume "x \<in> set ms"
    then have "sc_key x \<in> set (map sc_key ms)" by simp
    moreover have "sc_key m \<notin> set (map sc_key ms)" using Cons.prems by simp
    ultimately have ne: "sc_key x \<noteq> sc_key m" by metis
    show "stamped (table_or no_figures (AList.delete (sc_key m) figs) (sc_key x)) x
        = stamped (table_or no_figures figs (sc_key x)) x" by (simp only: table_or_delete[OF ne])
  qed
  then show ?case using Cons by simp
qed simp

abbreviation launch_key :: "log_launch \<Rightarrow> string" where
  "launch_key m \<equiv> sc_key (ll_totals m)"

lemma stamp_launches_distinct:
  "distinct (map launch_key ms) \<Longrightarrow>
     stamp_launches figs ms
       = map (\<lambda>m. m\<lparr>ll_totals := stamped (table_or no_figures figs (launch_key m)) (ll_totals m)\<rparr>) ms"
proof (induction ms arbitrary: figs)
  case (Cons m ms)
  have "map (\<lambda>x. x\<lparr>ll_totals := stamped (table_or no_figures (AList.delete (launch_key m) figs) (launch_key x))
                      (ll_totals x)\<rparr>) ms
      = map (\<lambda>x. x\<lparr>ll_totals := stamped (table_or no_figures figs (launch_key x)) (ll_totals x)\<rparr>) ms"
  proof (intro map_cong refl)
    fix x assume "x \<in> set ms"
    then have "launch_key x \<in> set (map launch_key ms)" by simp
    moreover have "launch_key m \<notin> set (map launch_key ms)" using Cons.prems by simp
    ultimately have ne: "launch_key x \<noteq> launch_key m" by metis
    show "x\<lparr>ll_totals := stamped (table_or no_figures (AList.delete (launch_key m) figs) (launch_key x))
          (ll_totals x)\<rparr>
        = x\<lparr>ll_totals := stamped (table_or no_figures figs (launch_key x)) (ll_totals x)\<rparr>"
      by (simp only: table_or_delete[OF ne])
  qed
  then show ?case using Cons by simp
qed simp

text \<open>Finding a key in a list of views of a table.\<close>

lemma find_distinct:
  "distinct (map key xs) \<Longrightarrow> x \<in> set xs \<Longrightarrow> List.find (\<lambda>y. key y = key x) xs = Some x"
  by (induction xs) auto

lemma find_view:
  assumes "distinct (map fst al)" "set xs = set (map (\<lambda>(k, t). v k t) al)" "distinct (map key xs)"
    and key: "\<And>k t. key (v k t) = k"
  shows "List.find (\<lambda>x. key x = k) xs = map_option (v k) (map_of al k)"
proof (cases "map_of al k")
  case None
  then have "k \<notin> fst ` set al" by (simp add: map_of_eq_None_iff)
  then have "List.find (\<lambda>x. key x = k) xs = None"
    unfolding find_None_iff assms(2) by (auto simp: key image_iff)
  then show ?thesis using None by simp
next
  case (Some t)
  then have "v k t \<in> set xs" unfolding assms(2) by (force dest: map_of_SomeD)
  from find_distinct[where key = key, OF assms(3) this] show ?thesis using Some by (simp add: key)
qed

subsection \<open>The tail of a snapshot\<close>

lemma find_map_option: "map_option f (List.find (\<lambda>x. p (f x)) xs) = List.find p (map f xs)"
  by (induction xs) auto

text \<open>No launch is both running and retired, or retired twice.\<close>

definition launches_distinct :: "log_inner \<Rightarrow> bool" where
  "launches_distinct l \<longleftrightarrow> distinct (map fst (li_by_launch l) @ map fst (li_retired l))"

lemma distinct_keys_mset: "mset (map f xs) = mset (map f ys) \<Longrightarrow> distinct (map f xs) = distinct (map f ys)"
  by (rule mset_eq_imp_distinct_iff)

lemma find_model:
  assumes "distinct (map fst (li_by_model l))"
  shows "snapshot_scope (log_snapshot l) (ModelRows p)
    = map_option (\<lambda>t. stamped (figures_of (filter (\<lambda>r. rq_model_path r = Some p) (li_rows l))) (totals_view p t))
        (map_of (li_by_model l) p)"
proof -
  define views where "views = map (\<lambda>(p, t). totals_view p t) (li_by_model l)"
  define ms where "ms = sort_by (\<lambda>a b. compare_str (sc_key a) (sc_key b)) views"
  define v where "v p t = stamped (table_or no_figures (figures_by rq_model_path (li_rows l)) p) (totals_view p t)" for p t
  have view_keys: "map sc_key views = map fst (li_by_model l)"
    by (simp add: views_def totals_view_def split_beta)
  have "mset (map sc_key ms) = mset (map sc_key views)" by (simp add: ms_def)
  then have dist: "distinct (map sc_key ms)"
    using distinct_keys_mset view_keys assms by metis
  have models: "snapshot_models l = map (\<lambda>m. stamped (table_or no_figures (figures_by rq_model_path (li_rows l)) (sc_key m)) m) ms"
    using stamp_models_distinct[OF dist] by (simp add: snapshot_models_def ms_def views_def)
  have "set (snapshot_models l) = set (map (\<lambda>(k, t). v k t) (li_by_model l))"
    unfolding models by (simp add: ms_def views_def image_image split_beta v_def totals_view_def)
  moreover have "distinct (map sc_key (snapshot_models l))" using dist by (simp add: models comp_def)
  ultimately have "List.find (\<lambda>m. sc_key m = p) (snapshot_models l) = map_option (v p) (map_of (li_by_model l) p)"
    by (intro find_view[OF assms]) (simp_all add: v_def totals_view_def)
  moreover have "v p = (\<lambda>t. stamped (figures_of (filter (\<lambda>r. rq_model_path r = Some p) (li_rows l))) (totals_view p t))"
    by (simp add: fun_eq_iff v_def figures_by_scope)
  ultimately show ?thesis by (simp add: log_snapshot_def)
qed

lemma map_of_distinct_rev: "distinct (map fst xs) \<Longrightarrow> map_of (rev xs) = map_of xs"
  by (metis distinct_rev map_of_inject_set rev_map set_rev)

lemma find_launch_view:
  assumes "launches_distinct l"
  shows "find_launch i (snapshot_launches l)
    = map_option (\<lambda>t. stamped (figures_of (filter (\<lambda>r. rq_launch_id r = Some i) (li_rows l))) (totals_view i t))
        (launch_totals l i)"
proof -
  define live where "live = map (\<lambda>(i, t). \<lparr>ll_totals = totals_view i t, ll_live = True\<rparr>) (li_by_launch l)"
  define gone where "gone = map (\<lambda>(i, t). \<lparr>ll_totals = totals_view i t, ll_live = False\<rparr>) (li_retired l)"
  define ms where "ms = sort_by (\<lambda>a b. compare_str (launch_key a) (launch_key b)) live @ gone"
  define st where "st i t = stamped (table_or no_figures (figures_by rq_launch_id (li_rows l)) i) (totals_view i t)" for i t
  have keys: "map launch_key live = map fst (li_by_launch l)" "map launch_key gone = map fst (li_retired l)"
    by (simp_all add: live_def gone_def totals_view_def split_beta)
  have "mset (map launch_key ms) = mset (map launch_key live @ map launch_key gone)" by (simp add: ms_def)
  then have dist: "distinct (map launch_key ms)"
    using assms mset_eq_imp_distinct_iff unfolding keys launches_distinct_def by metis
  define xs where "xs = map ll_totals (snapshot_launches l)"
  have launches: "snapshot_launches l
      = map (\<lambda>m. m\<lparr>ll_totals := stamped (table_or no_figures (figures_by rq_launch_id (li_rows l)) (launch_key m))
                     (ll_totals m)\<rparr>) ms"
    using stamp_launches_distinct[OF dist] by (simp add: snapshot_launches_def ms_def live_def gone_def)
  have "set xs = set (map (\<lambda>(k, t). st k t) (li_by_launch l @ li_retired l))"
    unfolding xs_def launches ms_def
    by (simp add: live_def gone_def image_image image_Un split_beta st_def totals_view_def)
  moreover have "distinct (map sc_key xs)" using dist by (simp add: xs_def launches comp_def)
  moreover have "distinct (map fst (li_by_launch l @ li_retired l))" using assms by (simp add: launches_distinct_def)
  ultimately have "List.find (\<lambda>m. sc_key m = i) xs = map_option (st i) (map_of (li_by_launch l @ li_retired l) i)"
    by (intro find_view) (simp_all add: st_def totals_view_def)
  moreover have "find_launch i (snapshot_launches l) = List.find (\<lambda>m. sc_key m = i) xs"
    unfolding find_launch_def xs_def by (rule find_map_option)
  moreover have "distinct (map fst (li_retired l))" using assms by (simp add: launches_distinct_def)
  then have "launch_totals l i = map_of (li_by_launch l @ li_retired l) i"
    by (simp add: launch_totals_def map_of_distinct_rev map_add_def split: option.split)
  moreover have "st i = (\<lambda>t. stamped (figures_of (filter (\<lambda>r. rq_launch_id r = Some i) (li_rows l))) (totals_view i t))"
    by (simp add: fun_eq_iff st_def figures_by_scope)
  ultimately show ?thesis by simp
qed

text \<open>Keys are never repeated, whatever the steps.\<close>

lemma distinct_change: "distinct (map fst m) \<Longrightarrow> distinct (map fst (table_change d k f m))"
  by (simp add: table_change_def distinct_update)

definition known_model :: "totals table \<Rightarrow> request_row \<Rightarrow> bool" where
  "known_model m r \<longleftrightarrow> (case rq_model_path r of None \<Rightarrow> True | Some p \<Rightarrow> map_of m p \<noteq> None)"

definition keys_ok :: "log_inner \<Rightarrow> bool" where
  "keys_ok l \<longleftrightarrow> distinct (map fst (li_by_model l)) \<and> distinct (map fst (li_by_launch l))
     \<and> list_all (known_model (li_by_model l)) (li_rows l)"

lemma known_change: "known_model (table_change d k f m) r \<longleftrightarrow> rq_model_path r = Some k \<or> known_model m r"
  unfolding known_model_def table_change_def by (auto simp: update_conv split: option.split)

lemma replaced_rows: "P row \<Longrightarrow> list_all P rows \<Longrightarrow> list_all P (map (replace_row row) rows)"
  by (auto simp: list_all_iff replace_row_def)

lemma list_all_weaken: "list_all P xs \<Longrightarrow> (\<And>x. P x \<Longrightarrow> Q x) \<Longrightarrow> list_all Q xs"
  by (simp add: list_all_iff)

lemma keys_ok_count:
  assumes "ring_ok l" "keys_ok l"
  shows "keys_ok (count_row row l)"
proof -
  have "known_model (li_by_model (count_row row l)) row"
    by (cases "rq_model_path row") (simp_all add: count_row_tables known_change, simp add: known_model_def)
  moreover have "list_all (known_model (li_by_model (count_row row l))) (li_rows l)"
    by (rule list_all_weaken[where P = "known_model (li_by_model l)"])
      (use assms(2) in \<open>auto simp: keys_ok_def count_row_tables known_change split: option.split\<close>)
  ultimately have "list_all (known_model (li_by_model (count_row row l))) (li_rows (count_row row l))"
    using count_row_ring[OF assms(1), of row] by (simp only: replaced_rows)
  then show ?thesis using assms(2)
    by (auto simp: keys_ok_def count_row_launches distinct_update split: option.split)
      (auto simp: count_row_tables distinct_change split: option.split)
qed

lemma publish_row_tables:
  "li_by_model (publish_row row l) =
     (case rq_model_path row of
        None \<Rightarrow> li_by_model l
      | Some p \<Rightarrow> table_change no_totals p
          (\<lambda>t. if tt_label t = None then t\<lparr>tt_label := rq_model row\<rparr> else t) (li_by_model l))"
  "li_by_launch (publish_row row l) = li_by_launch l"
  by (simp_all add: publish_row_def store_row_tables Let_def split: option.split)

lemma keys_ok_publish:
  assumes "ring_ok l" "keys_ok l"
  shows "keys_ok (publish_row row l)"
proof -
  have "known_model (li_by_model (publish_row row l)) row"
    by (cases "rq_model_path row") (simp_all add: publish_row_tables known_change, simp add: known_model_def)
  moreover have "list_all (known_model (li_by_model (publish_row row l))) (li_rows l)"
    by (rule list_all_weaken[where P = "known_model (li_by_model l)"])
      (use assms(2) in \<open>auto simp: keys_ok_def publish_row_tables known_change split: option.split\<close>)
  ultimately have "list_all (known_model (li_by_model (publish_row row l))) (li_rows (publish_row row l))"
    using publish_row_ring[OF assms(1), of row] by (simp only: replaced_rows)
  then show ?thesis using assms(2)
    by (simp add: keys_ok_def publish_row_tables) (simp add: distinct_change split: option.split)
qed

lemma keys_ok_begin: "keys_ok l \<Longrightarrow> keys_ok (fst (begin_row route client now mono_ms l))"
  by (cases "li_rows l") (auto simp: keys_ok_def begin_row_def Let_def default_row_def known_model_def)

lemma keys_ok_finish:
  "world_ok w \<Longrightarrow> keys_ok (lw_log w) \<Longrightarrow> keys_ok (lw_log (finish_record h st u t w))"
  by (auto simp: finish_log finish_ends_def world_ok_def keys_ok_count split: option.split)

lemma keys_ok_step:
  assumes "world_ok w" "keys_ok (lw_log w)"
  shows "keys_ok (lw_log (exec_step json s w))"
proof (cases s)
  case (Begin r c n m)
  then show ?thesis using keys_ok_begin[OF assms(2), of r c n m] by (simp add: begin_request_def split_beta)
next
  case (Respond h status err cause t)
  have "keys_ok (lw_log (finish_record h Done no_usage t (set_row h (answer_row status err cause) w)))"
    by (rule keys_ok_finish[OF set_row_ok[OF mild_answer assms(1)]]) (simp add: set_row_parts assms(2))
  then show ?thesis by (simp add: Respond respond_def finish_then_drop)
next
  case (Publish h)
  then show ?thesis using assms by (auto simp: publish_record_def world_ok_def keys_ok_publish split: option.split)
next
  case (SetLaunch h i)
  then show ?thesis using assms(2)
    by (auto simp: set_launch_def set_row_parts launch_entry_def keys_ok_def distinct_change split: option.split)
next
  case (ForgetLaunch i)
  then show ?thesis using assms(2)
    by (auto simp: forget_launch_def keys_ok_def Let_def distinct_delete split: option.split)
qed (use assms keys_ok_finish[OF assms] in \<open>auto simp: drop_parts set_row_parts write_to_def split: option.split\<close>)

lemma keys_ok_run: "list_all step_ok steps \<Longrightarrow> keys_ok (lw_log (exec_log json steps))"
proof (induction steps rule: rev_induct)
  case Nil
  show ?case by (simp add: exec_log_def new_world_def empty_log_def keys_ok_def)
next
  case (snoc s steps)
  then show ?case using keys_ok_step[OF run_ok[of steps json], of json s] by (simp add: exec_log_def)
qed

text \<open>The scopes a snapshot answers like the log: those with totals.\<close>

definition scope_known :: "log_inner \<Rightarrow> log_scope \<Rightarrow> bool" where
  "scope_known l scope \<longleftrightarrow>
     (case scope of LaunchRows i \<Rightarrow> launch_totals l i \<noteq> None \<or> list_all (\<lambda>r. rq_launch_id r \<noteq> Some i) (li_rows l)
      | _ \<Rightarrow> True)"

lemma scope_matches_row:
  "scope_matches AllRows = (\<lambda>r. True)" "scope_matches (ModelRows p) = (\<lambda>r. rq_model_path r = Some p)"
  "scope_matches (LaunchRows i) = (\<lambda>r. rq_launch_id r = Some i)"
  by (simp_all add: fun_eq_iff)

lemma snapshot_summary:
  assumes "keys_ok l" "launches_distinct l" "scope_known l scope"
  shows "(case snapshot_scope (log_snapshot l) scope of
            Some t \<Rightarrow> sc_summary t | None \<Rightarrow> stamp_figures no_figures default_summary)
    = stamp_figures (figures_of (filter (scope_matches scope) (li_rows l)))
        (case scope_totals_of l scope of Some t \<Rightarrow> totals_summary t | None \<Rightarrow> default_summary)"
proof (cases scope)
  case AllRows
  then show ?thesis by (simp add: log_snapshot_def stamped_def totals_view_def scope_matches_row)
next
  case (ModelRows p)
  show ?thesis
  proof (cases "map_of (li_by_model l) p")
    case None
    have "rq_model_path r \<noteq> Some p" if r: "r \<in> set (li_rows l)" for r
    proof
      assume p: "rq_model_path r = Some p"
      have "known_model (li_by_model l) r" using assms(1) r by (simp add: keys_ok_def list_all_iff)
      then show False unfolding known_model_def p using None by simp
    qed
    then have "filter (\<lambda>r. rq_model_path r = Some p) (li_rows l) = []" by (simp add: filter_empty_conv)
    moreover have "snapshot_scope (log_snapshot l) (ModelRows p) = None"
      using assms(1) None by (simp only: keys_ok_def find_model option.map)
    ultimately show ?thesis using ModelRows None by (simp add: figures_of_def scope_matches_row del: snapshot_scope.simps)
  next
    case (Some t)
    have "snapshot_scope (log_snapshot l) (ModelRows p)
        = Some (stamped (figures_of (filter (\<lambda>r. rq_model_path r = Some p) (li_rows l))) (totals_view p t))"
      using assms(1) Some by (simp only: keys_ok_def find_model option.map)
    then show ?thesis using ModelRows Some
      by (simp add: stamped_def totals_view_def scope_matches_row del: snapshot_scope.simps)
  qed
next
  case (LaunchRows i)
  have f: "snapshot_scope (log_snapshot l) (LaunchRows i)
      = map_option (\<lambda>t. stamped (figures_of (filter (\<lambda>r. rq_launch_id r = Some i) (li_rows l))) (totals_view i t))
          (launch_totals l i)"
    using find_launch_view[OF assms(2)] by (simp add: log_snapshot_def)
  show ?thesis
  proof (cases "launch_totals l i")
    case None
    then have "filter (\<lambda>r. rq_launch_id r = Some i) (li_rows l) = []"
      using assms(3) LaunchRows by (auto simp: scope_known_def list_all_iff filter_empty_conv)
    then show ?thesis using LaunchRows None by (simp add: f figures_of_def scope_matches_row del: snapshot_scope.simps)
  next
    case (Some t)
    then show ?thesis using LaunchRows
      by (simp add: f stamped_def totals_view_def scope_matches_row del: snapshot_scope.simps)
  qed
qed

text \<open>
  C31. A snapshot answers a tail as the log it was taken from: the same rows and the same summary, for
  every scope the log still has totals of, as long as no launch was revived after it was forgotten.
\<close>

theorem snapshot_tail_agrees:
  assumes "list_all step_ok steps" "launches_distinct (lw_log (exec_log json steps))"
    and "scope_known (lw_log (exec_log json steps)) scope"
  shows "snapshot_tail (log_snapshot (lw_log (exec_log json steps))) scope limit
    = log_tail (lw_log (exec_log json steps)) scope limit"
proof -
  define l where "l = lw_log (exec_log json steps)"
  have l: "keys_ok l" "launches_distinct l" "scope_known l scope"
    using keys_ok_run[OF assms(1)] assms(2,3) by (simp_all add: l_def)
  have rows: "ls_rows (log_snapshot l) = li_rows l" "ls_launches (log_snapshot l) = snapshot_launches l"
    by (simp_all add: log_snapshot_def)
  have avg: "Option.bind (find_launch i (snapshot_launches l)) (\<lambda>t. sm_tokens_per_second_avg (sc_summary t))
      = Option.bind (launch_totals l i) (\<lambda>t. sm_tokens_per_second_avg (totals_summary t))" for i
    by (cases "launch_totals l i")
      (simp_all add: find_launch_view[OF l(2)] stamped_def totals_view_def stamp_figures_def)
  have "snapshot_tail (log_snapshot l) scope limit = log_tail l scope limit"
    unfolding snapshot_tail_def log_tail_def Let_def snapshot_summary[OF l] rows
    by (cases "newest_launch scope (li_rows l)") (simp_all add: avg)
  then show ?thesis by (simp add: l_def)
qed

theorem snapshot_tail_agrees_witness:
  "snapshot_tail (log_snapshot (lw_log (exec_log (\<lambda>_. None) sample_steps))) (LaunchRows ''L1'') 5
     = log_tail (lw_log (exec_log (\<lambda>_. None) sample_steps)) (LaunchRows ''L1'') 5
   \<and> map rq_seq (ta_rows (log_tail (lw_log (exec_log (\<lambda>_. None) sample_steps)) (LaunchRows ''L1'') 5)) = [1]"
proof -
  have "list_all step_ok sample_steps" by (simp add: sample_steps_def step_ok_def)
  moreover have "launches_distinct (lw_log (exec_log (\<lambda>_. None) sample_steps))" by code_simp
  moreover have "scope_known (lw_log (exec_log (\<lambda>_. None) sample_steps)) (LaunchRows ''L1'')" by code_simp
  ultimately have "snapshot_tail (log_snapshot (lw_log (exec_log (\<lambda>_. None) sample_steps))) (LaunchRows ''L1'') 5
     = log_tail (lw_log (exec_log (\<lambda>_. None) sample_steps)) (LaunchRows ''L1'') 5"
    by (rule snapshot_tail_agrees)
  moreover have "map rq_seq (ta_rows (log_tail (lw_log (exec_log (\<lambda>_. None) sample_steps)) (LaunchRows ''L1'') 5)) = [1]"
    by code_simp
  ultimately show ?thesis by blast
qed

text \<open>
  A launch whose totals were pushed out of the retired ones while its rows are still in the ring: the
  log counts the clients of those rows, the snapshot reports none.
\<close>

definition outlived_log :: log_inner where
  "outlived_log =
     lw_log (exec_log (\<lambda>_. None)
       ([Begin ''/v1/completions'' (Some ''10.0.0.2:4000'') 1 1, SetLaunch 1 ''L0'', Publish 1, DropRecord 1 5,
         Begin ''/v1/completions'' None 2 2]
        @ concat (map (\<lambda>i. [SetLaunch 2 (''L'' @ show_nat i), ForgetLaunch (''L'' @ show_nat i)])
            ([0] @ [1..<17]))))"

lemma outlived_launch_differs:
  "launch_totals outlived_log ''L0'' = None
   \<and> sm_hosts (ta_summary (log_tail outlived_log (LaunchRows ''L0'') 0)) = Some 1
   \<and> sm_hosts (ta_summary (snapshot_tail (log_snapshot outlived_log) (LaunchRows ''L0'') 0)) = Some 0"
  by (intro conjI) code_simp+

end
