(* ===== verification/Request_Cells.thy ===== *)
theory Request_Cells
  imports Request_Row Datetime
begin

text \<open>
  Rows and summaries as table cells: \<open>RequestRow::cells\<close> and \<open>note\<close>, \<open>RequestSummary::cell_rows\<close> and
  the formatters of \<open>src/proxy/request_log.rs\<close>. The local clock is a parameter. Shown: a speed the
  proxy accepts fits its column.
\<close>

subsection \<open>Formatters\<close>

fun fmt_fp :: "nat \<Rightarrow> fp \<Rightarrow> string" where
  "fmt_fp d (Fin neg q) = sign_text neg @ fmt_fixed d q"
| "fmt_fp d (Infinite neg) = sign_text neg @ ''inf''"
| "fmt_fp d NotANumber = ''NaN''"

definition fmt_pct :: "fp \<Rightarrow> string" where
  "fmt_pct ratio = fmt_fp 1 (fp_mul ratio (fp_of_nat 100)) @ ''%''"

definition fmt_count :: "nat \<Rightarrow> string" where
  "fmt_count n =
     (if n < 10000 then show_nat n
      else if n < 999950 then fmt_fp 1 (fp_div (fp_of_nat n) (fp_of_nat 1000)) @ ''k''
      else fmt_fp 1 (fp_div (fp_of_nat n) (fp_of_nat 1000000)) @ ''M'')"

definition WHOLE_FROM :: fp where
  "WHOLE_FROM = f64_round False (99995 / 100)"

definition KILO_FROM :: fp where
  "KILO_FROM = f64_round False (999995 / 10)"

definition fmt_tps :: "fp \<Rightarrow> string" where
  "fmt_tps v =
     (if fp_less v WHOLE_FROM then fmt_fp 1 v
      else if fp_less v KILO_FROM then fmt_fp 0 v
      else fmt_fp 0 (fp_div v (fp_of_nat 1000)) @ ''k'')"

definition fmt_ms :: "nat \<Rightarrow> string" where
  "fmt_ms ms =
     (let secs = ms div 1000
      in if ms < 1000 then show_nat ms @ ''ms''
         else if secs < 60 then fmt_fp 1 (fp_div (fp_of_nat ms) (fp_of_nat 1000)) @ ''s''
         else if secs < 3600 then show_nat (secs div 60) @ ''m'' @ pad_nat 2 (secs mod 60) @ ''s''
         else show_nat (secs div 3600) @ ''h'' @ pad_nat 2 (secs mod 3600 div 60) @ ''m'')"

subsection \<open>Cells of a row\<close>

record request_cells =
  rc_time :: string
  rc_status :: string
  rc_total :: string
  rc_ttfb :: string
  rc_speed :: string
  rc_prefill :: string
  rc_tokens_in :: string
  rc_cache_hit :: string
  rc_tokens_out :: string
  rc_route :: string
  rc_model :: string
  rc_request_for :: string
  rc_launch :: string
  rc_client :: string
  rc_note :: string

definition row_note :: "request_row \<Rightarrow> string" where
  "row_note r =
     join '', ''
       ((case rq_state r of
           InFlight \<Rightarrow> if rq_model_path r \<noteq> None \<and> rq_launch_id r = None then [''loading model''] else [''in flight'']
         | ClientClosed \<Rightarrow> [''client closed'']
         | UpstreamError \<Rightarrow> [''upstream error'']
         | Done \<Rightarrow> [])
        @ (if rq_alias r then [''alias''] else [])
        @ (if rq_ui r then [''ui''] else [])
        @ (if rq_auto_start r \<and> rq_state r \<noteq> InFlight then [''auto-start''] else [])
        @ (if rq_evicted r \<noteq> [] then [''unloaded '' @ join '' '' (rq_evicted r)] else [])
        @ (case rq_fallback r of Some reason \<Rightarrow> [''fallback ('' @ reason @ '')''] | None \<Rightarrow> [])
        @ (case rq_error r of
             Some err \<Rightarrow> [case rq_cause r of Some cause \<Rightarrow> err @ '': '' @ cause | None \<Rightarrow> err]
           | None \<Rightarrow> []))"

definition cell_or :: "string \<Rightarrow> ('a \<Rightarrow> string) \<Rightarrow> 'a option \<Rightarrow> string" where
  "cell_or none f v = (case v of Some x \<Rightarrow> f x | None \<Rightarrow> none)"

definition marked_speed :: "bool \<Rightarrow> fp \<Rightarrow> string" where
  "marked_speed estimated t = (if estimated then ''~'' else []) @ fmt_tps t"

definition row_cells ::
  "(nat \<Rightarrow> (nat \<times> nat \<times> nat) option) \<Rightarrow> string \<Rightarrow> request_row \<Rightarrow> request_cells" where
  "row_cells localtime none r =
     (case local_hms localtime (rq_started_at_ms r div 1000) of (hour, mins, sec) \<Rightarrow>
        \<lparr>rc_time = pad_nat 2 hour @ '':'' @ pad_nat 2 mins @ '':'' @ pad_nat 2 sec,
         rc_status = cell_or none show_nat (rq_status r),
         rc_total = cell_or none fmt_ms (rq_duration_ms r),
         rc_ttfb = cell_or none fmt_ms (rq_ttfb_ms r),
         rc_speed = cell_or none (marked_speed (rq_tokens_per_second_estimated r)) (rq_tokens_per_second r),
         rc_prefill = cell_or none (marked_speed (rq_prefill_estimated r)) (rq_prefill_tokens_per_second r),
         rc_tokens_in = cell_or none fmt_count (rq_prompt_tokens r),
         rc_cache_hit = cell_or none fmt_pct
           (or_else (rq_cache_hit_ratio r) (cache_hit_ratio (rq_cached_tokens r) (rq_prompt_tokens r))),
         rc_tokens_out = cell_or none fmt_count (rq_completion_tokens r),
         rc_route = (if starts_with (rq_route r) ''/v1/'' then drop 4 (rq_route r) else rq_route r),
         rc_model = cell_or none (\<lambda>s. s) (or_else (rq_model r) (rq_requested_model r)),
         rc_request_for = cell_or none (\<lambda>s. s) (rq_requested_model r),
         rc_launch = cell_or none (\<lambda>s. s) (rq_launch_id r),
         rc_client = cell_or none (\<lambda>s. s) (rq_client r),
         rc_note = row_note r\<rparr>)"

subsection \<open>Cells of a summary\<close>

datatype aggregates = Always | WhenTheyDiffer

fun fp_abs :: "fp \<Rightarrow> fp" where
  "fp_abs (Fin _ q) = Fin False q"
| "fp_abs (Infinite _) = Infinite False"
| "fp_abs NotANumber = NotANumber"

definition fp_sub :: "fp \<Rightarrow> fp \<Rightarrow> fp" where
  "fp_sub x y = fp_add x (fp_neg y)"

definition NOISE :: fp where
  "NOISE = f64_round False (5 / 100)"

definition aggregate_cell ::
  "fp option \<Rightarrow> fp option \<Rightarrow> nat option \<Rightarrow> string \<Rightarrow> aggregates \<Rightarrow> (string \<times> string) option" where
  "aggregate_cell avg aggregate busy_ms label agg =
     (case (aggregate, busy_ms) of
        (Some v, Some busy) \<Rightarrow>
          let printed = fmt_tps v;
              txt = printed @ '' over '' @ fmt_ms busy;
              differs = (case avg of
                           Some a \<Rightarrow> if fp_less fp_zero a
                                     then printed \<noteq> fmt_tps a \<and> fp_less NOISE (fp_div (fp_abs (fp_sub v a)) a)
                                     else True
                         | None \<Rightarrow> True)
          in if agg = Always \<or> differs then Some (label, txt) else None
      | _ \<Rightarrow> None)"

definition live_cell :: "request_summary \<Rightarrow> (string \<times> string) option" where
  "live_cell s =
     (case (sm_live_hosts s, sm_live_connections s) of
        (Some hosts, Some connections) \<Rightarrow>
          if hosts > 0 \<or> connections > 0
          then Some (''Live'', if hosts = connections then show_nat hosts
                               else show_nat hosts @ ''/'' @ show_nat connections)
          else None
      | _ \<Rightarrow> None)"

definition list_of :: "'a option \<Rightarrow> 'a list" where
  "list_of v = (case v of Some x \<Rightarrow> [x] | None \<Rightarrow> [])"

definition cell_rows :: "request_summary \<Rightarrow> string \<Rightarrow> aggregates \<Rightarrow> (string \<times> string) list \<times> (string \<times> string) list" where
  "cell_rows s none agg =
     (list_of (live_cell s)
        @ [(''Hosts'', cell_or none show_nat (sm_hosts s)),
           (''Connections'', cell_or none show_nat (sm_connections s)),
           (''Requests'', show_nat (sm_requests s)), (''Errors'', show_nat (sm_errors s)),
           (''Auto-starts'', show_nat (sm_auto_starts s)), (''Unloaded'', show_nat (sm_evictions s))],
      [(''Avg tok/s'', cell_or none fmt_tps (sm_tokens_per_second_avg s))]
        @ list_of (map_option (\<lambda>t. (''Tok/s session'', fmt_tps t)) (sm_tokens_per_second_session s))
        @ list_of (aggregate_cell (sm_tokens_per_second_avg s) (sm_tokens_per_second_aggregate s)
            (sm_busy_ms s) ''Agg tok/s'' agg)
        @ [(''Avg PP tok/s'', cell_or none fmt_tps (sm_prefill_tokens_per_second s))]
        @ list_of (aggregate_cell (sm_prefill_tokens_per_second s) (sm_prefill_tokens_per_second_aggregate s)
            (sm_prefill_busy_ms s) ''Agg PP tok/s'' agg)
        @ [(''Avg total'', cell_or none fmt_ms (sm_avg_duration_ms s)),
           (''Avg TTFB'', cell_or none fmt_ms (sm_avg_ttfb_ms s)),
           (''Tokens in'', fmt_count (sm_prompt_tokens s)),
           (''Cached'', cell_or none (\<lambda>ratio. fmt_count (sm_cached_tokens s) @ '' ('' @ fmt_pct ratio @ '')'')
              (sm_cache_hit_ratio s)),
           (''Tokens out'', fmt_count (sm_completion_tokens s))])"

definition summary_cells :: "request_summary \<Rightarrow> string \<Rightarrow> aggregates \<Rightarrow> (string \<times> string) list" where
  "summary_cells s none agg = (case cell_rows s none agg of (counts, speeds) \<Rightarrow> counts @ speeds)"

subsection \<open>A speed fits its column\<close>

lemma show_nat_short: "n < 10 ^ k \<Longrightarrow> 0 < k \<Longrightarrow> length (show_nat n) \<le> k"
proof (induction n arbitrary: k rule: show_nat.induct)
  case (1 n)
  show ?case
  proof (cases "n < 10")
    case True
    then show ?thesis using 1(3) by (simp add: show_nat.simps)
  next
    case False
    then obtain j where k: "k = Suc j" "0 < j" using 1(2,3) by (cases k; cases "k - 1") auto
    have "n div 10 < 10 ^ j" using 1(2) k by (simp add: less_mult_imp_div_less mult.commute)
    then show ?thesis using 1(1)[OF False _ k(2)] False k by (simp add: show_nat.simps[of n])
  qed
qed

lemma fixed_whole: "round_even q \<le> int m \<Longrightarrow> m < 10 ^ k \<Longrightarrow> 0 < k \<Longrightarrow> length (fmt_fixed 0 q) \<le> k"
proof -
  assume "round_even q \<le> int m" "m < 10 ^ k" "0 < k"
  then have "nat (round_even q) < 10 ^ k" by linarith
  then show ?thesis using \<open>0 < k\<close> show_nat_short by (simp add: fmt_fixed_def)
qed

lemma fixed_tenths:
  assumes "round_even (q * 10) \<le> int m" "m < 10 ^ Suc k" "0 < k"
  shows "length (fmt_fixed 1 q) \<le> k + 2"
proof -
  define n where "n = nat (round_even (q * 10))"
  have n: "n div 10 < 10 ^ k" using assms(1,2) unfolding n_def by simp
  have "length (show_nat (n mod 10)) \<le> 1" by (rule show_nat_short) simp_all
  moreover have "length (show_nat (n div 10)) \<le> k" by (rule show_nat_short[OF n assms(3)])
  ultimately show ?thesis by (simp add: fmt_fixed_def n_def[symmetric] Let_def)
qed

lemma round_even_below_half: "q < of_int i + 1 / 2 \<Longrightarrow> round_even q \<le> i"
proof (cases "q \<le> of_int i")
  case False
  assume "q < of_int i + 1 / 2"
  then have "\<lfloor>q\<rfloor> = i" using False by (simp add: floor_eq_iff)
  then show ?thesis using \<open>q < of_int i + 1 / 2\<close> by (simp add: round_even_def Let_def)
qed (rule round_even_le_int)

text \<open>From one to a billion the rounding of \<open>f64\<close> is the one without exponent bounds.\<close>

lemma f64_round_normal:
  assumes "1 \<le> q" "q < 2 ^ 30"
  shows "f64_round neg q = Fin neg (fl q)"
proof -
  have "log_floor 1 \<le> log_floor q" using assms(1) by (intro log_floor_mono) simp_all
  moreover have "log_floor 1 = 0" by code_simp
  moreover have "log_floor q \<le> 29" using assms by (intro log_floor_le) simp_all
  ultimately have "normal_range f64_format (log_floor q)" by (simp add: normal_range_def f64_format_def)
  then show ?thesis using assms(1) by (simp add: round_fp_code fl_def f64_format_def Let_def)
qed

text \<open>
  A speed the proxy accepts, with the mark of an estimate, fits the six cells its column has,
  whatever the speed: one decimal below a thousand, then whole, then whole thousands.
\<close>

theorem speed_fits_column:
  assumes "usable_speed (Fin False q) = Some v" "fl q = q"
  shows "length (marked_speed estimated v) \<le> 6"
proof -
  have v: "v = Fin False q" and q: "0 < q" "q \<le> 1000000"
    using assms(1) by (auto simp: usable_speed_def SPEED_CEILING_def fp_le_def split: if_splits)
  have whole: "WHOLE_FROM = Fin False (fl (99995 / 100))" "KILO_FROM = Fin False (fl (999995 / 10))"
    unfolding WHOLE_FROM_def KILO_FROM_def by (rule f64_round_normal; simp)+
  have kilo: "fl (199999 / 2) = 199999 / 2" by code_simp
  have "length (fmt_tps v) \<le> 5"
  proof (cases "q < fl (99995 / 100)")
    case True
    then have "q < 99995 / 100" using fl_mono[of "99995 / 100" q] assms(2) by linarith
    then have "round_even (q * 10) \<le> int 9999" by (intro round_even_below_half) simp
    from fixed_tenths[OF this, of 3] True show ?thesis by (simp add: fmt_tps_def v whole sign_text_def)
  next
    case whole_part: False
    show ?thesis
    proof (cases "q < 999995 / 10")
      case True
      then have "round_even q \<le> int 99999" by (intro round_even_below_half) simp
      from fixed_whole[OF this, of 5] True whole_part show ?thesis
        by (simp add: fmt_tps_def v whole kilo sign_text_def)
    next
      case False
      have thousand: "fp_of_nat 1000 = Fin False 1000" by code_simp
      have "f64_round False (q / 1000) = Fin False (fl (q / 1000))"
        using False q by (intro f64_round_normal) simp_all
      moreover have "fl (q / 1000) \<le> of_nat 1000" using q by (intro fl_le_nat) simp_all
      then have "round_even (fl (q / 1000)) \<le> int 1000" by (intro round_even_le_int) simp
      from fixed_whole[OF this, of 4] have "length (fmt_fixed 0 (fl (q / 1000))) \<le> 4" by simp
      ultimately show ?thesis using False whole_part
        by (simp add: fmt_tps_def v whole kilo thousand sign_text_def)
    qed
  qed
  then show ?thesis by (simp add: marked_speed_def)
qed

theorem speed_fits_column_witness:
  "length (marked_speed True (Fin False 1000000)) \<le> 6 \<and> marked_speed True (Fin False 1000000) = ''~1000k''"
proof -
  have "usable_speed (Fin False 1000000) = Some (Fin False 1000000)" "fl 1000000 = 1000000" by code_simp+
  note fits = speed_fits_column[OF this, of True]
  moreover have "fp_div (Fin False 1000000) (fp_of_nat 1000) = Fin False 1000" by code_simp
  moreover have "\<not> fp_less (Fin False 1000000) WHOLE_FROM" "\<not> fp_less (Fin False 1000000) KILO_FROM"
    by code_simp+
  moreover have "fmt_fixed 0 1000 = show_nat 1000" by (simp add: fmt_fixed_def round_even_def)
  moreover have "show_nat 1000 = ''1000''" by code_simp
  ultimately show ?thesis by (simp add: marked_speed_def fmt_tps_def sign_text_def)
qed

end
