(* ===== verification/Split_Gguf.thy ===== *)
theory Split_Gguf
  imports Paths Stable_Sort "HOL-Library.Code_Target_Numeral"
begin

text \<open>
  Split models: \<open>src/discovery/split_gguf.rs\<close>. A model too large for one file comes as shards named
  \<open>base-NNNNN-of-MMMMM.gguf\<close>, and discovery shows the set as one entry. Shown: grouping keeps every
  file, the entry point is the first shard whenever it is there, and a set of distinct files is
  complete exactly when every shard of it is present. Names are UTF-8 text.
\<close>

definition u32_max :: nat where
  "u32_max = 2 ^ 32 - 1"

record shard_info =
  si_base :: string
  si_index :: nat
  si_count :: nat

text \<open>
  The pattern \<open>^(.+)-(\d{5})-of-(\d{5})\.gguf$\<close> fixes the last twenty characters; what is before them
  is the base, a line of at least one character. A digit that is not ASCII passes the pattern and then
  fails to parse, so only ASCII digits are left.
\<close>

definition shard_tail :: "string \<Rightarrow> (string \<times> string) option" where
  "shard_tail s =
     (if take 1 s = ''-'' \<and> list_all is_digit (take 5 (drop 1 s)) \<and> take 4 (drop 6 s) = ''-of-''
         \<and> list_all is_digit (take 5 (drop 10 s)) \<and> drop 15 s = ''.gguf''
      then Some (take 5 (drop 1 s), take 5 (drop 10 s)) else None)"

definition parse_shard_name :: "string \<Rightarrow> shard_info option" where
  "parse_shard_name name =
     (let base = take (length name - 20) name
      in if base = [] \<or> CHR 10 \<in> set base then None
         else (case shard_tail (drop (length name - 20) name) of
                 None \<Rightarrow> None
               | Some (i, n) \<Rightarrow>
                   (case (parse_unsigned u32_max i, parse_unsigned u32_max n) of
                      (Some idx, Some cnt) \<Rightarrow>
                        if idx = 0 \<or> cnt = 0 then None
                        else Some \<lparr>si_base = base, si_index = idx, si_count = cnt\<rparr>
                    | _ \<Rightarrow> None)))"

definition collapsed_file_name :: "string \<Rightarrow> string option" where
  "collapsed_file_name file_name = map_option (\<lambda>s. si_base s @ ''.gguf'') (parse_shard_name file_name)"

record split_group =
  sg_base :: string
  sg_count :: nat
  sg_shards :: "string list"
  sg_launch_path :: string
  sg_complete :: bool

datatype discovered_entry = Single string | Split split_group

subsection \<open>Grouping\<close>

text \<open>
  The buckets are an association list: a \<open>BTreeMap\<close> walks its keys in another order, which the final
  sort by first position, different for every entry, undoes.
\<close>

type_synonym bucket_key = "string \<times> string \<times> nat"
type_synonym bucket = "nat \<times> (nat \<times> string) list"

record grouping =
  gr_singles :: "(nat \<times> string) list"
  gr_buckets :: "(bucket_key \<times> bucket) list"

fun bucket_push :: "bucket_key \<Rightarrow> nat \<Rightarrow> nat \<times> string \<Rightarrow> (bucket_key \<times> bucket) list
    \<Rightarrow> (bucket_key \<times> bucket) list" where
  "bucket_push k ord sh [] = [(k, (ord, [sh]))]"
| "bucket_push k ord sh ((k', (first, shs)) # bs) =
     (if k' = k then (k', (min first ord, shs @ [sh])) # bs
      else (k', (first, shs)) # bucket_push k ord sh bs)"

definition shard_of :: "string \<Rightarrow> shard_info option" where
  "shard_of path = Option.bind (path_file_name path) parse_shard_name"

definition parent_or_empty :: "string \<Rightarrow> string" where
  "parent_or_empty path = (case path_parent path of Some p \<Rightarrow> p | None \<Rightarrow> [])"

definition shard_key :: "string \<Rightarrow> shard_info \<Rightarrow> bucket_key" where
  "shard_key path info = (parent_or_empty path, si_base info, si_count info)"

definition group_path :: "grouping \<Rightarrow> nat \<times> string \<Rightarrow> grouping" where
  "group_path g op =
     (case op of (ord, path) \<Rightarrow>
        (case shard_of path of
           None \<Rightarrow> g\<lparr>gr_singles := gr_singles g @ [(ord, path)]\<rparr>
         | Some info \<Rightarrow>
             g\<lparr>gr_buckets := bucket_push (shard_key path info) ord (si_index info, path) (gr_buckets g)\<rparr>))"

definition by_index :: "nat \<times> 'a \<Rightarrow> nat \<times> 'a \<Rightarrow> ordering" where
  "by_index a b = compare_nat (fst a) (fst b)"

definition launch_shard :: "(nat \<times> string) list \<Rightarrow> string" where
  "launch_shard shards =
     (case List.find (\<lambda>s. fst s = 1) shards of Some s \<Rightarrow> snd s | None \<Rightarrow> snd (hd shards))"

definition shards_complete :: "nat \<Rightarrow> (nat \<times> string) list \<Rightarrow> bool" where
  "shards_complete cnt shards \<longleftrightarrow>
     length shards mod 2 ^ 32 = cnt
     \<and> (shards \<noteq> [] \<and> fst (hd shards) = 1) \<and> (shards \<noteq> [] \<and> fst (List.last shards) = cnt)"

definition bucket_entry :: "bucket_key \<times> bucket \<Rightarrow> nat \<times> discovered_entry" where
  "bucket_entry b =
     (case b of ((parent, base, cnt), (first, shards)) \<Rightarrow>
        if length shards = 1 then (first, Single (snd (hd shards)))
        else let shards = sort_by by_index shards
             in (first, Split
                   \<lparr>sg_base = base, sg_count = cnt, sg_shards = map snd shards,
                    sg_launch_path = launch_shard shards, sg_complete = shards_complete cnt shards\<rparr>))"

definition group_paths :: "string list \<Rightarrow> grouping" where
  "group_paths paths = foldl group_path \<lparr>gr_singles = [], gr_buckets = []\<rparr> (enumerate 0 paths)"

definition group_shards :: "string list \<Rightarrow> discovered_entry list" where
  "group_shards paths =
     (let g = group_paths paths
      in map snd (sort_by by_index
           (map bucket_entry (gr_buckets g) @ map (\<lambda>(ord, p). (ord, Single p)) (gr_singles g))))"

subsection \<open>No file is lost\<close>

fun entry_paths :: "discovered_entry \<Rightarrow> string list" where
  "entry_paths (Single p) = [p]"
| "entry_paths (Split g) = sg_shards g"

definition bucket_paths :: "(bucket_key \<times> bucket) list \<Rightarrow> string multiset" where
  "bucket_paths bs = (\<Sum>b \<in># mset bs. mset (map snd (snd (snd b))))"

lemma bucket_paths_simps [simp]:
  "bucket_paths [] = {#}" "bucket_paths (b # bs) = mset (map snd (snd (snd b))) + bucket_paths bs"
  by (simp_all add: bucket_paths_def)

lemma bucket_paths_push [simp]: "bucket_paths (bucket_push k ord sh bs) = add_mset (snd sh) (bucket_paths bs)"
  by (induction k ord sh bs rule: bucket_push.induct) auto

definition grouping_paths :: "grouping \<Rightarrow> string multiset" where
  "grouping_paths g = mset (map snd (gr_singles g)) + bucket_paths (gr_buckets g)"

lemma grouping_paths_step: "grouping_paths (group_path g op) = add_mset (snd op) (grouping_paths g)"
  by (cases op) (simp add: group_path_def grouping_paths_def split: option.splits)

lemma grouping_paths_fold: "grouping_paths (foldl group_path g ops) = grouping_paths g + mset (map snd ops)"
  by (induction ops arbitrary: g) (simp_all add: grouping_paths_step)

lemma grouping_paths_all: "grouping_paths (group_paths paths) = mset paths"
  by (simp add: group_paths_def grouping_paths_fold) (simp add: grouping_paths_def)

lemma paths_of_bucket_entry:
  assumes "snd (snd b) \<noteq> []"
  shows "mset (entry_paths (snd (bucket_entry b))) = mset (map snd (snd (snd b)))"
proof -
  obtain parent base cnt first shards where b: "b = ((parent, base, cnt), (first, shards))" by (metis prod.exhaust)
  show ?thesis
  proof (cases "length shards = 1")
    case True
    then obtain x where "shards = [x]" by (metis One_nat_def length_0_conv length_Suc_conv)
    then show ?thesis by (simp add: b bucket_entry_def)
  next
    case False
    then show ?thesis by (simp add: b bucket_entry_def Let_def mset_map[symmetric] del: mset_map) (simp add: mset_map)
  qed
qed

subsection \<open>What a bucket holds\<close>

definition shard_in :: "bucket_key \<Rightarrow> nat \<times> string \<Rightarrow> bool" where
  "shard_in k sh \<longleftrightarrow> (\<exists>info. shard_of (snd sh) = Some info \<and> shard_key (snd sh) info = k \<and> si_index info = fst sh)"

definition bucket_ok :: "bucket_key \<times> bucket \<Rightarrow> bool" where
  "bucket_ok b \<longleftrightarrow> snd (snd b) \<noteq> [] \<and> (\<forall>sh \<in> set (snd (snd b)). shard_in (fst b) sh)"

lemma bucket_ok_push:
  assumes "list_all bucket_ok bs" "shard_in k sh"
  shows "list_all bucket_ok (bucket_push k ord sh bs)"
  using assms by (induction k ord sh bs rule: bucket_push.induct) (auto simp: bucket_ok_def)

lemma buckets_ok_fold:
  "list_all bucket_ok (gr_buckets g) \<Longrightarrow> list_all bucket_ok (gr_buckets (foldl group_path g ops))"
proof (induction ops arbitrary: g)
  case (Cons op ops)
  obtain ord path where op: "op = (ord, path)" by (cases op)
  have "list_all bucket_ok (gr_buckets (group_path g op))"
    using Cons.prems
    by (auto simp: op group_path_def shard_in_def intro: bucket_ok_push split: option.split)
  then show ?case by (simp add: Cons.IH)
qed simp

lemma buckets_ok: "list_all bucket_ok (gr_buckets (group_paths paths))"
  by (simp add: group_paths_def buckets_ok_fold)

lemma sum_entry_paths:
  "list_all bucket_ok bs \<Longrightarrow>
     mset (concat (map (entry_paths \<circ> snd) (map bucket_entry bs))) = bucket_paths bs"
  by (induction bs) (simp_all add: paths_of_bucket_entry bucket_ok_def)

lemma mset_concat_map_sort: "mset (concat (map f (sort_by cmp xs))) = mset (concat (map f xs))"
proof -
  have "mset (concat (map f ys)) = (\<Sum>x \<in># mset ys. mset (f x))" for ys by (induction ys) simp_all
  then show ?thesis by simp
qed

lemma singles_paths: "concat (map (entry_paths \<circ> snd) (map (\<lambda>(ord, p). (ord, Single p)) ss)) = map snd ss"
  by (induction ss) auto

text \<open>
  Grouping neither loses a file nor invents one: the files of the entries are the files given,
  each as often as it was given.
\<close>

theorem group_keeps_paths: "mset (concat (map entry_paths (group_shards paths))) = mset paths"
proof -
  let ?g = "group_paths paths"
  let ?es = "map bucket_entry (gr_buckets ?g) @ map (\<lambda>(ord, p). (ord, Single p)) (gr_singles ?g)"
  have "concat (map entry_paths (group_shards paths)) = concat (map (entry_paths \<circ> snd) (sort_by by_index ?es))"
    by (simp add: group_shards_def Let_def)
  also have "mset \<dots> = mset (concat (map (entry_paths \<circ> snd) ?es))" by (rule mset_concat_map_sort)
  also have "\<dots> = bucket_paths (gr_buckets ?g) + mset (map snd (gr_singles ?g))"
    by (simp only: map_append concat_append mset_append sum_entry_paths[OF buckets_ok] singles_paths)
  also have "\<dots> = mset paths" using grouping_paths_all[of paths] by (simp add: grouping_paths_def add.commute)
  finally show ?thesis .
qed

subsection \<open>Sets of shards\<close>

interpretation by_index: total_preorder by_index
  by unfold_locales (auto simp: by_index_def compare_nat_def split: if_splits)

lemma split_from_bucket:
  assumes "Split g \<in> set (group_shards paths)"
  obtains parent shards first where
    "((parent, sg_base g, sg_count g), (first, shards)) \<in> set (gr_buckets (group_paths paths))"
    "sg_shards g = map snd (sort_by by_index shards)"
    "sg_launch_path g = launch_shard (sort_by by_index shards)"
    "sg_complete g = shards_complete (sg_count g) (sort_by by_index shards)"
proof -
  from assms obtain b where b: "b \<in> set (gr_buckets (group_paths paths))" "Split g = snd (bucket_entry b)"
    by (auto simp: group_shards_def Let_def)
  obtain parent base cnt first shards where bb: "b = ((parent, base, cnt), (first, shards))" by (metis prod.exhaust)
  with b(2) have g: "Split g = snd (bucket_entry ((parent, base, cnt), (first, shards)))" by simp
  have "length shards \<noteq> 1" using g by (auto simp: bucket_entry_def)
  with g have "g = \<lparr>sg_base = base, sg_count = cnt, sg_shards = map snd (sort_by by_index shards),
      sg_launch_path = launch_shard (sort_by by_index shards),
      sg_complete = shards_complete cnt (sort_by by_index shards)\<rparr>"
    by (simp add: bucket_entry_def Let_def)
  with that[of parent first shards] b(1) bb show thesis by simp
qed

definition shard_index :: "string \<Rightarrow> nat" where
  "shard_index path = (case shard_of path of Some info \<Rightarrow> si_index info | None \<Rightarrow> 0)"

lemma shard_in_index: "shard_in k sh \<Longrightarrow> shard_index (snd sh) = fst sh"
  by (auto simp: shard_in_def shard_index_def)

lemma bucket_indices:
  assumes "(k, (first, shards)) \<in> set (gr_buckets (group_paths paths))"
  shows "map shard_index (map snd (sort_by by_index shards)) = map fst (sort_by by_index shards)"
proof -
  have "bucket_ok (k, (first, shards))" using assms buckets_ok[of paths] by (auto simp: list_all_iff)
  then have "\<forall>sh \<in> set shards. shard_index (snd sh) = fst sh" by (auto simp: bucket_ok_def dest: shard_in_index)
  then show ?thesis by simp
qed

text \<open>
  The entry point of a set is one of its shards, and it is the first shard whenever the set has it.
\<close>

theorem launch_path_is_first_shard:
  assumes "Split g \<in> set (group_shards paths)"
  shows "sg_launch_path g \<in> set (sg_shards g)
    \<and> shard_index (sg_launch_path g) = Min (set (map shard_index (sg_shards g)))"
proof -
  from assms obtain parent shards first where b:
    "((parent, sg_base g, sg_count g), (first, shards)) \<in> set (gr_buckets (group_paths paths))"
    "sg_shards g = map snd (sort_by by_index shards)"
    "sg_launch_path g = launch_shard (sort_by by_index shards)"
    by (rule split_from_bucket)
  let ?s = "sort_by by_index shards"
  have ok: "shards \<noteq> []" "\<forall>sh \<in> set ?s. shard_in (parent, sg_base g, sg_count g) sh"
    using b(1) buckets_ok[of paths] by (auto simp: list_all_iff bucket_ok_def)
  then have ne: "?s \<noteq> []" by (metis set_empty set_sort_by)
  have pos: "1 \<le> fst sh" if "sh \<in> set ?s" for sh
  proof -
    from ok(2) that obtain info where "shard_of (snd sh) = Some info" "si_index info = fst sh"
      by (auto simp: shard_in_def)
    then show ?thesis
      by (auto simp: shard_of_def parse_shard_name_def Let_def split: if_splits option.splits bind_splits)
  qed
  have least: "fst (hd ?s) \<le> fst sh" if "sh \<in> set ?s" for sh
  proof -
    have "sorted_wrt (\<lambda>a b. by_index a b \<noteq> Greater) ?s" by (rule by_index.sorted_sort_by)
    then show ?thesis using that by (cases ?s) (auto simp: by_index_def not_less)
  qed
  obtain sh where sh: "sh \<in> set ?s" "launch_shard ?s = snd sh" "\<forall>x \<in> set ?s. fst sh \<le> fst x"
  proof (cases "List.find (\<lambda>s. fst s = 1) ?s")
    case None
    moreover have "hd ?s \<in> set ?s" using ne by (rule hd_in_set)
    ultimately show thesis using that[of "hd ?s"] least by (simp add: launch_shard_def del: set_sort_by)
  next
    case (Some x)
    then have "x \<in> set ?s" "fst x = 1" by (auto simp: find_Some_iff simp del: set_sort_by intro: nth_mem)
    then show thesis using that[of x] pos Some by (simp add: launch_shard_def)
  qed
  have "set (map shard_index (sg_shards g)) = fst ` set ?s"
    using bucket_indices[OF b(1)] b(2) by (metis list.set_map)
  moreover have "shard_index (snd sh) = fst sh" using ok(2) sh(1) by (auto intro: shard_in_index)
  moreover have "Min (fst ` set ?s) = fst sh" using sh(1,3) by (intro Min_eqI) auto
  ultimately show ?thesis using b(2,3) sh by auto
qed

text \<open>A strictly rising list that starts at one and ends at its length is that whole range.\<close>

lemma rising_lower:
  assumes "sorted_wrt (<) (x # xs)"
  shows "(x::nat) + length xs \<le> List.last (x # xs)"
  using assms
proof (induction xs arbitrary: x)
  case (Cons y ys)
  then have "y + length ys \<le> List.last (y # ys)" "x < y" by simp_all
  then show ?case by simp
qed simp

lemma rising_range:
  assumes "sorted_wrt (<) (x # xs)" "List.last (x # xs) = (x::nat) + length xs"
  shows "x # xs = [x..<Suc (x + length xs)]"
  using assms
proof (induction xs arbitrary: x)
  case (Cons y ys)
  then have r: "sorted_wrt (<) (y # ys)" "x < y" "List.last (y # ys) = x + Suc (length ys)" by simp_all
  with rising_lower[OF r(1)] have y: "y = Suc x" by simp
  with Cons.IH[OF r(1)] r(3) have "y # ys = [y..<Suc (y + length ys)]" by simp
  moreover have "[x..<Suc (x + length (y # ys))] = x # [y..<Suc (y + length ys)]" using y by (subst upt_conv_Cons) simp_all
  ultimately show ?case by (simp only:)
qed simp

lemma shards_complete_iff:
  assumes "distinct (map fst shards)" "shards \<noteq> []" "length shards < 2 ^ 32"
  shows "shards_complete cnt (sort_by by_index shards)
    \<longleftrightarrow> map fst (sort_by by_index shards) = [1..<Suc cnt]"
proof -
  define js where "js = map fst (sort_by by_index shards)"
  have "sorted_wrt (\<lambda>a b. by_index a b \<noteq> Greater) (sort_by by_index shards)" by (rule by_index.sorted_sort_by)
  then have "sorted js" by (simp add: js_def sorted_wrt_map by_index_def not_less)
  moreover have "distinct js"
    using assms(1) mset_eq_imp_distinct_iff[of js "map fst shards"] by (simp add: js_def)
  ultimately have rise: "sorted_wrt (<) js" by (simp add: strict_sorted_iff)
  have len: "length js = length shards" by (simp add: js_def)
  obtain x xs where xs: "js = x # xs" using assms(2) len by (cases js) auto
  have ne: "sort_by by_index shards \<noteq> []" using xs by (auto simp: js_def)
  have ends: "fst (hd (sort_by by_index shards)) = x" "fst (List.last (sort_by by_index shards)) = List.last js"
    using hd_map[OF ne, of fst] last_map[OF ne, of fst] xs by (simp_all add: js_def)
  have "shards_complete cnt (sort_by by_index shards) \<longleftrightarrow> Suc (length xs) = cnt \<and> x = 1 \<and> List.last js = cnt"
    using assms(3) ne len xs by (simp add: shards_complete_def ends)
  also have "\<dots> \<longleftrightarrow> js = [1..<Suc cnt]"
  proof
    assume c: "Suc (length xs) = cnt \<and> x = 1 \<and> List.last js = cnt"
    then have "List.last (x # xs) = x + length xs" using xs by auto
    then have "x # xs = [x..<Suc (x + length xs)]" using rising_range[of x xs] rise by (simp only: xs)
    moreover have "Suc (x + length xs) = Suc cnt" using c by simp
    ultimately show "js = [1..<Suc cnt]" using c xs by (simp only:)
  next
    assume u: "js = [1..<Suc cnt]"
    have "length js = cnt" using u by (simp only: length_upt diff_Suc_1)
    moreover from this xs have "0 < cnt" by auto
    moreover from this have "js = [1..<cnt] @ [cnt]" using u by simp
    moreover from \<open>0 < cnt\<close> have "js = 1 # [Suc 1..<Suc cnt]" using u by (simp only: upt_conv_Cons)
    ultimately show "Suc (length xs) = cnt \<and> x = 1 \<and> List.last js = cnt" using xs by (metis last_snoc length_Cons list.inject)
  qed
  finally show ?thesis by (simp add: js_def)
qed

subsection \<open>Names and numbers\<close>

lemma digit_val_Some: "digit_val c = Some v \<Longrightarrow> of_char c = 48 + v \<and> v < 10"
  by (auto simp: digit_val_def Let_def split: if_splits)

lemma digit_val_inject: "digit_val c = Some v \<Longrightarrow> digit_val d = Some v \<Longrightarrow> c = d"
  by (metis digit_val_Some char_of_char)

lemma parse_digits_snoc:
  assumes "parse_digits m a (s @ [c]) = Some n"
  shows "\<exists>k v. parse_digits m a s = Some k \<and> digit_val c = Some v \<and> n = k * 10 + v"
proof (cases "parse_digits m a s")
  case None
  then show ?thesis using assms by (simp add: parse_digits_append)
next
  case (Some k)
  then show ?thesis using assms
    by (cases "digit_val c") (auto simp: parse_digits_append split: if_splits)
qed

lemma parse_digits_inject:
  assumes "length s = length t" "parse_digits m a s = Some n" "parse_digits m b t = Some n"
  shows "a = b \<and> s = t"
  using assms
proof (induction s arbitrary: t n rule: rev_induct)
  case (snoc c s)
  then obtain t' d where t: "t = t' @ [d]" "length s = length t'" by (cases t rule: rev_cases) auto
  from parse_digits_snoc[OF snoc.prems(2)]
  obtain k v where k: "parse_digits m a s = Some k" "digit_val c = Some v" "n = k * 10 + v" by blast
  from parse_digits_snoc[of m b t' d n] snoc.prems(3) t(1)
  obtain k' v' where k': "parse_digits m b t' = Some k'" "digit_val d = Some v'" "n = k' * 10 + v'" by blast
  have "v < 10" "v' < 10" using digit_val_Some[OF k(2)] digit_val_Some[OF k'(2)] by simp_all
  moreover from this have "k = k'" using k(3) k'(3) by linarith
  ultimately have "k = k'" "v = v'" using k(3) k'(3) by simp_all
  moreover have "a = b \<and> s = t'" using snoc.IH[OF t(2) k(1)] k'(1) \<open>k = k'\<close> by simp
  ultimately show ?case using k(2) k'(2) t(1) by (auto dest: digit_val_inject)
qed simp

lemma parse_unsigned_digits:
  assumes "list_all is_digit s" "s \<noteq> []"
  shows "parse_unsigned m s = parse_digits m 0 s"
proof -
  obtain c cs where "s = c # cs" using assms(2) by (cases s) auto
  moreover have "c \<noteq> CHR ''+''" using assms(1) calculation by (auto simp: is_digit_def)
  ultimately have "(case s of CHR ''+'' # cs \<Rightarrow> cs | _ \<Rightarrow> s) = s" by (auto split: char.split bool.split)
  then show ?thesis using assms(2) by (simp add: parse_unsigned_def)
qed

definition shard_parts :: "string \<Rightarrow> shard_info \<Rightarrow> string \<Rightarrow> string \<Rightarrow> bool" where
  "shard_parts nm info i n \<longleftrightarrow>
     nm = si_base info @ ''-'' @ i @ ''-of-'' @ n @ ''.gguf'' \<and> length i = 5 \<and> length n = 5
     \<and> parse_digits u32_max 0 i = Some (si_index info) \<and> parse_digits u32_max 0 n = Some (si_count info)"

lemma shard_tail_Some:
  assumes "shard_tail s = Some (i, n)" "length s = 20"
  shows "s = ''-'' @ i @ ''-of-'' @ n @ ''.gguf'' \<and> length i = 5 \<and> length n = 5 \<and> list_all is_digit i \<and> list_all is_digit n"
proof -
  have d: "drop k s = take j (drop k s) @ drop (j + k) s" for j k by (metis append_take_drop_id drop_drop)
  have "s = take 1 s @ take 5 (drop 1 s) @ take 4 (drop 6 s) @ take 5 (drop 10 s) @ drop 15 s"
    using d[where k = 0 and j = 1] d[where k = 1 and j = 5] d[where k = 6 and j = 4] d[where k = 10 and j = 5] by simp
  moreover have "take 1 s = ''-''" "take 4 (drop 6 s) = ''-of-''" "drop 15 s = ''.gguf''"
    "i = take 5 (drop 1 s)" "n = take 5 (drop 10 s)" "list_all is_digit i" "list_all is_digit n"
    using assms(1) by (auto simp: shard_tail_def split: if_splits)
  ultimately show ?thesis using assms(2) by simp
qed

lemma parse_shard_name_parts:
  assumes "parse_shard_name nm = Some info"
  shows "\<exists>i n. shard_parts nm info i n"
proof -
  define tl20 where "tl20 = drop (length nm - 20) nm"
  from assms obtain i n where t: "shard_tail tl20 = Some (i, n)"
      "si_base info = take (length nm - 20) nm" "si_base info \<noteq> []"
    and p: "parse_unsigned u32_max i = Some (si_index info)" "parse_unsigned u32_max n = Some (si_count info)"
    by (auto simp: parse_shard_name_def Let_def tl20_def split: if_splits option.splits)
  have "length tl20 = 20" using t(2,3) by (auto simp: tl20_def)
  note q = shard_tail_Some[OF t(1) this]
  have "nm = si_base info @ tl20" by (simp add: t(2) tl20_def)
  moreover have "i \<noteq> []" "n \<noteq> []" using q by auto
  ultimately have "shard_parts nm info i n"
    using q p parse_unsigned_digits[of i] parse_unsigned_digits[of n] by (simp add: shard_parts_def)
  then show ?thesis by blast
qed

lemma parse_shard_name_inject:
  assumes "parse_shard_name a = Some info" "parse_shard_name b = Some info"
  shows "a = b"
proof -
  from parse_shard_name_parts[OF assms(1)] obtain i n where a: "shard_parts a info i n" by blast
  from parse_shard_name_parts[OF assms(2)] obtain i' n' where b: "shard_parts b info i' n'" by blast
  have "i = i'" "n = n'" using a b parse_digits_inject unfolding shard_parts_def by metis+
  then show ?thesis using a b by (simp add: shard_parts_def)
qed

subsection \<open>A complete set\<close>

lemma bucket_submset:
  "(k, (first, shards)) \<in> set bs \<Longrightarrow> mset (map snd shards) \<subseteq># bucket_paths bs"
  by (induction bs) (auto simp: subset_mset.le_iff_add intro: subset_mset.add_increasing)

definition file_of :: "string \<Rightarrow> string option \<times> string option" where
  "file_of path = (path_parent path, path_file_name path)"

lemma path_parent_of_file: "path_file_name p = Some n \<Longrightarrow> path_parent p \<noteq> None"
  by (auto simp: path_file_name_def path_parent_def split: list.splits component.splits)

lemma distinct_coarser:
  assumes "distinct (map f xs)" "\<And>a b. a \<in> set xs \<Longrightarrow> b \<in> set xs \<Longrightarrow> g a = g b \<Longrightarrow> f a = f b"
  shows "distinct (map g xs)"
proof -
  have "inj_on g (set xs)"
  proof (rule inj_onI)
    fix a b assume ab: "a \<in> set xs" "b \<in> set xs" "g a = g b"
    from inj_onD[OF _ assms(2)[OF ab] ab(1,2)] assms(1) show "a = b" by (simp add: distinct_map)
  qed
  then show ?thesis using assms(1) by (simp add: distinct_map)
qed

lemma bucket_distinct:
  assumes "(k, (first, shards)) \<in> set (gr_buckets (group_paths paths))" "distinct (map file_of paths)"
  shows "distinct (map fst shards) \<and> length shards \<le> length paths"
proof
  have ok: "\<forall>sh \<in> set shards. shard_in k sh"
    using assms(1) buckets_ok[of paths] by (auto simp: list_all_iff bucket_ok_def)
  have "mset (map snd shards) \<subseteq># mset paths"
    using bucket_submset[OF assms(1)] grouping_paths_all[of paths]
    by (metis grouping_paths_def mset_subset_eq_add_right subset_mset.trans)
  from image_mset_subseteq_mono[OF this, of file_of] size_mset_mono[OF this]
  have sub: "mset (map file_of (map snd shards)) \<subseteq># mset (map file_of paths)" and len: "length shards \<le> length paths"
    by (simp_all add: image_mset.compositionality)
  show "length shards \<le> length paths" by (rule len)
  from sub obtain rest where "mset (map file_of paths) = mset (map file_of (map snd shards) @ rest)"
    by (metis ex_mset mset_append subset_mset.le_iff_add)
  from mset_eq_imp_distinct_iff[OF this] assms(2) have "distinct (map file_of (map snd shards) @ rest)" by blast
  then have once: "distinct (map (\<lambda>sh. file_of (snd sh)) shards)" by (simp add: comp_def)
  have same: "file_of (snd a) = file_of (snd b)" if "a \<in> set shards" "b \<in> set shards" "fst a = fst b" for a b
  proof -
    from ok that have "shard_in k a" "shard_in k b" by blast+
    then obtain ia ib where i: "shard_of (snd a) = Some ia" "shard_of (snd b) = Some ib"
      "shard_key (snd a) ia = k" "shard_key (snd b) ib = k" "si_index ia = si_index ib"
      unfolding shard_in_def using \<open>fst a = fst b\<close> by metis
    then have "si_base ia = si_base ib" "si_count ia = si_count ib" by (auto simp: shard_key_def)
    with i(5) have "ia = ib" by (cases ia, cases ib) simp
    moreover obtain na nb where n: "path_file_name (snd a) = Some na" "path_file_name (snd b) = Some nb"
      "parse_shard_name na = Some ia" "parse_shard_name nb = Some ib"
      using i(1,2) by (auto simp: shard_of_def split: bind_splits)
    ultimately have "na = nb" by (auto intro: parse_shard_name_inject)
    moreover have "parent_or_empty (snd a) = parent_or_empty (snd b)" using i(3,4) by (auto simp: shard_key_def)
    ultimately show ?thesis
      using n path_parent_of_file[OF n(1)] path_parent_of_file[OF n(2)]
      by (auto simp: file_of_def parent_or_empty_def split: option.splits)
  qed
  show "distinct (map fst shards)" by (rule distinct_coarser[OF once same])
qed

text \<open>
  For different files, a set is marked complete exactly when its shards, in order, are numbered
  one to the count their names give.
\<close>

theorem complete_means_all_shards:
  assumes "distinct (map file_of paths)" "length paths < 2 ^ 32" "Split g \<in> set (group_shards paths)"
  shows "sg_complete g \<longleftrightarrow> map shard_index (sg_shards g) = [1..<Suc (sg_count g)]"
proof -
  from assms(3) obtain parent shards first where b:
    "((parent, sg_base g, sg_count g), (first, shards)) \<in> set (gr_buckets (group_paths paths))"
    "sg_shards g = map snd (sort_by by_index shards)"
    "sg_complete g = shards_complete (sg_count g) (sort_by by_index shards)"
    by (rule split_from_bucket)
  have "shards \<noteq> []" using b(1) buckets_ok[of paths] by (auto simp: list_all_iff bucket_ok_def)
  moreover have "distinct (map fst shards)" "length shards < 2 ^ 32"
    using bucket_distinct[OF b(1) assms(1)] assms(2) by simp_all
  ultimately have "shards_complete (sg_count g) (sort_by by_index shards)
      \<longleftrightarrow> map fst (sort_by by_index shards) = [1..<Suc (sg_count g)]"
    by (intro shards_complete_iff)
  then show ?thesis by (simp only: b(2,3) bucket_indices[OF b(1)])
qed

definition two_shards :: "string list" where
  "two_shards = [''/m/x-00002-of-00002.gguf'', ''/m/y.gguf'', ''/m/x-00001-of-00002.gguf'']"

theorem complete_means_all_shards_witness:
  "(let g = \<lparr>sg_base = ''x'', sg_count = 2, sg_shards = [''/m/x-00001-of-00002.gguf'', ''/m/x-00002-of-00002.gguf''],
              sg_launch_path = ''/m/x-00001-of-00002.gguf'', sg_complete = True\<rparr>
    in Split g \<in> set (group_shards two_shards)
       \<and> (sg_complete g \<longleftrightarrow> map shard_index (sg_shards g) = [1..<Suc (sg_count g)]))"
proof -
  have "distinct (map file_of two_shards)" by code_simp
  moreover have "length two_shards < 2 ^ 32" by (simp add: two_shards_def)
  moreover have "Split \<lparr>sg_base = ''x'', sg_count = 2, sg_shards = [''/m/x-00001-of-00002.gguf'', ''/m/x-00002-of-00002.gguf''],
              sg_launch_path = ''/m/x-00001-of-00002.gguf'', sg_complete = True\<rparr> \<in> set (group_shards two_shards)"
    by code_simp
  ultimately show ?thesis using complete_means_all_shards[of two_shards] by (simp only: Let_def simp_thms)
qed

theorem launch_path_is_first_shard_witness:
  "(let g = \<lparr>sg_base = ''x'', sg_count = 2, sg_shards = [''/m/x-00001-of-00002.gguf'', ''/m/x-00002-of-00002.gguf''],
              sg_launch_path = ''/m/x-00001-of-00002.gguf'', sg_complete = True\<rparr>
    in shard_index (sg_launch_path g) = Min (set (map shard_index (sg_shards g))))"
proof -
  have "Split \<lparr>sg_base = ''x'', sg_count = 2, sg_shards = [''/m/x-00001-of-00002.gguf'', ''/m/x-00002-of-00002.gguf''],
              sg_launch_path = ''/m/x-00001-of-00002.gguf'', sg_complete = True\<rparr> \<in> set (group_shards two_shards)"
    by code_simp
  from conjunct2[OF launch_path_is_first_shard[OF this]] show ?thesis by (simp only: Let_def)
qed

subsection \<open>Where the comments differ\<close>

text \<open>A file given twice makes a set with a gap look complete.\<close>

lemma repeated_shard_hides_gap:
  "map_option (\<lambda>e. case e of Split g \<Rightarrow> (sg_complete g, map shard_index (sg_shards g)) | Single _ \<Rightarrow> (False, []))
     (List.find (\<lambda>_. True)
       (group_shards [''/m/x-00001-of-00003.gguf'', ''/m/x-00001-of-00003.gguf'', ''/m/x-00003-of-00003.gguf'']))
   = Some (True, [1, 1, 3])"
  by code_simp

text \<open>A set is placed where its first file was seen, not where its first shard was.\<close>

lemma set_placed_at_first_seen:
  "map (\<lambda>e. case e of Split _ \<Rightarrow> True | Single _ \<Rightarrow> False) (group_shards two_shards) = [True, False]"
  by code_simp

end
