(* ===== verification/Model_Ids.thy ===== *)
theory Model_Ids
  imports Split_Gguf
begin

text \<open>
  The names a model is shown and addressed by: the labels of \<open>src/util/paths.rs\<close> and the index of
  published ids. A path is its UTF-8 text, in the spelling \<open>Paths\<close> gives. Shown: the published ids
  of a catalog are pairwise different, each is a form of its own model or its path, and the shortest
  form no other model claims is the one taken.
\<close>

subsection \<open>Pieces of text\<close>

text \<open>\<open>str::split_once\<close> and \<open>str::find\<close> with a string: the first place it occurs.\<close>

fun split_text :: "string \<Rightarrow> string \<Rightarrow> (string \<times> string) option" where
  "split_text sep [] = (if sep = [] then Some ([], []) else None)"
| "split_text sep (c # cs) =
     (if starts_with (c # cs) sep then Some ([], drop (length sep) (c # cs))
      else map_option (\<lambda>(a, b). (c # a, b)) (split_text sep cs))"

definition after_first :: "string \<Rightarrow> string \<Rightarrow> string option" where
  "after_first marker s = map_option snd (split_text marker s)"

definition strip_prefix :: "string \<Rightarrow> string \<Rightarrow> string option" where
  "strip_prefix p s = (if starts_with s p then Some (drop (length p) s) else None)"

fun find_map :: "('a \<Rightarrow> 'b option) \<Rightarrow> 'a list \<Rightarrow> 'b option" where
  "find_map f [] = None"
| "find_map f (x # xs) = (case f x of Some y \<Rightarrow> Some y | None \<Rightarrow> find_map f xs)"

definition slash_parts :: "string \<Rightarrow> string list" where
  "slash_parts s = filter (\<lambda>p. p \<noteq> []) (split_on (CHR ''/'') s)"

definition part_or_empty :: "nat \<Rightarrow> string list \<Rightarrow> string" where
  "part_or_empty i ps = (if i < length ps then ps ! i else [])"

subsection \<open>Labels\<close>

definition model_file_label :: "string \<Rightarrow> string" where
  "model_file_label path =
     (case path_file_name path of
        None \<Rightarrow> path
      | Some file_name \<Rightarrow>
          (case collapsed_file_name file_name of Some n \<Rightarrow> n | None \<Rightarrow> file_name))"

definition model_display_name :: "string \<Rightarrow> string" where
  "model_display_name path =
     (case split_text ''://'' path of
        Some (_, name) \<Rightarrow> name
      | None \<Rightarrow>
          (case path_file_stem (model_file_label path) of Some stem \<Rightarrow> stem | None \<Rightarrow> ''model''))"

definition hf_repo_of :: "string \<Rightarrow> string option" where
  "hf_repo_of piece =
     Option.bind (strip_prefix ''models--'' piece)
       (\<lambda>rest. map_option (\<lambda>(owner, repo). owner @ ''/'' @ repo) (split_text ''--'' rest))"

definition ollama_tag_of :: "string \<Rightarrow> string option" where
  "ollama_tag_of s =
     Option.bind (after_first ''registry.ollama.ai/library/'' s)
       (\<lambda>tl_text.
          let name = part_or_empty 0 (slash_parts tl_text); tag = part_or_empty 1 (slash_parts tl_text)
          in if name \<noteq> [] then Some (if tag = [] then name else name @ '':'' @ tag) else None)"

definition lmstudio_repo_of :: "string \<Rightarrow> string \<Rightarrow> string option" where
  "lmstudio_repo_of s marker =
     Option.bind (after_first marker s)
       (\<lambda>tl_text.
          let owner = part_or_empty 0 (slash_parts tl_text); repo = part_or_empty 1 (slash_parts tl_text)
          in if owner \<noteq> [] \<and> repo \<noteq> [] then Some (owner @ ''/'' @ repo) else None)"

definition cache_repo_label :: "string \<Rightarrow> string option" where
  "cache_repo_label parent =
     (case find_map hf_repo_of (map component_text (path_components parent)) of
        Some l \<Rightarrow> Some l
      | None \<Rightarrow>
          if path_file_name parent = Some ''blobs'' \<and> (str_contains parent ''ollama'' \<or> str_contains parent ''.ollama'')
          then Some ''Ollama''
          else (case ollama_tag_of parent of
                  Some l \<Rightarrow> Some l
                | None \<Rightarrow> find_map (lmstudio_repo_of parent) [''lmstudio-models/'', ''.lmstudio/models/'']))"

definition model_group_label :: "string \<Rightarrow> string option" where
  "model_group_label path =
     Option.bind (path_parent path)
       (\<lambda>parent.
          case cache_repo_label parent of
            Some repo \<Rightarrow> Some repo
          | None \<Rightarrow> Option.bind (path_file_name parent) (\<lambda>s. if s \<noteq> [] then Some s else None))"

subsection \<open>Published ids\<close>

definition model_public_id :: "string \<Rightarrow> string option \<Rightarrow> string" where
  "model_public_id path display_label =
     (case display_label of Some l \<Rightarrow> l | None \<Rightarrow> model_display_name path)"

definition model_qualified_id :: "string \<Rightarrow> string option \<Rightarrow> string" where
  "model_qualified_id path display_label =
     (case display_label of
        Some l \<Rightarrow> l
      | None \<Rightarrow>
          (case model_group_label path of
             Some grp \<Rightarrow> grp @ ''/'' @ model_display_name path
           | None \<Rightarrow> model_display_name path))"

definition model_source_qualified_id :: "string \<Rightarrow> string option \<Rightarrow> string \<Rightarrow> string" where
  "model_source_qualified_id path display_label source =
     (let qualified = model_qualified_id path display_label
      in if display_label \<noteq> None \<or> source = [] then qualified else source @ ''/'' @ qualified)"

definition push_new :: "'a list \<Rightarrow> 'a \<Rightarrow> 'a list" where
  "push_new xs x = (if x \<in> set xs then xs else xs @ [x])"

definition id_ladder :: "string \<Rightarrow> string option \<Rightarrow> string \<Rightarrow> string list" where
  "id_ladder path display_label source =
     foldl push_new [model_public_id path display_label]
       [model_qualified_id path display_label, model_source_qualified_id path display_label source]"

type_synonym named_model = "string \<times> string option \<times> string"

fun ladder_of :: "named_model \<Rightarrow> string list" where
  "ladder_of (path, display_label, source) = id_ladder path display_label source"

text \<open>How often a form is claimed in a whole catalog.\<close>

definition taken :: "named_model list \<Rightarrow> string \<Rightarrow> nat" where
  "taken models form = count_list (concat (map ladder_of models)) form"

definition published_id :: "named_model list \<Rightarrow> named_model \<Rightarrow> string" where
  "published_id models m =
     (case List.find (\<lambda>f. taken models f = 1) (ladder_of m) of Some f \<Rightarrow> f | None \<Rightarrow> fst m)"

text \<open>The map that is collected; a later model of the same path replaces an earlier one.\<close>

definition published_id_index :: "named_model list \<Rightarrow> string \<Rightarrow> string option" where
  "published_id_index models path =
     map_of (rev (map (\<lambda>m. (fst m, published_id models m)) models)) path"

subsection \<open>Published ids are different\<close>

lemma distinct_push_new: "distinct xs \<Longrightarrow> distinct (push_new xs x)"
  by (simp add: push_new_def)

lemma distinct_ladder: "distinct (ladder_of m)"
  by (cases m) (simp add: id_ladder_def distinct_push_new)

lemma taken_append: "taken (ms @ ns) f = taken ms f + taken ns f"
  by (simp add: taken_def)

lemma taken_pos: "m \<in> set ms \<Longrightarrow> f \<in> set (ladder_of m) \<Longrightarrow> 0 < taken ms f"
  by (auto simp: taken_def count_list_0_iff intro!: gr0I)

lemma taken_once_unique:
  assumes "i < j" "j < length ms" "f \<in> set (ladder_of (ms ! i))" "f \<in> set (ladder_of (ms ! j))"
  shows "taken ms f \<noteq> 1"
proof -
  have "ms ! i \<in> set (take j ms)" using assms(1,2) by (auto simp: in_set_conv_nth)
  then have "0 < taken (take j ms) f" using assms(3) by (rule taken_pos)
  moreover have "ms ! j \<in> set (drop j ms)" using assms(2) by (auto simp: in_set_conv_nth intro!: exI[of _ 0])
  then have "0 < taken (drop j ms) f" using assms(4) by (rule taken_pos)
  ultimately show ?thesis using taken_append[of "take j ms" "drop j ms" f] by simp
qed

lemma published_id_cases:
  obtains (Form) "published_id ms m \<in> set (ladder_of m)" "taken ms (published_id ms m) = 1"
  | (Path) "published_id ms m = fst m" "\<forall>f \<in> set (ladder_of m). taken ms f \<noteq> 1"
proof (cases "List.find (\<lambda>f. taken ms f = 1) (ladder_of m)")
  case None
  then have "\<forall>f \<in> set (ladder_of m). taken ms f \<noteq> 1" by (auto simp: find_None_iff)
  moreover have "published_id ms m = fst m" using None by (simp add: published_id_def)
  ultimately show thesis by (rule that(2)[rotated])
next
  case (Some f)
  then have "f \<in> set (ladder_of m)" "taken ms f = 1" by (auto simp: find_Some_iff intro: nth_mem)
  then show thesis using that(1) Some by (simp add: published_id_def)
qed

definition paths_apart :: "named_model list \<Rightarrow> bool" where
  "paths_apart ms \<longleftrightarrow>
     distinct (map fst ms) \<and> list_all (\<lambda>m. list_all (\<lambda>n. fst m = fst n \<or> fst m \<notin> set (ladder_of n)) ms) ms"

lemma published_id_differs:
  assumes "paths_apart ms" "i < length ms" "j < length ms" "i < j"
  shows "published_id ms (ms ! i) \<noteq> published_id ms (ms ! j)"
proof
  assume eq: "published_id ms (ms ! i) = published_id ms (ms ! j)"
  have paths: "fst (ms ! i) \<noteq> fst (ms ! j)"
    using assms by (auto simp: paths_apart_def distinct_conv_nth)
  then have free: "fst (ms ! i) \<notin> set (ladder_of (ms ! j))" "fst (ms ! j) \<notin> set (ladder_of (ms ! i))"
    using assms(1) nth_mem[OF assms(2)] nth_mem[OF assms(3)] unfolding paths_apart_def list_all_iff by metis+
  show False
  proof (rule published_id_cases[of ms "ms ! i"])
    assume i: "published_id ms (ms ! i) \<in> set (ladder_of (ms ! i))" "taken ms (published_id ms (ms ! i)) = 1"
    show False
      by (rule published_id_cases[of ms "ms ! j"])
        (use i eq free taken_once_unique[OF assms(4,3), of "published_id ms (ms ! i)"] in auto)
  next
    assume i: "published_id ms (ms ! i) = fst (ms ! i)"
    show False
      by (rule published_id_cases[of ms "ms ! j"]) (use i eq free paths in auto)
  qed
qed

text \<open>
  C34. The ids a catalog is published under are pairwise different, as long as no model answers to the
  path of another, and the index holds the id of every model.
\<close>

theorem published_ids_unique:
  assumes "paths_apart ms"
  shows "distinct (map (published_id ms) ms) \<and> map (published_id_index ms \<circ> fst) ms = map (Some \<circ> published_id ms) ms"
proof
  show "distinct (map (published_id ms) ms)" unfolding distinct_conv_nth
  proof (intro allI impI)
    fix i j assume "i < length (map (published_id ms) ms)" "j < length (map (published_id ms) ms)" "i \<noteq> j"
    then show "map (published_id ms) ms ! i \<noteq> map (published_id ms) ms ! j"
      using published_id_differs[OF assms, of i j] published_id_differs[OF assms, of j i] by (cases "i < j") auto
  qed
  have d: "distinct (map fst (rev (map (\<lambda>m. (fst m, published_id ms m)) ms)))"
    using assms by (simp add: paths_apart_def rev_map[symmetric] comp_def)
  have "published_id_index ms (fst m) = Some (published_id ms m)" if "m \<in> set ms" for m
    unfolding published_id_index_def using that by (intro map_of_is_SomeI[OF d]) auto
  then show "map (published_id_index ms \<circ> fst) ms = map (Some \<circ> published_id ms) ms" by simp
qed

definition sample_catalog :: "named_model list" where
  "sample_catalog =
     [(''/a/models--un--Qwen-GGUF/snapshots/1/Qwen-Q4.gguf'', None, ''huggingface''),
      (''/b/.lmstudio/models/un/Qwen-GGUF/Qwen-Q4.gguf'', None, ''lmstudio''),
      (''/c/big-00001-of-00002.gguf'', None, []),
      (''ollama://x'', Some ''llama3:8b'', ''ollama'')]"

theorem published_ids_unique_witness:
  "distinct (map (published_id sample_catalog) sample_catalog)
   \<and> map (published_id sample_catalog) sample_catalog
     = [''huggingface/un/Qwen-GGUF/Qwen-Q4'', ''lmstudio/un/Qwen-GGUF/Qwen-Q4'', ''big'', ''llama3:8b'']"
proof -
  have "paths_apart sample_catalog" by code_simp
  from conjunct1[OF published_ids_unique[OF this]] have "distinct (map (published_id sample_catalog) sample_catalog)" .
  moreover have "map (published_id sample_catalog) sample_catalog
     = [''huggingface/un/Qwen-GGUF/Qwen-Q4'', ''lmstudio/un/Qwen-GGUF/Qwen-Q4'', ''big'', ''llama3:8b'']" by code_simp
  ultimately show ?thesis by blast
qed

end
