(* ===== verification/Catalog_Row.thy ===== *)
theory Catalog_Row
  imports Model_Ids Usage_Tap
begin

text \<open>
  One row of the model catalog and its wire shape: \<open>CatalogRow\<close> of \<open>src/launch/resolve.rs\<close>. An object
  of the wire is the list of its entries. Shown: a row survives the wire unchanged.
\<close>

record multimodal =
  mm_vision :: bool
  mm_audio :: bool

record mtp_capability =
  mtp_embedded_layers :: "nat option"
  mtp_separate_head :: bool

record catalog_row =
  cr_path :: string
  cr_model_id :: "string option"
  cr_parent :: string
  cr_source :: string
  cr_arch :: "string option"
  cr_quant :: "string option"
  cr_native_ctx :: "nat option"
  cr_mode_hint :: "string option"
  cr_parameter_label :: "string option"
  cr_weights_bytes :: "nat option"
  cr_display_label :: "string option"
  cr_parse_error :: "string option"
  cr_split_siblings :: "string list"
  cr_has_chat_template :: bool
  cr_has_reasoning_hint :: bool
  cr_tokenizer_kind :: "string option"
  cr_total_parameters :: "nat option"
  cr_backend :: "string option"
  cr_supported_backends :: "string list"
  cr_multimodal :: "multimodal option"
  cr_mtp :: "mtp_capability option"

definition for_resolution :: "string \<Rightarrow> string option \<Rightarrow> string option \<Rightarrow> catalog_row" where
  "for_resolution path display_label arch =
     \<lparr>cr_path = path, cr_model_id = None, cr_parent = [], cr_source = [], cr_arch = arch, cr_quant = None,
      cr_native_ctx = None, cr_mode_hint = None, cr_parameter_label = None, cr_weights_bytes = None,
      cr_display_label = display_label, cr_parse_error = None, cr_split_siblings = [],
      cr_has_chat_template = False, cr_has_reasoning_hint = False, cr_tokenizer_kind = None,
      cr_total_parameters = None, cr_backend = None, cr_supported_backends = [], cr_multimodal = None,
      cr_mtp = None\<rparr>"

subsection \<open>What a row is called\<close>

definition row_name :: "catalog_row \<Rightarrow> string" where
  "row_name r = (case cr_display_label r of Some l \<Rightarrow> l | None \<Rightarrow> model_file_label (cr_path r))"

definition row_public_id :: "catalog_row \<Rightarrow> string" where
  "row_public_id r = model_public_id (cr_path r) (cr_display_label r)"

definition row_qualified_id :: "catalog_row \<Rightarrow> string" where
  "row_qualified_id r = model_qualified_id (cr_path r) (cr_display_label r)"

definition row_source_qualified_id :: "catalog_row \<Rightarrow> string" where
  "row_source_qualified_id r = model_source_qualified_id (cr_path r) (cr_display_label r) (cr_source r)"

definition row_group_label :: "catalog_row \<Rightarrow> string" where
  "row_group_label r =
     (if cr_display_label r \<noteq> None then []
      else case model_group_label (cr_path r) of Some g \<Rightarrow> g | None \<Rightarrow> [])"

definition qualified_aliases :: "catalog_row \<Rightarrow> string list" where
  "qualified_aliases r =
     [row_qualified_id r, row_source_qualified_id r]
     @ (let grp = row_group_label r; name = row_name r
        in if grp = [] then []
           else (grp @ ''/'' @ name)
                # (if cr_source r = [] then [] else [cr_source r @ ''/'' @ grp @ ''/'' @ name]))"

definition published_ids_for :: "catalog_row list \<Rightarrow> catalog_row list \<Rightarrow> string list" where
  "published_ids_for catalog sub =
     (let index = published_id_index (map (\<lambda>r. (cr_path r, cr_display_label r, cr_source r)) catalog)
      in map (\<lambda>r. case index (cr_path r) of Some i \<Rightarrow> i | None \<Rightarrow> row_qualified_id r) sub)"

definition published_ids :: "catalog_row list \<Rightarrow> string list" where
  "published_ids rows = published_ids_for rows rows"

subsection \<open>The wire\<close>

definition opt_str :: "string option \<Rightarrow> json" where
  "opt_str v = (case v of Some s \<Rightarrow> JString s | None \<Rightarrow> JNull)"

definition opt_num :: "nat option \<Rightarrow> json" where
  "opt_num v = (case v of Some n \<Rightarrow> JNumber (PosInt n) | None \<Rightarrow> JNull)"

definition has_metadata :: "catalog_row \<Rightarrow> bool" where
  "has_metadata r \<longleftrightarrow>
     cr_mode_hint r \<noteq> None \<or> cr_arch r \<noteq> None \<or> cr_quant r \<noteq> None \<or> cr_native_ctx r \<noteq> None
     \<or> cr_parameter_label r \<noteq> None \<or> cr_weights_bytes r \<noteq> None \<or> cr_total_parameters r \<noteq> None
     \<or> cr_tokenizer_kind r \<noteq> None \<or> cr_has_chat_template r \<or> cr_has_reasoning_hint r"

definition metadata_value :: "catalog_row \<Rightarrow> json" where
  "metadata_value r =
     (if has_metadata r then
        JObject
          [(''arch'', opt_str (cr_arch r)), (''total_parameters'', opt_num (cr_total_parameters r)),
           (''parameter_label'', opt_str (cr_parameter_label r)), (''quant'', opt_str (cr_quant r)),
           (''native_ctx'', opt_num (cr_native_ctx r)), (''tokenizer_kind'', opt_str (cr_tokenizer_kind r)),
           (''mode_hint'', opt_str (cr_mode_hint r)),
           (''has_reasoning_hint'', JBool (cr_has_reasoning_hint r)),
           (''has_chat_template'', JBool (cr_has_chat_template r)),
           (''weights_bytes'', opt_num (cr_weights_bytes r))]
      else JNull)"

definition to_wire_value :: "catalog_row \<Rightarrow> json" where
  "to_wire_value r =
     JObject
       ([(''name'', JString (row_name r)), (''repo'', JString (row_group_label r)),
         (''path'', JString (cr_path r)), (''parent'', JString (cr_parent r)),
         (''source'', JString (cr_source r)), (''backend'', opt_str (cr_backend r)),
         (''supported_backends'', JArray (map JString (cr_supported_backends r))),
         (''split_siblings'', JArray (map JString (cr_split_siblings r))),
         (''metadata'', metadata_value r), (''parse_error'', opt_str (cr_parse_error r)),
         (''display_label'', opt_str (cr_display_label r)),
         (''multimodal'', (case cr_multimodal r of None \<Rightarrow> JNull
            | Some mm \<Rightarrow> JObject [(''vision'', JBool (mm_vision mm)), (''audio'', JBool (mm_audio mm))])),
         (''mtp'', (case cr_mtp r of None \<Rightarrow> JNull
            | Some m \<Rightarrow> JObject [(''embedded_layers'', opt_num (mtp_embedded_layers m)),
                               (''separate_head'', JBool (mtp_separate_head m))]))]
        @ (case cr_model_id r of Some i \<Rightarrow> [(''model_id'', JString i)] | None \<Rightarrow> []))"

fun json_get :: "string \<Rightarrow> json \<Rightarrow> json option" where
  "json_get k (JObject es) = map_of es k"
| "json_get k _ = None"

fun json_str :: "json \<Rightarrow> string option" where
  "json_str (JString s) = Some s"
| "json_str _ = None"

fun json_bool :: "json \<Rightarrow> bool option" where
  "json_bool (JBool b) = Some b"
| "json_bool _ = None"

fun json_array :: "json \<Rightarrow> json list option" where
  "json_array (JArray a) = Some a"
| "json_array _ = None"

definition get_str :: "string \<Rightarrow> json \<Rightarrow> string option" where
  "get_str k v = Option.bind (json_get k v) json_str"

definition get_num :: "string \<Rightarrow> json \<Rightarrow> nat option" where
  "get_num k v = Option.bind (json_get k v) json_u64"

definition get_flag :: "string \<Rightarrow> json \<Rightarrow> bool" where
  "get_flag k v = (case Option.bind (json_get k v) json_bool of Some b \<Rightarrow> b | None \<Rightarrow> False)"

definition get_strs :: "string \<Rightarrow> json \<Rightarrow> string list" where
  "get_strs k v =
     (case Option.bind (json_get k v) json_array of
        Some a \<Rightarrow> List.map_filter json_str a
      | None \<Rightarrow> [])"

text \<open>\<open>get(k)\<close> without the entries that are null.\<close>

definition get_some :: "string \<Rightarrow> json \<Rightarrow> json option" where
  "get_some k v = (case json_get k v of Some JNull \<Rightarrow> None | r \<Rightarrow> r)"

definition text_or_empty :: "string option \<Rightarrow> string" where
  "text_or_empty v = (case v of Some s \<Rightarrow> s | None \<Rightarrow> [])"

definition read_multimodal :: "json \<Rightarrow> multimodal" where
  "read_multimodal mm = \<lparr>mm_vision = get_flag ''vision'' mm, mm_audio = get_flag ''audio'' mm\<rparr>"

definition read_mtp :: "json \<Rightarrow> mtp_capability" where
  "read_mtp m =
     \<lparr>mtp_embedded_layers = Option.bind (get_num ''embedded_layers'' m) (\<lambda>n. if n \<le> u32_max then Some n else None),
      mtp_separate_head = get_flag ''separate_head'' m\<rparr>"

definition from_wire_value :: "json \<Rightarrow> catalog_row" where
  "from_wire_value row =
     (let md = (case get_some ''metadata'' row of Some m \<Rightarrow> m | None \<Rightarrow> JNull)
      in \<lparr>cr_path = text_or_empty (get_str ''path'' row), cr_model_id = get_str ''model_id'' row,
          cr_parent = text_or_empty (get_str ''parent'' row), cr_source = text_or_empty (get_str ''source'' row),
          cr_arch = get_str ''arch'' md, cr_quant = get_str ''quant'' md,
          cr_native_ctx = get_num ''native_ctx'' md, cr_mode_hint = get_str ''mode_hint'' md,
          cr_parameter_label = get_str ''parameter_label'' md, cr_weights_bytes = get_num ''weights_bytes'' md,
          cr_display_label = get_str ''display_label'' row, cr_parse_error = get_str ''parse_error'' row,
          cr_split_siblings = get_strs ''split_siblings'' row,
          cr_has_chat_template = get_flag ''has_chat_template'' md,
          cr_has_reasoning_hint = get_flag ''has_reasoning_hint'' md,
          cr_tokenizer_kind = get_str ''tokenizer_kind'' md,
          cr_total_parameters = get_num ''total_parameters'' md,
          cr_backend = get_str ''backend'' row, cr_supported_backends = get_strs ''supported_backends'' row,
          cr_multimodal = map_option read_multimodal (get_some ''multimodal'' row),
          cr_mtp = map_option read_mtp (get_some ''mtp'' row)\<rparr>)"

lemma json_str_opt [simp]: "json_str (opt_str v) = v"
  by (simp add: opt_str_def split: option.split)

lemma json_u64_opt [simp]: "json_u64 (opt_num v) = v"
  by (simp add: opt_num_def split: option.split)

lemma map_filter_strings [simp]: "List.map_filter json_str (map JString xs) = xs"
  by (induction xs) (simp_all add: List.map_filter_simps)

definition layers_fit :: "catalog_row \<Rightarrow> bool" where
  "layers_fit r \<longleftrightarrow>
     (case cr_mtp r of None \<Rightarrow> True
      | Some m \<Rightarrow> (case mtp_embedded_layers m of None \<Rightarrow> True | Some n \<Rightarrow> n \<le> u32_max))"

lemma wire_strings:
  "get_str ''path'' (to_wire_value r) = Some (cr_path r)" "get_str ''parent'' (to_wire_value r) = Some (cr_parent r)"
  "get_str ''source'' (to_wire_value r) = Some (cr_source r)" "get_str ''backend'' (to_wire_value r) = cr_backend r"
  "get_str ''parse_error'' (to_wire_value r) = cr_parse_error r"
  "get_str ''display_label'' (to_wire_value r) = cr_display_label r"
  "get_str ''model_id'' (to_wire_value r) = cr_model_id r"
  by (simp_all add: get_str_def to_wire_value_def split: option.split)

lemma wire_lists:
  "get_strs ''split_siblings'' (to_wire_value r) = cr_split_siblings r"
  "get_strs ''supported_backends'' (to_wire_value r) = cr_supported_backends r"
  by (simp_all add: get_strs_def to_wire_value_def)

lemma wire_metadata:
  "(case get_some ''metadata'' (to_wire_value r) of Some m \<Rightarrow> m | None \<Rightarrow> JNull) = metadata_value r"
  by (simp add: get_some_def to_wire_value_def metadata_value_def)

lemma wire_multimodal: "map_option read_multimodal (get_some ''multimodal'' (to_wire_value r)) = cr_multimodal r"
  by (cases "cr_multimodal r") (simp_all add: get_some_def to_wire_value_def read_multimodal_def get_flag_def)

lemma wire_mtp: "layers_fit r \<Longrightarrow> map_option read_mtp (get_some ''mtp'' (to_wire_value r)) = cr_mtp r"
  by (cases "cr_mtp r")
    (simp_all add: get_some_def to_wire_value_def read_mtp_def get_flag_def get_num_def layers_fit_def
      split: option.splits)

lemma metadata_strings:
  "get_str ''arch'' (metadata_value r) = cr_arch r" "get_str ''quant'' (metadata_value r) = cr_quant r"
  "get_str ''mode_hint'' (metadata_value r) = cr_mode_hint r"
  "get_str ''parameter_label'' (metadata_value r) = cr_parameter_label r"
  "get_str ''tokenizer_kind'' (metadata_value r) = cr_tokenizer_kind r"
  by (simp_all add: get_str_def metadata_value_def has_metadata_def)

lemma metadata_numbers:
  "get_num ''native_ctx'' (metadata_value r) = cr_native_ctx r"
  "get_num ''weights_bytes'' (metadata_value r) = cr_weights_bytes r"
  "get_num ''total_parameters'' (metadata_value r) = cr_total_parameters r"
  by (simp_all add: get_num_def metadata_value_def has_metadata_def)

lemma metadata_flags:
  "get_flag ''has_chat_template'' (metadata_value r) = cr_has_chat_template r"
  "get_flag ''has_reasoning_hint'' (metadata_value r) = cr_has_reasoning_hint r"
  by (simp_all add: get_flag_def metadata_value_def has_metadata_def)

text \<open>
  C36. A catalog row written to the wire is read back as it was, with every absent field absent again.
\<close>

theorem row_survives_wire:
  assumes "layers_fit r"
  shows "from_wire_value (to_wire_value r) = r"
  unfolding from_wire_value_def Let_def wire_metadata wire_strings wire_lists wire_multimodal wire_mtp[OF assms]
    metadata_strings metadata_numbers metadata_flags
  by (simp add: text_or_empty_def)

definition sample_row :: catalog_row where
  "sample_row =
     (for_resolution ''/m/Qwen-Q4.gguf'' None (Some ''qwen3''))
       \<lparr>cr_mtp := Some \<lparr>mtp_embedded_layers = Some 1, mtp_separate_head = False\<rparr>, cr_model_id := Some ''ab12cd34'',
        cr_supported_backends := [''llama_cpp'', ''vllm'']\<rparr>"

theorem row_survives_wire_witness:
  "from_wire_value (to_wire_value sample_row) = sample_row \<and> cr_model_id sample_row = Some ''ab12cd34''"
proof -
  have "layers_fit sample_row" by code_simp
  from row_survives_wire[OF this] show ?thesis by (simp add: sample_row_def)
qed

end
