(* ===== verification/References.thy ===== *)
theory References
  imports Catalog_Row
begin

text \<open>
  How a text names a model or a running launch: the resolver of \<open>src/launch/resolve.rs\<close> and, over it,
  that of the command line, \<open>src/cli/resolve.rs\<close>. \<open>str::to_lowercase\<close> (full Unicode) is a parameter,
  \<open>lower\<close>. Shown: an address splits back into what it was joined from; a resolver returns a row of its
  catalog or names at least two; every published id reaches the row it was published for.
\<close>

subsection \<open>Addresses of launches\<close>

text \<open>\<open>rsplit_once\<close>: the text before and after the last occurrence.\<close>

definition rsplit_once :: "char \<Rightarrow> string \<Rightarrow> (string \<times> string) option" where
  "rsplit_once d s = map_option (\<lambda>(a, b). (rev b, rev a)) (split_once d (rev s))"

definition launch_name_char :: "char \<Rightarrow> bool" where
  "launch_name_char c \<longleftrightarrow> is_alnum c \<or> c = CHR ''-'' \<or> c = CHR ''_''"

definition is_launch_name :: "string \<Rightarrow> bool" where
  "is_launch_name s \<longleftrightarrow> s \<noteq> [] \<and> list_all launch_name_char s"

definition parse_named_reference :: "string \<Rightarrow> (string \<times> string) option" where
  "parse_named_reference reference =
     Option.bind (rsplit_once (CHR ''@'') reference)
       (\<lambda>(model, name). if model = [] \<or> \<not> is_launch_name name then None else Some (model, name))"

definition name_matches :: "string option \<Rightarrow> string \<Rightarrow> bool" where
  "name_matches have_name want =
     (case have_name of Some h \<Rightarrow> same_ignoring_case h want | None \<Rightarrow> False)"

definition validate_launch_name :: "string \<Rightarrow> string + string" where
  "validate_launch_name raw =
     (let name = trim raw
      in if name = [] then Inl ''a name needs at least one letter, digit, `-` or `_`''
         else if \<not> is_launch_name name
         then Inl (''a name is letters, digits, `-` or `_` '' @ map char_of [226, 128, 148::nat] @ '' got `'' @ name @ ''`'')
         else Inr name)"

definition join_named_reference :: "string \<Rightarrow> string \<Rightarrow> string" where
  "join_named_reference model name = model @ ''@'' @ name"

lemma rsplit_once_Some: "rsplit_once d s = Some (a, b) \<longleftrightarrow> s = a @ d # b \<and> d \<notin> set b"
proof -
  have "rsplit_once d s = Some (a, b) \<longleftrightarrow> split_once d (rev s) = Some (rev b, rev a)"
    by (auto simp: rsplit_once_def)
  also have "\<dots> \<longleftrightarrow> rev s = rev b @ d # rev a \<and> d \<notin> set b" by (simp add: split_once_Some)
  also have "rev s = rev b @ d # rev a \<longleftrightarrow> s = a @ d # b"
    by (metis append.assoc append_Cons append_Nil rev.simps(2) rev_append rev_rev_ident)
  finally show ?thesis .
qed

lemma launch_name_no_at: "is_launch_name n \<Longrightarrow> CHR ''@'' \<notin> set n"
  by (auto simp: is_launch_name_def launch_name_char_def list_all_iff is_alnum_def is_alpha_def is_lower_def
      is_upper_def is_digit_def)

lemma named_reference_parts:
  "parse_named_reference r = Some (m, n) \<Longrightarrow> r = m @ ''@'' @ n \<and> m \<noteq> [] \<and> is_launch_name n"
  by (auto simp: parse_named_reference_def rsplit_once_Some split: bind_splits if_splits)

text \<open>
  An address is read back as the model and the launch name it was joined from, and only texts
  joined from a model and a launch name are read as addresses.
\<close>

theorem named_reference_roundtrip:
  "parse_named_reference r = Some (m, n) \<longleftrightarrow> r = join_named_reference m n \<and> m \<noteq> [] \<and> is_launch_name n"
proof
  assume "parse_named_reference r = Some (m, n)"
  then show "r = join_named_reference m n \<and> m \<noteq> [] \<and> is_launch_name n"
    using named_reference_parts by (simp add: join_named_reference_def)
next
  assume a: "r = join_named_reference m n \<and> m \<noteq> [] \<and> is_launch_name n"
  then have "rsplit_once (CHR ''@'') r = Some (m, n)"
    using launch_name_no_at[of n] by (simp add: rsplit_once_Some join_named_reference_def)
  then show "parse_named_reference r = Some (m, n)" using a by (simp add: parse_named_reference_def)
qed

subsection \<open>Names of models\<close>

datatype resolve_error = RefEmpty | RefNone | RefMany "catalog_row list"

definition only_one :: "'a list \<Rightarrow> 'a option" where
  "only_one xs = (case xs of [x] \<Rightarrow> Some x | _ \<Rightarrow> None)"

definition exact_path :: "catalog_row list \<Rightarrow> string \<Rightarrow> catalog_row list" where
  "exact_path rows needle = filter (\<lambda>r. cr_path r = needle) rows"

definition exact_name :: "catalog_row list \<Rightarrow> string \<Rightarrow> catalog_row list" where
  "exact_name rows needle = filter (\<lambda>r. row_name r = needle) rows"

definition exact_public :: "catalog_row list \<Rightarrow> string \<Rightarrow> catalog_row list" where
  "exact_public rows needle = filter (\<lambda>r. same_ignoring_case (row_public_id r) needle) rows"

definition exact_qualified :: "catalog_row list \<Rightarrow> string \<Rightarrow> catalog_row list" where
  "exact_qualified rows needle =
     filter (\<lambda>r. list_ex (\<lambda>a. same_ignoring_case a needle) (qualified_aliases r)) rows"

definition resolve_exact_reference :: "catalog_row list \<Rightarrow> string \<Rightarrow> resolve_error + catalog_row" where
  "resolve_exact_reference rows reference =
     (let needle = trim reference
      in if needle = [] then Inl RefEmpty
         else case only_one (exact_path rows needle) of Some r \<Rightarrow> Inr r
         | None \<Rightarrow> case only_one (exact_name rows needle) of Some r \<Rightarrow> Inr r
         | None \<Rightarrow> case only_one (exact_public rows needle) of Some r \<Rightarrow> Inr r
         | None \<Rightarrow>
             let qualified = exact_qualified rows needle
             in (case only_one qualified of Some r \<Rightarrow> Inr r
                 | None \<Rightarrow> if length qualified > 1 then Inl (RefMany qualified) else Inl RefNone))"

definition strip_suffix :: "string \<Rightarrow> string \<Rightarrow> string option" where
  "strip_suffix p s = (if ends_with s p then Some (take (length s - length p) s) else None)"

definition collapse_shard_reference :: "(string \<Rightarrow> string) \<Rightarrow> string \<Rightarrow> string option" where
  "collapse_shard_reference lower needle =
     (if ends_with (lower needle) ''.gguf''
      then let c = model_file_label needle in if c \<noteq> needle then Some c else None
      else let c = model_file_label (needle @ ''.gguf'');
               stem = (case strip_suffix ''.gguf'' c of Some s \<Rightarrow> s | None \<Rightarrow> c)
           in if stem \<noteq> needle then Some stem else None)"

definition name_or_stem :: "string \<Rightarrow> string \<Rightarrow> bool" where
  "name_or_stem collapsed name \<longleftrightarrow>
     name = collapsed \<or> (case path_file_stem name of Some s \<Rightarrow> s | None \<Rightarrow> name) = collapsed"

definition shard_alias :: "(string \<Rightarrow> string) \<Rightarrow> catalog_row list \<Rightarrow> string \<Rightarrow> catalog_row option" where
  "shard_alias lower rows needle =
     Option.bind (collapse_shard_reference lower needle)
       (\<lambda>collapsed. only_one (filter (\<lambda>r. name_or_stem collapsed (row_name r)) rows))"

definition partial_matches :: "(string \<Rightarrow> string) \<Rightarrow> catalog_row list \<Rightarrow> string \<Rightarrow> catalog_row list" where
  "partial_matches lower rows needle =
     filter (\<lambda>r. str_contains (lower (row_name r)) (lower needle)
                 \<or> str_contains (lower (cr_parent r)) (lower needle)
                 \<or> str_contains (lower (row_source_qualified_id r)) (lower needle)) rows"

definition resolve_model_with_candidates ::
  "(string \<Rightarrow> string) \<Rightarrow> catalog_row list \<Rightarrow> string \<Rightarrow> resolve_error + catalog_row" where
  "resolve_model_with_candidates lower rows reference =
     (case resolve_exact_reference rows reference of
        Inr row \<Rightarrow> Inr row
      | Inl (RefMany cs) \<Rightarrow> Inl (RefMany cs)
      | Inl _ \<Rightarrow>
          let needle = trim reference
          in if needle = [] then Inl RefEmpty
             else (case shard_alias lower rows needle of
                     Some r \<Rightarrow> Inr r
                   | None \<Rightarrow>
                       (case partial_matches lower rows needle of
                          [] \<Rightarrow> Inl RefNone
                        | [r] \<Rightarrow> Inr r
                        | cs \<Rightarrow> Inl (RefMany cs))))"

subsection \<open>What a resolver answers\<close>

lemma only_one_Some: "only_one xs = Some x \<longleftrightarrow> xs = [x]"
  by (auto simp: only_one_def split: list.splits)

lemma only_one_filter: "only_one (filter P xs) = Some x \<Longrightarrow> x \<in> set xs \<and> P x"
proof -
  assume "only_one (filter P xs) = Some x"
  then have "x \<in> set (filter P xs)" by (simp add: only_one_Some)
  then show ?thesis by simp
qed

lemma resolve_exact_row: "resolve_exact_reference rows reference = Inr r \<Longrightarrow> r \<in> set rows"
  by (auto simp: resolve_exact_reference_def Let_def exact_path_def exact_name_def exact_public_def
      exact_qualified_def dest: only_one_filter split: if_splits option.splits)

lemma resolve_exact_many:
  "resolve_exact_reference rows reference = Inl (RefMany cs) \<Longrightarrow> 2 \<le> length cs \<and> set cs \<subseteq> set rows"
  by (auto simp: resolve_exact_reference_def Let_def exact_qualified_def split: if_splits option.splits)

lemma resolve_exact_empty: "resolve_exact_reference rows reference = Inl RefEmpty \<longleftrightarrow> trim reference = []"
  by (auto simp: resolve_exact_reference_def Let_def split: if_splits option.splits)

lemma resolver_answers_many:
  "resolve_model_with_candidates lower rows reference = Inl (RefMany cs) \<Longrightarrow> 2 \<le> length cs \<and> set cs \<subseteq> set rows"
proof -
  assume r: "resolve_model_with_candidates lower rows reference = Inl (RefMany cs)"
  show ?thesis
  proof (cases "resolve_exact_reference rows reference = Inl (RefMany cs)")
    case True
    then show ?thesis by (rule resolve_exact_many)
  next
    case False
    then have "cs = partial_matches lower rows (trim reference) \<and> (\<exists>a b ds. cs = a # b # ds)"
      using r by (auto simp: resolve_model_with_candidates_def Let_def
          split: sum.splits resolve_error.splits if_splits option.splits list.splits dest: sym)
    then show ?thesis by (auto simp: partial_matches_def)
  qed
qed


subsection \<open>Published ids reach their rows\<close>

definition row_model :: "catalog_row \<Rightarrow> named_model" where
  "row_model r = (cr_path r, cr_display_label r, cr_source r)"

text \<open>The spellings with the file name, which no id carries.\<close>

definition file_spellings :: "catalog_row \<Rightarrow> string list" where
  "file_spellings r = drop 2 (qualified_aliases r)"

text \<open>
  Two models clash when a form of one is the file name of the other, spells its file, or is one of its
  forms in other letter case.
\<close>

definition rows_clash :: "catalog_row \<Rightarrow> catalog_row \<Rightarrow> bool" where
  "rows_clash r s \<longleftrightarrow>
     list_ex (\<lambda>f. row_name s = f \<or> list_ex (\<lambda>a. same_ignoring_case a f) (file_spellings s)
       \<or> list_ex (\<lambda>g. same_ignoring_case g f \<and> g \<noteq> f) (ladder_of (row_model s))) (ladder_of (row_model r))"

definition ids_clear :: "catalog_row list \<Rightarrow> bool" where
  "ids_clear rows \<longleftrightarrow>
     paths_apart (map row_model rows)
     \<and> list_all (\<lambda>r. list_all (\<lambda>f. f \<noteq> [] \<and> trim f = f) (cr_path r # ladder_of (row_model r))) rows
     \<and> list_all (\<lambda>r. list_all (\<lambda>s. cr_path r = cr_path s \<or> \<not> rows_clash r s) rows) rows"

lemma set_ladder:
  "set (ladder_of (row_model r)) = {row_public_id r, row_qualified_id r, row_source_qualified_id r}"
  by (auto simp: row_model_def id_ladder_def push_new_def row_public_id_def row_qualified_id_def
      row_source_qualified_id_def)

lemma qualified_aliases_split:
  "qualified_aliases r = row_qualified_id r # row_source_qualified_id r # file_spellings r"
  by (simp add: file_spellings_def qualified_aliases_def)

lemma distinct_filter_eq_single:
  "distinct xs \<Longrightarrow> x \<in> set xs \<Longrightarrow> filter (\<lambda>y. y = x) xs = [x]"
proof (induction xs)
  case (Cons a xs)
  show ?case
  proof (cases "a = x")
    case True
    moreover have "x \<notin> set xs" using Cons.prems True by simp
    then have "filter (\<lambda>y. y = x) xs = []" by (auto simp: filter_empty_conv)
    ultimately show ?thesis by simp
  next
    case False
    then show ?thesis using Cons by simp
  qed
qed simp

lemma filter_to_one:
  assumes "distinct xs" "x \<in> set xs" "\<And>y. y \<in> set xs \<Longrightarrow> P y \<Longrightarrow> y = x"
  shows "filter P xs = (if P x then [x] else [])"
proof -
  have "filter P xs = filter (\<lambda>y. P x \<and> y = x) xs" using assms(2,3) by (intro filter_cong) blast+
  also have "\<dots> = (if P x then [x] else [])"
    using distinct_filter_eq_single[OF assms(1,2)] by simp
  finally show ?thesis .
qed

lemma other_row_silent:
  assumes "ids_clear rows" "r \<in> set rows" "s \<in> set rows" "s \<noteq> r"
    and "p \<in> set (ladder_of (row_model r))" "taken (map row_model rows) p = 1"
  shows "cr_path s \<noteq> p \<and> row_name s \<noteq> p \<and> \<not> same_ignoring_case (row_public_id s) p
    \<and> \<not> list_ex (\<lambda>a. same_ignoring_case a p) (qualified_aliases s)"
proof -
  have d: "distinct (map cr_path rows)" using assms(1) by (simp add: ids_clear_def paths_apart_def row_model_def comp_def)
  then have "inj_on cr_path (set rows)" by (simp add: distinct_map)
  then have ne: "cr_path r \<noteq> cr_path s" using inj_onD[of cr_path "set rows" r s] assms(2-4) by metis
  obtain i j where ij: "i < length rows" "rows ! i = r" "j < length rows" "rows ! j = s"
    using assms(2,3) unfolding in_set_conv_nth by blast
  then have "i \<noteq> j" using assms(4) by auto
  have "p \<notin> set (ladder_of (row_model s))"
  proof
    assume s: "p \<in> set (ladder_of (row_model s))"
    let ?ms = "map row_model rows"
    have at: "?ms ! i = row_model r" "?ms ! j = row_model s" using ij by simp_all
    from \<open>i \<noteq> j\<close> consider "i < j" | "j < i" by linarith
    then show False
    proof cases
      case 1
      from taken_once_unique[of i j ?ms p] 1 ij(3) assms(5,6) s show False by (simp only: at length_map) simp
    next
      case 2
      from taken_once_unique[of j i ?ms p] 2 ij(1) assms(5,6) s show False by (simp only: at length_map) simp
    qed
  qed
  moreover have "\<not> rows_clash r s" using assms(1-3) ne by (auto simp: ids_clear_def list_all_iff)
  then have c: "row_name s \<noteq> p" "\<not> list_ex (\<lambda>a. same_ignoring_case a p) (file_spellings s)"
    "\<not> list_ex (\<lambda>g. same_ignoring_case g p \<and> g \<noteq> p) (ladder_of (row_model s))"
    using assms(5) by (auto simp: rows_clash_def list_ex_iff)
  ultimately have "\<not> same_ignoring_case g p" if "g \<in> set (ladder_of (row_model s))" for g
    using that by (auto simp: list_ex_iff)
  then have "\<not> same_ignoring_case (row_public_id s) p" "\<not> same_ignoring_case (row_qualified_id s) p"
    "\<not> same_ignoring_case (row_source_qualified_id s) p" by (simp_all add: set_ladder)
  moreover have "cr_path s \<noteq> p"
  proof
    assume "cr_path s = p"
    moreover have "\<forall>m \<in> set (map row_model rows). \<forall>n \<in> set (map row_model rows). fst m = fst n \<or> fst m \<notin> set (ladder_of n)"
      using assms(1) by (simp add: ids_clear_def paths_apart_def list_all_iff)
    ultimately have "cr_path s = cr_path r" using assms(2,3,5) by (force simp: row_model_def)
    then show False using ne by simp
  qed
  ultimately show ?thesis using c by (simp add: qualified_aliases_split)
qed

text \<open>
  C33. When no two models clash, the id a model is published under resolves to that model, outright.
\<close>

theorem published_id_reaches_row:
  assumes "ids_clear rows" "r \<in> set rows"
  shows "resolve_exact_reference rows (published_id (map row_model rows) (row_model r)) = Inr r"
proof -
  define p where "p = published_id (map row_model rows) (row_model r)"
  have paths: "distinct (map cr_path rows)"
    using assms(1) by (simp add: ids_clear_def paths_apart_def row_model_def comp_def)
  then have d: "distinct rows" by (simp add: distinct_map)
  have clean: "f \<noteq> [] \<and> trim f = f" if "f \<in> insert (cr_path r) (set (ladder_of (row_model r)))" for f
    using assms that by (auto simp: ids_clear_def list_all_iff)
  have "resolve_exact_reference rows p = Inr r"
  proof (rule published_id_cases[of "map row_model rows" "row_model r"])
    assume f: "published_id (map row_model rows) (row_model r) \<in> set (ladder_of (row_model r))"
      "taken (map row_model rows) (published_id (map row_model rows) (row_model r)) = 1"
    note f = f[folded p_def]
    note other = other_row_silent[OF assms(1,2) _ _ f]
    have "exact_path rows p = (if cr_path r = p then [r] else [])"
      "exact_name rows p = (if row_name r = p then [r] else [])"
      "exact_public rows p = (if same_ignoring_case (row_public_id r) p then [r] else [])"
      "exact_qualified rows p = (if list_ex (\<lambda>a. same_ignoring_case a p) (qualified_aliases r) then [r] else [])"
      unfolding exact_path_def exact_name_def exact_public_def exact_qualified_def
      using other by (intro filter_to_one[OF d assms(2)]; blast)+
    moreover have "same_ignoring_case (row_public_id r) p \<or> list_ex (\<lambda>a. same_ignoring_case a p) (qualified_aliases r)"
      using f(1) by (auto simp: set_ladder qualified_aliases_split)
    ultimately show ?thesis using clean[of p] f(1) by (auto simp: resolve_exact_reference_def only_one_def)
  next
    assume "published_id (map row_model rows) (row_model r) = fst (row_model r)"
    then have p: "p = cr_path r" by (simp add: p_def row_model_def)
    have "exact_path rows p = [r]"
      unfolding exact_path_def using filter_to_one[OF d assms(2), of "\<lambda>s. cr_path s = p"] paths assms(2) p
      by (auto simp: distinct_map inj_on_def)
    then show ?thesis using clean[of p] p by (simp add: resolve_exact_reference_def only_one_def)
  qed
  then show ?thesis by (simp add: p_def)
qed

definition gguf_row :: "string \<Rightarrow> string \<Rightarrow> catalog_row" where
  "gguf_row path source = (for_resolution path None None)\<lparr>cr_source := source\<rparr>"

definition sample_rows :: "catalog_row list" where
  "sample_rows =
     [gguf_row ''/a/un/Qwen-Q4.gguf'' ''huggingface'', gguf_row ''/b/un/Qwen-Q4.gguf'' ''lmstudio'',
      gguf_row ''/c/phi.gguf'' []]"

theorem published_id_reaches_row_witness:
  "resolve_exact_reference sample_rows (published_id (map row_model sample_rows) (row_model (sample_rows ! 1)))
     = Inr (sample_rows ! 1)
   \<and> published_id (map row_model sample_rows) (row_model (sample_rows ! 1)) = ''lmstudio/un/Qwen-Q4''"
proof -
  have "ids_clear sample_rows" by code_simp
  moreover have "sample_rows ! 1 \<in> set sample_rows" by (simp add: sample_rows_def)
  ultimately have "resolve_exact_reference sample_rows
      (published_id (map row_model sample_rows) (row_model (sample_rows ! 1))) = Inr (sample_rows ! 1)"
    by (rule published_id_reaches_row)
  moreover have "published_id (map row_model sample_rows) (row_model (sample_rows ! 1)) = ''lmstudio/un/Qwen-Q4''"
    by code_simp
  ultimately show ?thesis by blast
qed

text \<open>
  Two files whose names differ in letter case only: each is published under its bare name, which the
  resolver, ignoring case, cannot tell apart.
\<close>

definition case_rows :: "catalog_row list" where
  "case_rows = [gguf_row ''/a/one/Qwen-Q4.gguf'' ''hf'', gguf_row ''/b/two/qwen-q4.gguf'' ''hf'']"

lemma case_variants_unreachable:
  "published_ids case_rows = [''Qwen-Q4'', ''qwen-q4'']
   \<and> resolve_model_with_candidates ascii_lower case_rows ''qwen-q4'' = Inl (RefMany case_rows)"
proof
  show "published_ids case_rows = [''Qwen-Q4'', ''qwen-q4'']" by code_simp
  have "resolve_model_with_candidates ascii_lower case_rows ''qwen-q4'' = Inl (RefMany case_rows) \<longleftrightarrow> True"
    by code_simp
  then show "resolve_model_with_candidates ascii_lower case_rows ''qwen-q4'' = Inl (RefMany case_rows)" by simp
qed

end
