(* ===== verification/Aliases.thy ===== *)
theory Aliases
  imports References
begin

text \<open>
  The names a client is hard-wired to: \<open>src/proxy/alias.rs\<close>, and how the proxy turns the \<open>model\<close> of
  a request into a catalog row, \<open>resolve_client_reference\<close> of \<open>src/proxy/route.rs\<close>. The set of the
  reports already made is the only state; it is passed along. Shown: what the operator's audit says of
  an entry is what a request under its name gets, an alias never answers with a model that is not
  named outright, and each problem of a name is reported once.
\<close>

subsection \<open>The table\<close>

definition normalize :: "string \<Rightarrow> string" where
  "normalize name = ascii_lower (trim name)"

record alias_table =
  at_targets :: "(string \<times> string) list"
  at_warned :: "string set"

fun remove_key :: "string \<Rightarrow> (string \<times> string) list \<Rightarrow> (string \<times> string) list" where
  "remove_key k [] = []"
| "remove_key k (e # es) = (if fst e = k then es else e # remove_key k es)"

definition add_entry :: "(string \<times> string) list \<Rightarrow> string \<times> string \<Rightarrow> (string \<times> string) list" where
  "add_entry targets e =
     (let key = normalize (fst e); target = trim (snd e)
      in if key = [] \<or> target = [] then targets
         else if CHR ''@'' \<in> set key then targets
         else remove_key key targets @ [(key, target)])"

definition build_aliases :: "(string \<times> string) list \<Rightarrow> alias_table" where
  "build_aliases entries = \<lparr>at_targets = foldl add_entry [] entries, at_warned = {}\<rparr>"

definition alias_lookup :: "(string \<times> string) list \<Rightarrow> string \<Rightarrow> (string \<times> string) option" where
  "alias_lookup targets requested =
     (if targets = [] then None
      else List.find (\<lambda>e. same_ignoring_case (fst e) (trim requested)) targets)"

definition alias_target :: "(string \<times> string) list \<Rightarrow> string \<Rightarrow> string option" where
  "alias_target targets requested = map_option snd (alias_lookup targets requested)"

datatype alias_state = AliasOk | Shadowed | DeadAlias | AmbiguousAlias | ChainAlias

record alias_issue =
  ai_name :: string
  ai_target :: string
  ai_state :: alias_state

datatype target_verdict = Routes catalog_row | AmbiguousTarget "catalog_row list" | ChainTarget | DeadTarget

definition alias_verdict ::
  "(string \<Rightarrow> string) \<Rightarrow> (string \<times> string) list \<Rightarrow> catalog_row list \<Rightarrow> string \<Rightarrow> target_verdict" where
  "alias_verdict lower targets cat target =
     (case resolve_exact_reference cat target of
        Inr row \<Rightarrow> Routes row
      | Inl (RefMany cs) \<Rightarrow> AmbiguousTarget cs
      | Inl _ \<Rightarrow>
          if alias_target targets target \<noteq> None then ChainTarget
          else (case resolve_model_with_candidates lower cat target of
                  Inl (RefMany cs) \<Rightarrow> AmbiguousTarget cs
                | _ \<Rightarrow> DeadTarget))"

definition state_of ::
  "(string \<Rightarrow> string) \<Rightarrow> (string \<times> string) list \<Rightarrow> catalog_row list \<Rightarrow> string \<Rightarrow> string \<Rightarrow> alias_state" where
  "state_of lower targets cat name target =
     (case resolve_exact_reference cat name of
        Inr _ \<Rightarrow> Shadowed
      | Inl _ \<Rightarrow>
          (case alias_verdict lower targets cat target of
             Routes _ \<Rightarrow> AliasOk
           | AmbiguousTarget _ \<Rightarrow> AmbiguousAlias
           | ChainTarget \<Rightarrow> ChainAlias
           | DeadTarget \<Rightarrow> DeadAlias))"

definition audit :: "(string \<Rightarrow> string) \<Rightarrow> (string \<times> string) list \<Rightarrow> catalog_row list \<Rightarrow> alias_issue list" where
  "audit lower targets cat =
     map (\<lambda>(name, target).
       \<lparr>ai_name = name, ai_target = target, ai_state = state_of lower targets cat name target\<rparr>) targets"

subsection \<open>Reports\<close>

datatype report_kind = KIND_SHADOW | KIND_PARTIAL | KIND_AMBIGUOUS | KIND_DEAD | KIND_CHAIN

fun kind_text :: "report_kind \<Rightarrow> string" where
  "kind_text KIND_SHADOW = ''shadow''"
| "kind_text KIND_PARTIAL = ''partial''"
| "kind_text KIND_AMBIGUOUS = ''ambiguous''"
| "kind_text KIND_DEAD = ''dead''"
| "kind_text KIND_CHAIN = ''chain''"

definition report_key :: "alias_table \<Rightarrow> string \<Rightarrow> report_kind \<Rightarrow> string option" where
  "report_key t requested k =
     map_option (\<lambda>e. kind_text k @ '' '' @ fst e) (alias_lookup (at_targets t) requested)"

definition report_pending :: "alias_table \<Rightarrow> string \<Rightarrow> report_kind \<Rightarrow> bool" where
  "report_pending t requested k =
     (case report_key t requested k of Some key \<Rightarrow> key \<notin> at_warned t | None \<Rightarrow> False)"

definition note_once :: "string \<Rightarrow> alias_table \<Rightarrow> bool \<times> alias_table" where
  "note_once key t = (key \<notin> at_warned t, t\<lparr>at_warned := insert key (at_warned t)\<rparr>)"

text \<open>Each \<open>warn_*\<close> function is this one with its kind; the answer says whether a line is logged.\<close>

definition note_as_alias :: "string \<Rightarrow> report_kind \<Rightarrow> alias_table \<Rightarrow> bool \<times> alias_table" where
  "note_as_alias requested k t =
     (case report_key t requested k of Some key \<Rightarrow> note_once key t | None \<Rightarrow> (False, t))"

definition warn :: "report_kind \<Rightarrow> string \<Rightarrow> alias_table \<Rightarrow> alias_table" where
  "warn k requested t = snd (note_as_alias requested k t)"

fun state_kind :: "alias_state \<Rightarrow> report_kind option" where
  "state_kind AliasOk = None"
| "state_kind Shadowed = Some KIND_SHADOW"
| "state_kind AmbiguousAlias = Some KIND_AMBIGUOUS"
| "state_kind DeadAlias = Some KIND_DEAD"
| "state_kind ChainAlias = Some KIND_CHAIN"

definition warn_issue :: "alias_table \<Rightarrow> alias_issue \<Rightarrow> alias_table" where
  "warn_issue t i =
     (case state_kind (ai_state i) of Some k \<Rightarrow> warn k (ai_name i) t | None \<Rightarrow> t)"

definition warn_unroutable :: "(string \<Rightarrow> string) \<Rightarrow> catalog_row list \<Rightarrow> alias_table \<Rightarrow> alias_table" where
  "warn_unroutable lower cat t = foldl warn_issue t (audit lower (at_targets t) cat)"

subsection \<open>The model of a request\<close>

datatype client_ref_miss = NotFound | AmbiguousRef "string list"

record resolved_ref =
  rr_row :: catalog_row
  rr_alias :: bool

type_synonym ref_result = "client_ref_miss + resolved_ref"

fun client_miss :: "catalog_row list \<Rightarrow> resolve_error \<Rightarrow> client_ref_miss" where
  "client_miss rows (RefMany cs) = AmbiguousRef (published_ids_for rows cs)"
| "client_miss rows _ = NotFound"

definition note_moved_partial ::
  "(string \<Rightarrow> string) \<Rightarrow> catalog_row list \<Rightarrow> string \<Rightarrow> catalog_row \<Rightarrow> alias_table \<Rightarrow> alias_table" where
  "note_moved_partial lower rows reference row t =
     (if \<not> report_pending t reference KIND_PARTIAL then t
      else (case resolve_model_with_candidates lower rows reference of
              Inr other \<Rightarrow> if cr_path other \<noteq> cr_path row then warn KIND_PARTIAL reference t else t
            | Inl _ \<Rightarrow> t))"

definition resolve_aliased_reference ::
  "(string \<Rightarrow> string) \<Rightarrow> catalog_row list \<Rightarrow> string \<Rightarrow> string \<Rightarrow> alias_table \<Rightarrow> ref_result \<times> alias_table" where
  "resolve_aliased_reference lower rows reference target t =
     (case alias_verdict lower (at_targets t) rows target of
        Routes row \<Rightarrow> (Inr \<lparr>rr_row = row, rr_alias = True\<rparr>, note_moved_partial lower rows reference row t)
      | ChainTarget \<Rightarrow> (Inl NotFound, warn KIND_CHAIN reference t)
      | DeadTarget \<Rightarrow> (Inl NotFound, warn KIND_DEAD reference t)
      | AmbiguousTarget cs \<Rightarrow>
          (Inl (AmbiguousRef (published_ids_for rows cs)), warn KIND_AMBIGUOUS reference t))"

definition resolve_reference ::
  "(string \<Rightarrow> string) \<Rightarrow> catalog_row list \<Rightarrow> string \<Rightarrow> alias_table \<Rightarrow> ref_result \<times> alias_table" where
  "resolve_reference lower rows reference t =
     (case resolve_exact_reference rows reference of
        Inr row \<Rightarrow> (Inr \<lparr>rr_row = row, rr_alias = False\<rparr>, warn KIND_SHADOW reference t)
      | Inl RefEmpty \<Rightarrow> (Inl NotFound, t)
      | Inl _ \<Rightarrow>
          (case alias_target (at_targets t) reference of
             Some target \<Rightarrow> resolve_aliased_reference lower rows reference target t
           | None \<Rightarrow>
               (case resolve_model_with_candidates lower rows reference of
                  Inr row \<Rightarrow> (Inr \<lparr>rr_row = row, rr_alias = False\<rparr>, t)
                | Inl e \<Rightarrow> (Inl (client_miss rows e), t))))"

definition resolve_client_reference ::
  "(string \<Rightarrow> string) \<Rightarrow> catalog_row list \<Rightarrow> string \<Rightarrow> alias_table
    \<Rightarrow> (client_ref_miss + string option \<times> resolved_ref) \<times> alias_table" where
  "resolve_client_reference lower rows requested t =
     (case resolve_reference lower rows requested t of
        (Inr row, t) \<Rightarrow> (Inr (None, row), t)
      | (Inl (AmbiguousRef cs), t) \<Rightarrow> (Inl (AmbiguousRef cs), t)
      | (Inl NotFound, t) \<Rightarrow>
          (case parse_named_reference requested of
             Some (model, launch) \<Rightarrow>
               (case resolve_reference lower rows model t of
                  (Inr row, t) \<Rightarrow> (Inr (Some launch, row), t)
                | (Inl miss, t) \<Rightarrow> (Inl miss, t))
           | None \<Rightarrow> (Inl NotFound, t)))"

subsection \<open>The stored names\<close>

definition key_ok :: "string \<Rightarrow> bool" where
  "key_ok k \<longleftrightarrow> k \<noteq> [] \<and> CHR ''@'' \<notin> set k \<and> trim k = k \<and> ascii_lower k = k"

definition targets_ok :: "(string \<times> string) list \<Rightarrow> bool" where
  "targets_ok es \<longleftrightarrow> distinct (map fst es) \<and> list_all (\<lambda>e. key_ok (fst e)) es"

lemma remove_key_filter: "distinct (map fst es) \<Longrightarrow> remove_key k es = filter (\<lambda>e. fst e \<noteq> k) es"
proof (induction es)
  case (Cons e es)
  show ?case
  proof (cases "fst e = k")
    case True
    then have "k \<notin> fst ` set es" using Cons.prems by simp
    then have "filter (\<lambda>e. fst e \<noteq> k) es = es" by (intro filter_True) blast
    then show ?thesis using True by simp
  next
    case False
    then show ?thesis using Cons by simp
  qed
qed simp

lemma add_entry_ok:
  assumes "targets_ok es"
  shows "targets_ok (add_entry es e)"
proof -
  have "distinct (map fst (filter (\<lambda>e. P (fst e)) es))" for P
    using assms by (simp add: targets_ok_def distinct_map_filter)
  moreover have "key_ok (normalize (fst e))" if "normalize (fst e) \<noteq> []" "CHR ''@'' \<notin> set (normalize (fst e))"
    using that by (simp add: key_ok_def normalize_def trim_ascii_lower)
  ultimately show ?thesis
    using assms by (auto simp: add_entry_def Let_def targets_ok_def remove_key_filter list_all_iff)
qed

lemma build_ok: "targets_ok (at_targets (build_aliases entries))"
proof -
  have "targets_ok (foldl add_entry es entries)" if "targets_ok es" for es
    using that by (induction entries arbitrary: es) (simp_all add: add_entry_ok)
  then show ?thesis by (simp add: build_aliases_def targets_ok_def)
qed

lemma find_key: "distinct (map fst es) \<Longrightarrow> (k, v) \<in> set es \<Longrightarrow> List.find (\<lambda>e. fst e = k) es = Some (k, v)"
proof (induction es)
  case (Cons e es)
  show ?case
  proof (cases "fst e = k")
    case True
    then have "k \<notin> fst ` set es" using Cons.prems(1) by simp
    then have "(k, v) \<notin> set es" using image_eqI[of k fst "(k, v)" "set es"] by auto
    then show ?thesis using Cons.prems(2) True by auto
  next
    case False
    then show ?thesis using Cons by auto
  qed
qed simp

lemma lookup_own_key:
  assumes "targets_ok es" "(k, v) \<in> set es"
  shows "alias_lookup es k = Some (k, v)"
proof -
  have k: "key_ok k" using assms by (auto simp: targets_ok_def list_all_iff)
  have "same_ignoring_case (fst e) (trim k) \<longleftrightarrow> fst e = k" if "e \<in> set es" for e
  proof -
    have "key_ok (fst e)" using assms(1) that by (auto simp: targets_ok_def list_all_iff)
    then show ?thesis using k by (simp add: same_ignoring_case_def key_ok_def)
  qed
  then have "List.find (\<lambda>e. same_ignoring_case (fst e) (trim k)) es = List.find (\<lambda>e. fst e = k) es"
    by (intro find_cong) auto
  also have "\<dots> = Some (k, v)"
    using assms(2) find_key[of es k v] assms(1) by (simp add: targets_ok_def)
  finally show ?thesis using assms(2) by (auto simp: alias_lookup_def)
qed

lemma no_address_without_at: "CHR ''@'' \<notin> set r \<Longrightarrow> parse_named_reference r = None"
  using named_reference_parts[of r] by (cases "parse_named_reference r") auto

subsection \<open>The audit and the requests\<close>

text \<open>
  The answer a state stands for: the row the target names outright, the row that owns the name, at
  least two candidates, or a miss.
\<close>

definition answer_of ::
  "catalog_row list \<Rightarrow> alias_issue \<Rightarrow> client_ref_miss + string option \<times> resolved_ref \<Rightarrow> bool" where
  "answer_of cat i a \<longleftrightarrow>
     (case ai_state i of
        AliasOk \<Rightarrow> (\<exists>row \<in> set cat. resolve_exact_reference cat (ai_target i) = Inr row
                     \<and> a = Inr (None, \<lparr>rr_row = row, rr_alias = True\<rparr>))
      | Shadowed \<Rightarrow> (\<exists>row \<in> set cat. resolve_exact_reference cat (ai_name i) = Inr row
                       \<and> a = Inr (None, \<lparr>rr_row = row, rr_alias = False\<rparr>))
      | AmbiguousAlias \<Rightarrow> (case a of Inl (AmbiguousRef cs) \<Rightarrow> 2 \<le> length cs | _ \<Rightarrow> False)
      | DeadAlias \<Rightarrow> a = Inl NotFound
      | ChainAlias \<Rightarrow> a = Inl NotFound)"

lemma verdict_many:
  "alias_verdict lower targets cat target = AmbiguousTarget cs \<Longrightarrow> 2 \<le> length cs"
  using resolver_answers_many[of lower cat target cs] resolve_exact_many[of cat target cs]
  by (auto simp: alias_verdict_def split: sum.splits resolve_error.splits if_splits)

lemma verdict_routes:
  "alias_verdict lower targets cat target = Routes row \<longleftrightarrow> resolve_exact_reference cat target = Inr row"
  by (auto simp: alias_verdict_def split: sum.splits resolve_error.splits)

lemma length_published_ids_for [simp]: "length (published_ids_for cat cs) = length cs"
  by (simp add: published_ids_for_def Let_def)

lemma client_reference_of_alias:
  assumes "targets_ok (at_targets t)" "(name, target) \<in> set (at_targets t)"
    and "resolve_exact_reference cat name = Inl e"
  shows "fst (resolve_client_reference lower cat name t)
    = (case fst (resolve_aliased_reference lower cat name target t) of
         Inr ref \<Rightarrow> Inr (None, ref) | Inl miss \<Rightarrow> Inl miss)"
proof -
  have k: "key_ok name" using assms(1,2) by (auto simp: targets_ok_def list_all_iff)
  then have "e \<noteq> RefEmpty" using assms(3) resolve_exact_empty[of cat name] by (auto simp: key_ok_def)
  moreover have "alias_target (at_targets t) name = Some target"
    by (simp add: alias_target_def lookup_own_key[OF assms(1,2)])
  ultimately have "resolve_reference lower cat name t = resolve_aliased_reference lower cat name target t"
    using assms(3) by (cases e) (simp_all add: resolve_reference_def)
  moreover have "parse_named_reference name = None"
    using k by (intro no_address_without_at) (simp add: key_ok_def)
  ultimately show ?thesis
    by (auto simp: resolve_client_reference_def split: prod.splits sum.splits client_ref_miss.splits)
qed

text \<open>
  C32. Whatever has been reported before, a request under a configured name gets what the audit says of
  its entry: an entry that is in order routes to the one model its value names outright, a shadowed
  one to the model that owns the name, an ambiguous one is answered with at least two candidates, and
  a dead or chained one is a miss.
\<close>

theorem audit_predicts_requests:
  "let t = (build_aliases entries)\<lparr>at_warned := seen\<rparr>
   in list_all (\<lambda>i. answer_of cat i (fst (resolve_client_reference lower cat (ai_name i) t)))
        (audit lower (at_targets t) cat)"
proof -
  define t where "t = (build_aliases entries)\<lparr>at_warned := seen\<rparr>"
  have ok: "targets_ok (at_targets t)" using build_ok by (simp add: t_def)
  have "answer_of cat \<lparr>ai_name = name, ai_target = target, ai_state = state_of lower (at_targets t) cat name target\<rparr>
      (fst (resolve_client_reference lower cat name t))" if e: "(name, target) \<in> set (at_targets t)" for name target
  proof (cases "resolve_exact_reference cat name")
    case (Inr row)
    then show ?thesis using resolve_exact_row[OF Inr]
      by (simp add: answer_of_def state_of_def resolve_client_reference_def resolve_reference_def)
  next
    case (Inl err)
    note c = client_reference_of_alias[OF ok e Inl, of lower]
    show ?thesis
    proof (cases "alias_verdict lower (at_targets t) cat target")
      case (Routes row)
      then have "resolve_exact_reference cat target = Inr row" by (simp add: verdict_routes)
      then show ?thesis using Inl Routes c resolve_exact_row[of cat target row]
        by (simp add: answer_of_def state_of_def resolve_aliased_reference_def)
    next
      case (AmbiguousTarget cs)
      then show ?thesis using Inl c verdict_many[OF AmbiguousTarget]
        by (simp add: answer_of_def state_of_def resolve_aliased_reference_def)
    next
      case ChainTarget
      then show ?thesis using Inl c by (simp add: answer_of_def state_of_def resolve_aliased_reference_def)
    next
      case DeadTarget
      then show ?thesis using Inl c by (simp add: answer_of_def state_of_def resolve_aliased_reference_def)
    qed
  qed
  then show ?thesis by (auto simp: t_def[symmetric] Let_def audit_def list_all_iff)
qed

subsection \<open>Reports are separate\<close>

lemma kind_text_inject: "kind_text k @ CHR '' '' # a = kind_text k' @ CHR '' '' # b \<Longrightarrow> k = k' \<and> a = b"
  by (cases k; cases k') simp_all

text \<open>A report of one kind about one name leaves those of other kinds and other names to be made.\<close>

lemma warn_pending:
  assumes "alias_lookup (at_targets t) r = Some e" "alias_lookup (at_targets t) r' = Some e'"
  shows "report_pending (warn k r t) r' k' \<longleftrightarrow> report_pending t r' k' \<and> \<not> (k = k' \<and> fst e = fst e')"
  using assms kind_text_inject[of k "fst e" k' "fst e'"] kind_text_inject[of k' "fst e'" k "fst e"]
  by (auto simp: report_pending_def warn_def note_as_alias_def note_once_def report_key_def)

subsection \<open>An example\<close>

definition sample_aliases :: "(string \<times> string) list" where
  "sample_aliases = [(''GPT-4o-mini'', ''phi''), ('' phi '', ''lmstudio/un/Qwen-Q4''), (''old'', ''gpt-4o-mini''), (''gone'', ''nowhere'')]"

lemma sample_audit:
  "map ai_state (audit ascii_lower (at_targets (build_aliases sample_aliases)) sample_rows)
     = [AliasOk, Shadowed, ChainAlias, DeadAlias]"
  by code_simp

end
