(* ===== verification/Spec2Isabelle.thy ===== *)
theory Spec2Isabelle
  imports Gguf_Metadata Registry Coalesce Eviction Fallback Launch_Log Knob_Shipped Generic_Launch Glob
    Usage_Tap Llama_Compose Safe_Extract Datetime
    Request_Snapshot Request_Cells Aliases
begin

text \<open>
  llamastash keeps a catalog of the models on a machine, launches inference engines for them
  (llama.cpp, vLLM, SGLang, servers a user declares) under a daemon, and puts one HTTP proxy in front
  of the launches. This library models the parts of the program that decide something and shows what
  makes them correct. Paths below are under \<open>src/src/\<close>.

  How the parts interact. Discovery finds files, groups the shards of split models and reads GGUF
  headers; the memory estimator turns a header into bytes. A client names a model to the proxy; the
  aliases and the resolver turn the name into a catalog row. A model that does not run is launched:
  requests for one model coalesce into one launch, admission compares its demand with what is free
  and not reserved, eviction gives idle launches back to make room, and a fallback may serve instead.
  A launch takes a port and a name from the registry, its knobs are resolved in layers and emitted as
  an argument vector, and a supervisor takes it through its states and captures its output. The proxy
  logs every request and taps the usage from every response.

  Standard library. \<open>Prelude\<close>: saturating integers, results, byte strings. \<open>Text\<close>: the operations on
  strings, which hold UTF-8 bytes. \<open>Utf8_Chars\<close>: characters. \<open>Paths\<close>: \<open>std::path\<close>. \<open>Stable_Sort\<close>:
  the stable sorts. \<open>F64\<close>, \<open>Float_Text\<close>, \<open>Float_Arith\<close>: floating-point numbers as the rationals they
  stand for, each operation rounded to the width of the type, and their text.

  Models on disk. \<open>Gguf_Header\<close> is the reader of \<open>gguf/header.rs\<close> as state passing over a cursor, with
  the error type of \<open>gguf/errors.rs\<close>; \<open>Gguf_Codec\<close> the writer of \<open>gguf/test_fixtures.rs\<close>;
  \<open>Gguf_Quant\<close> and \<open>Gguf_Metadata\<close> the view of \<open>gguf/metadata.rs\<close>; \<open>Gguf_Memory\<close> the estimator of
  \<open>gguf/memory.rs\<close>; \<open>Identity\<close> the model id of \<open>gguf/identity.rs\<close>. Shown: a window that grows reads
  what the whole file holds, a written header is read back, skipping agrees with reading, what is
  read is within the limits of the file and of the program, and the estimate loses no byte.
  \<open>Split_Gguf\<close> is \<open>discovery/split_gguf.rs\<close>, \<open>Model_Ids\<close> the labels and published ids of
  \<open>util/paths.rs\<close>, \<open>Catalog_Row\<close> and \<open>References\<close> the row and the resolver of \<open>launch/resolve.rs\<close>,
  \<open>Aliases\<close> the table of \<open>proxy/alias.rs\<close> and the reference half of \<open>proxy/route.rs\<close>. Shown: grouping
  keeps every file, published ids differ and reach their rows, a resolver answers from its catalog,
  and a request under an alias gets what the audit of the table says.

  Memory and launches. \<open>Headroom\<close> (\<open>launch/headroom.rs\<close>) and \<open>Admission\<close> (\<open>launch/admission.rs\<close>):
  the ledger of reservations; no byte is promised twice. \<open>Eviction\<close> (\<open>proxy/eviction.rs\<close>,
  \<open>daemon/idle.rs\<close>): room is made in full or nothing is stopped. \<open>Fallback\<close> (\<open>proxy/mru.rs\<close>,
  \<open>proxy/failure_tracker.rs\<close>). \<open>Registry\<close> (\<open>daemon/registry.rs\<close>, \<open>daemon/ports.rs\<close>): ports and names
  are handed out once. \<open>Coalesce\<close> (\<open>proxy/coalesce.rs\<close>) is a step relation: a step is what happens
  under one lock, and followers wait on a slot; one flight per key, and no waiter is left behind.
  \<open>Supervisor\<close> (\<open>daemon/supervisor.rs\<close>, \<open>daemon/actuals.rs\<close>, \<open>daemon/probe.rs\<close>) is a step relation over
  the state of one launch and its tasks; \<open>Launch_Log\<close> its ring, rotating files and pumps.

  Arguments. \<open>Knob_Value\<close>, \<open>Knob_Registry\<close>, \<open>Knob_Set\<close>, \<open>Knob_Resolve\<close>, \<open>Knob_Serde\<close>
  (\<open>launch/knobs/\<close>): declarations, values, layers, emission and the wire form; \<open>Knob_Tables\<close> and
  \<open>Knob_Shipped\<close>: the tables of the shipped engines, on which the contracts are discharged.
  \<open>Launch_Args\<close> and \<open>Llama_Compose\<close> (\<open>launch/params.rs\<close>, \<open>launch/mode.rs\<close>,
  \<open>backend/llama_cpp/compose.rs\<close>): the denylist and the whole argument vector of llama.cpp.
  \<open>Generic_Config\<close> and \<open>Generic_Launch\<close> (\<open>backend/generic/\<close>): servers a user declares. \<open>Glob\<close> and
  \<open>Http_Path\<close> (\<open>util/\<close>): the wildcard match and request paths. Shown: the strongest layer wins, no
  emitted vector carries a head of the denylist, a launch stays on the loopback address, a path of
  the proxy has one owner, the displayed text does not depend on secrets that do not start with a
  dash, and the wildcard loop returns on every text.

  Requests. \<open>Request_Row\<close>, \<open>Request_Log\<close>, \<open>Request_Count\<close>, \<open>Request_Snapshot\<close>, \<open>Request_Cells\<close>
  (\<open>proxy/request_log.rs\<close>): rows, the log with its records and its file, what every sequence of steps
  keeps, snapshots and table cells. \<open>Usage_Tap\<close> (\<open>proxy/usage_tap.rs\<close>). A lock
  scope is one step, and so is every operation on the queue of the file and every step of its writer;
  a row is sent after the lock is released. Shown: every request ends once, totals are those of the
  ended requests, every ended row is accounted for between the lock and the file, the busy time is
  the size of the union of the windows, a snapshot answers as the log for scopes the log has totals
  of, and the tap refines a reading of the whole body. Further
  \<open>Datetime\<close> (\<open>util/datetime.rs\<close>, the Gregorian calendar) and \<open>Safe_Extract\<close>
  (\<open>init/install/safe_extract.rs\<close>, nothing is written outside the target directory).

  Correspondence. A struct is a record and an enum a datatype with the constructors of the source; a
  fallible function returns a sum or an option; a lock scope is one operation on an explicit state.
  Integers that saturate or wrap do so at their width; counters that would need 2 to the 64 events
  are naturals. Hash maps are association lists or maps, their order never observed.

  Bounds and fuel. Recursion is structural or has a measure. The reader of nested arrays carries the
  depth the source bounds at \<open>MAX_ARRAY_NEST_DEPTH\<close>; the growing window at most doubles up to the cap
  of the header. The loop of the wildcard match is a partial function that is shown to return.
  Trimming recurses on the length of its text, which is enough because each round removes a character.

  Parameters. The clocks, the file system's and the operating system's answers, BLAKE3, the JSON and
  YAML readers, the decompressor, \<open>str::to_lowercase\<close> beyond ASCII and the order of hash maps are
  arguments of the definitions that use them.

  Not modelled: the terminal interface, the command line tables, the setup wizard, the tool
  configuration, probing of hardware and of engines, the HTTP handlers and the streaming, the metrics
  text, the editing of YAML files, directory walks and watchers, and the wiring of the daemon. They
  are input and output around the parts above, or calls of libraries the sources only use.
\<close>

end
